(* ===== verification/Mvlc_Prelude.thy ===== *)
theory Mvlc_Prelude
  imports Main "HOL-Library.Word"
begin

text \<open>
  Shared vocabulary of the development: the fixed-width integer types of
  \<open>src/src/mesytec-mvlc/util/int_types.h\<close>, the failure values the C++ code can
  end in, the word and list lemmas used by the component theories and the
  named collections their proofs rest on.
\<close>

unbundle bit_operations_syntax

section \<open>Integer types\<close>

type_synonym u8 = "8 word"
type_synonym u16 = "16 word"
type_synonym u32 = "32 word"
type_synonym u64 = "64 word"

text \<open>
  The signed types \<open>s32\<close> and \<open>s64\<close> of the code are \<^typ>\<open>int\<close>; where a
  conversion from an unsigned type can change the value it is written out.
\<close>

section \<open>Failures\<close>

text \<open>
  Every way in which a C++ function leaves its normal control flow is a value:
  the exceptions it throws, a failed \<open>assert\<close> and, for code that runs past the
  end of a container, \<open>UndefinedBehaviour\<close>. A computation is a sum, \<open>Inl\<close>
  being the failure.
\<close>

datatype failure =
    RuntimeError
  | InvalidArgument
  | OutOfRange
  | LengthError
  | EndOfBuffer
  | EndOfFrame
  | AssertionFailure
  | UndefinedBehaviour

type_synonym 'a result = "failure + 'a"

definition result_bind :: "'a result \<Rightarrow> ('a \<Rightarrow> 'b result) \<Rightarrow> 'b result" where
  "result_bind m f = (case m of Inl e \<Rightarrow> Inl e | Inr x \<Rightarrow> f x)"

definition result_map :: "('a \<Rightarrow> 'b) \<Rightarrow> 'a result \<Rightarrow> 'b result" where
  "result_map f m = (case m of Inl e \<Rightarrow> Inl e | Inr x \<Rightarrow> Inr (f x))"

fun result_foldM :: "('a \<Rightarrow> 's \<Rightarrow> 's result) \<Rightarrow> 'a list \<Rightarrow> 's \<Rightarrow> 's result" where
  "result_foldM f [] s = Inr s"
| "result_foldM f (x # xs) s = result_bind (f x s) (result_foldM f xs)"

fun result_mapM :: "('a \<Rightarrow> 'b result) \<Rightarrow> 'a list \<Rightarrow> 'b list result" where
  "result_mapM f [] = Inr []"
| "result_mapM f (x # xs) = result_bind (f x) (\<lambda>y. result_map (Cons y) (result_mapM f xs))"

lemma result_bind_simps [simp]:
  "result_bind (Inl e) f = Inl e" "result_bind (Inr x) f = f x"
  by (simp_all add: result_bind_def)

lemma result_map_simps [simp]:
  "result_map f (Inl e) = Inl e" "result_map f (Inr x) = Inr (f x)"
  by (simp_all add: result_map_def)

lemma result_bind_cong [fundef_cong]:
  "m = m' \<Longrightarrow> (\<And>x. m' = Inr x \<Longrightarrow> f x = f' x) \<Longrightarrow> result_bind m f = result_bind m' f'"
  by (cases m') auto

lemma result_bind_eq_Inr [simp]:
  "result_bind m f = Inr y \<longleftrightarrow> (\<exists>x. m = Inr x \<and> f x = Inr y)"
  by (cases m) auto

lemma result_map_eq_Inr [simp]: "result_map f m = Inr y \<longleftrightarrow> (\<exists>x. m = Inr x \<and> y = f x)"
  by (cases m) auto

section \<open>Collections of lemmas\<close>

named_theorems mask_simps \<open>masking with a low-bit constant is \<open>take_bit\<close>\<close>
named_theorems frame_simps \<open>field access of frame headers\<close>

section \<open>Words\<close>

lemma and_low_mask [mask_simps]:
  fixes x :: "'a::len word"
  shows "x AND 1 = take_bit 1 x" "x AND 3 = take_bit 2 x" "x AND 7 = take_bit 3 x"
    and "x AND 0xF = take_bit 4 x" "x AND 0x1F = take_bit 5 x" "x AND 0x3F = take_bit 6 x"
    and "x AND 0x7F = take_bit 7 x" "x AND 0xFF = take_bit 8 x" "x AND 0xFFF = take_bit 12 x"
    and "x AND 0x1FFF = take_bit 13 x" "x AND 0xFFFF = take_bit 16 x"
    and "x AND 0xFFFFF = take_bit 20 x" "x AND 0xFFFFFF = take_bit 24 x"
    and "x AND 0x3FFFFFFF = take_bit 30 x"
  by (simp_all only: take_bit_eq_mask mask_eq_exp_minus_1) simp_all

lemma bit_word_bound: "bit w n \<Longrightarrow> n < LENGTH('a)" for w :: "'a::len word"
  by (rule bit_imp_le_length)

lemmas bit_bounds =
  bit_word_bound [where 'a = 8, simplified]
  bit_word_bound [where 'a = 16, simplified]
  bit_word_bound [where 'a = 32, simplified]

lemma u32_eqI: "(\<And>n. n < 32 \<Longrightarrow> bit a n = bit b n) \<Longrightarrow> a = b" for a b :: u32
  by (rule bit_word_eqI) simp

lemma unat_take_bit_less: "n \<le> m \<Longrightarrow> unat (take_bit n w) < 2 ^ m"
  for w :: "'a::len word"
proof -
  assume "n \<le> m"
  have "unat (take_bit n w) < 2 ^ n"
    by (simp add: unsigned_take_bit_eq)
  also have "\<dots> \<le> 2 ^ m" using \<open>n \<le> m\<close> by simp
  finally show ?thesis .
qed

lemma take_bit_word_self: "unat w < 2 ^ n \<Longrightarrow> take_bit n w = w" for w :: "'a::len word"
  unfolding word_unat_eq_iff by (simp add: unsigned_take_bit_eq take_bit_nat_eq_self)

lemma unat_ucast_le: "unat (ucast w :: 'b::len word) \<le> unat (w :: 'a::len word)"
  by (simp add: unsigned_ucast_eq)

section \<open>Lists\<close>

lemma drop_eq_suffix_length:
  assumes "length (drop n xs) = length (drop m xs)" "n \<le> length xs" "m \<le> length xs"
  shows "n = m"
  using assms by simp

section \<open>Loops over an index\<close>

lemma fold_upt_invariant:
  assumes "P 0 s" "\<And>i s. i < n \<Longrightarrow> P i s \<Longrightarrow> P (Suc i) (f i s)"
  shows "P n (fold f [0..<n] s)"
proof -
  have "k \<le> n \<Longrightarrow> P k (fold f [0..<k] s)" for k
    using assms by (induction k) auto
  then show ?thesis by simp
qed

lemma result_foldM_append [simp]:
  "result_foldM f (xs @ ys) s = result_bind (result_foldM f xs s) (result_foldM f ys)"
  by (induction xs arbitrary: s) (auto simp: result_bind_def split: sum.splits)

lemma result_foldM_upt_invariant:
  assumes "P 0 s" "\<And>i s. i < n \<Longrightarrow> P i s \<Longrightarrow> \<exists>s'. f i s = Inr s' \<and> P (Suc i) s'"
  shows "\<exists>s'. result_foldM f [0..<n] s = Inr s' \<and> P n s'"
proof -
  have "k \<le> n \<Longrightarrow> \<exists>s'. result_foldM f [0..<k] s = Inr s' \<and> P k s'" for k
  proof (induction k)
    case (Suc k)
    then obtain s' where "result_foldM f [0..<k] s = Inr s'" "P k s'" by auto
    then show ?case using Suc.prems assms(2) [of k s'] by auto
  qed (simp add: assms)
  then show ?thesis by simp
qed

lemma fold_update_nth:
  assumes "n \<le> length xs"
  shows "length (fold (\<lambda>i xs. xs[i := g i (xs ! i)]) [0..<n] xs) = length xs"
    and "j < length xs \<Longrightarrow>
      fold (\<lambda>i xs. xs[i := g i (xs ! i)]) [0..<n] xs ! j = (if j < n then g j (xs ! j) else xs ! j)"
proof -
  have "k \<le> n \<Longrightarrow> length (fold (\<lambda>i xs. xs[i := g i (xs ! i)]) [0..<k] xs) = length xs \<and>
    (\<forall>j < length xs. fold (\<lambda>i xs. xs[i := g i (xs ! i)]) [0..<k] xs ! j = (if j < k then g j (xs ! j) else xs ! j))" for k
    using assms by (induction k) (auto simp: nth_list_update less_Suc_eq)
  from this [of n] show "length (fold (\<lambda>i xs. xs[i := g i (xs ! i)]) [0..<n] xs) = length xs"
    "j < length xs \<Longrightarrow>
      fold (\<lambda>i xs. xs[i := g i (xs ! i)]) [0..<n] xs ! j = (if j < n then g j (xs ! j) else xs ! j)"
    by auto
qed

lemma fold_fst: "(\<And>i s. fst (f i s) = h i (fst s)) \<Longrightarrow> fst (fold f xs s) = fold h xs (fst s)"
  by (induction xs arbitrary: s) auto

end
