(* ===== verification/Mvlc_Frames.thy ===== *)
theory Mvlc_Frames
  imports Mvlc_Prelude
begin

text \<open>
  Frame headers and the functions that walk framed buffers: the constants of
  \<open>mvlc_constants.h\<close>, \<open>extract_frame_info\<close> and the buffer utilities of
  \<open>mvlc_util.h\<close> / \<open>mvlc_util.cc\<close>, the header predicates of
  \<open>mvlc_buffer_validators.h\<close> and the UDP payload headers of
  \<open>mvlc_eth_interface.h\<close>. Byte buffers are \<open>u8 list\<close>, word buffers \<open>u32 list\<close>;
  a view's \<open>remove_prefix\<close> is \<^const>\<open>drop\<close>.
\<close>

section \<open>Constants\<close>

abbreviation (input) FT_SuperFrame :: u8 where "FT_SuperFrame \<equiv> 0xF1"
abbreviation (input) FT_SuperContinuation :: u8 where "FT_SuperContinuation \<equiv> 0xF2"
abbreviation (input) FT_StackFrame :: u8 where "FT_StackFrame \<equiv> 0xF3"
abbreviation (input) FT_BlockRead :: u8 where "FT_BlockRead \<equiv> 0xF5"
abbreviation (input) FT_StackError :: u8 where "FT_StackError \<equiv> 0xF7"
abbreviation (input) FT_StackContinuation :: u8 where "FT_StackContinuation \<equiv> 0xF9"
abbreviation (input) FT_SystemEvent :: u8 where "FT_SystemEvent \<equiv> 0xFA"
abbreviation (input) FT_SystemEvent2 :: u8 where "FT_SystemEvent2 \<equiv> 0xFB"

abbreviation (input) FF_Timeout :: u8 where "FF_Timeout \<equiv> 1"
abbreviation (input) FF_BusError :: u8 where "FF_BusError \<equiv> 2"
abbreviation (input) FF_SyntaxError :: u8 where "FF_SyntaxError \<equiv> 4"
abbreviation (input) FF_Continue :: u8 where "FF_Continue \<equiv> 8"

abbreviation (input) eth_HeaderWords :: nat where "eth_HeaderWords \<equiv> 2"
abbreviation (input) NoHeaderPointerPresent :: u16 where "NoHeaderPointerPresent \<equiv> 0xFFF"

datatype ConnectionType = USB | ETH

section \<open>Frame headers\<close>

record FrameInfo =
  fi_len :: u16
  fi_type :: u8
  fi_flags :: u8
  fi_stack :: u8
  fi_ctrl :: u8
  fi_sysEventSubType :: u8

definition get_frame_type :: "u32 \<Rightarrow> u8" where
  "get_frame_type header = ucast (drop_bit 24 header AND 0xFF)"

definition extract_subtype :: "u32 \<Rightarrow> u8" where
  "extract_subtype header = ucast (drop_bit 13 header AND 0x7F)"

definition extract_frame_info :: "u32 \<Rightarrow> FrameInfo" where
  "extract_frame_info header =
     (let result = \<lparr> fi_len = ucast (header AND 0x1FFF),
                     fi_type = ucast (drop_bit 24 header AND 0xFF),
                     fi_flags = 0, fi_stack = 0, fi_ctrl = 0, fi_sysEventSubType = 0 \<rparr>
      in if fi_type result = FT_SystemEvent
         then result\<lparr> fi_ctrl := ucast (drop_bit 20 header AND 7),
                      fi_sysEventSubType := ucast (drop_bit 13 header AND 0x7F),
                      fi_flags := ucast (push_bit 3 (drop_bit 23 header AND 1)) \<rparr>
         else result\<lparr> fi_flags := ucast (drop_bit 20 header AND 0xF),
                      fi_stack := ucast (drop_bit 16 header AND 0xF),
                      fi_ctrl := ucast (drop_bit 13 header AND 7) \<rparr>)"

definition extract_frame_flags :: "u32 \<Rightarrow> u8" where
  "extract_frame_flags header = fi_flags (extract_frame_info header)"

definition get_frame_length :: "u32 \<Rightarrow> u32" where
  "get_frame_length header = ucast (fi_len (extract_frame_info header))"

definition has_error_flag_set :: "u8 \<Rightarrow> bool" where
  "has_error_flag_set frameFlags \<longleftrightarrow> frameFlags AND (FF_Timeout OR FF_BusError OR FF_SyntaxError) \<noteq> 0"

definition is_super_buffer :: "u32 \<Rightarrow> bool" where
  "is_super_buffer header \<longleftrightarrow> get_frame_type header = FT_SuperFrame"

definition is_super_buffer_continuation :: "u32 \<Rightarrow> bool" where
  "is_super_buffer_continuation header \<longleftrightarrow> get_frame_type header = FT_SuperContinuation"

definition is_stack_buffer :: "u32 \<Rightarrow> bool" where
  "is_stack_buffer header \<longleftrightarrow> get_frame_type header = FT_StackFrame"

definition is_blockread_buffer :: "u32 \<Rightarrow> bool" where
  "is_blockread_buffer header \<longleftrightarrow> get_frame_type header = FT_BlockRead"

definition is_stackerror_notification :: "u32 \<Rightarrow> bool" where
  "is_stackerror_notification header \<longleftrightarrow> get_frame_type header = FT_StackError"

definition is_stack_buffer_continuation :: "u32 \<Rightarrow> bool" where
  "is_stack_buffer_continuation header \<longleftrightarrow> get_frame_type header = FT_StackContinuation"

definition is_system_event :: "u32 \<Rightarrow> bool" where
  "is_system_event header \<longleftrightarrow> get_frame_type header = FT_SystemEvent"

definition is_known_frame_header :: "u32 \<Rightarrow> bool" where
  "is_known_frame_header header \<longleftrightarrow>
     (let type = get_frame_type header
      in type = FT_SuperFrame \<or> type = FT_SuperContinuation \<or> type = FT_StackFrame
         \<or> type = FT_BlockRead \<or> type = FT_StackError \<or> type = FT_StackContinuation
         \<or> type = FT_SystemEvent \<or> type = FT_SystemEvent2)"

definition is_eth_header0 :: "u32 \<Rightarrow> bool" where
  "is_eth_header0 header \<longleftrightarrow> drop_bit 30 header AND 3 = 0"

section \<open>UDP payload headers\<close>

record PayloadHeaderInfo =
  header0 :: u32
  header1 :: u32

definition packetChannel :: "PayloadHeaderInfo \<Rightarrow> u16" where
  "packetChannel h = ucast (drop_bit 28 (header0 h) AND 3)"

definition packetNumber :: "PayloadHeaderInfo \<Rightarrow> u16" where
  "packetNumber h = ucast (drop_bit 16 (header0 h) AND 0xFFF)"

definition controllerId :: "PayloadHeaderInfo \<Rightarrow> u16" where
  "controllerId h = ucast (drop_bit 13 (header0 h) AND 7)"

definition dataWordCount :: "PayloadHeaderInfo \<Rightarrow> u16" where
  "dataWordCount h = ucast (header0 h AND 0x1FFF)"

definition udpTimestamp :: "PayloadHeaderInfo \<Rightarrow> u16" where
  "udpTimestamp h = ucast (drop_bit 12 (header1 h) AND 0xFFFFF)"

definition nextHeaderPointer :: "PayloadHeaderInfo \<Rightarrow> u16" where
  "nextHeaderPointer h = ucast (header1 h AND 0xFFF)"

definition isNextHeaderPointerPresent :: "PayloadHeaderInfo \<Rightarrow> bool" where
  "isNextHeaderPointerPresent h \<longleftrightarrow> nextHeaderPointer h \<noteq> NoHeaderPointerPresent"

definition isNextHeaderPointerValid :: "PayloadHeaderInfo \<Rightarrow> bool" where
  "isNextHeaderPointerValid h \<longleftrightarrow>
     isNextHeaderPointerPresent h \<and> nextHeaderPointer h < dataWordCount h"

text \<open>
  \<open>calc_packet_loss\<close> subtracts two \<open>u16\<close> values after integral promotion, so
  the difference is a signed number.
\<close>

definition calc_packet_loss :: "u16 \<Rightarrow> u16 \<Rightarrow> int" where
  "calc_packet_loss lastPacketNumber pktNumber =
     (let diff = uint pktNumber - uint lastPacketNumber
      in if diff < 1 then 0xFFF + diff else diff - 1)"

section \<open>Fields of frame headers\<close>

lemma frame_field_cases [consumes 1, case_names len ctrl stack flags type]: 
 "n < 32 \<Longrightarrow> (n < 13 \<Longrightarrow> P) \<Longrightarrow> (13 \<le> n \<Longrightarrow> n < 16 \<Longrightarrow> P) \<Longrightarrow> (16 \<le> n \<Longrightarrow> n < 20 \<Longrightarrow> P)
  \<Longrightarrow> (20 \<le> n \<Longrightarrow> n < 24 \<Longrightarrow> P)  \<Longrightarrow> (24 \<le> n \<Longrightarrow> n < 32 \<Longrightarrow> P) \<Longrightarrow> P" for n :: nat by linarith

lemma fi_type_eq [frame_simps]: "fi_type (extract_frame_info h) = get_frame_type h"
  by (simp add: extract_frame_info_def get_frame_type_def Let_def)

lemma fi_len_eq [frame_simps]: "fi_len (extract_frame_info h) = ucast (take_bit 13 h)"
  by (simp add: extract_frame_info_def Let_def mask_simps)

lemma fi_frame_eq [frame_simps]:
  assumes "get_frame_type h \<noteq> FT_SystemEvent"
  shows "fi_flags (extract_frame_info h) = ucast (take_bit 4 (drop_bit 20 h))"
    and "fi_stack (extract_frame_info h) = ucast (take_bit 4 (drop_bit 16 h))"
    and "fi_ctrl (extract_frame_info h) = ucast (take_bit 3 (drop_bit 13 h))"
    and "fi_sysEventSubType (extract_frame_info h) = 0"
  using assms by (simp_all add: extract_frame_info_def get_frame_type_def Let_def mask_simps)

lemma fi_sysevent_eq [frame_simps]:
  assumes "get_frame_type h = FT_SystemEvent"
  shows "fi_flags (extract_frame_info h) = ucast (push_bit 3 (take_bit 1 (drop_bit 23 h)))"
    and "fi_stack (extract_frame_info h) = 0"
    and "fi_ctrl (extract_frame_info h) = ucast (take_bit 3 (drop_bit 20 h))"
    and "fi_sysEventSubType (extract_frame_info h) = ucast (take_bit 7 (drop_bit 13 h))"
  using assms by (simp_all add: extract_frame_info_def get_frame_type_def Let_def mask_simps)

lemma unat_fi_len: "unat (fi_len (extract_frame_info h)) = unat (take_bit 13 h)"
  by (simp add: frame_simps unsigned_ucast_eq) (simp add: unsigned_take_bit_eq min_def)

lemma fi_len_bound: "unat (fi_len (extract_frame_info h)) < 8192"
  using unat_take_bit_less [of 13 13 h] by (simp add: unat_fi_len)

lemma extract_frame_info_lossless:
  assumes "get_frame_type h \<noteq> FT_SystemEvent"
  shows "h = push_bit 24 (ucast (fi_type (extract_frame_info h))) OR
       push_bit 20 (ucast (fi_flags (extract_frame_info h))) OR
       push_bit 16 (ucast (fi_stack (extract_frame_info h))) OR
       push_bit 13 (ucast (fi_ctrl (extract_frame_info h))) OR
       ucast (fi_len (extract_frame_info h))"
proof (rule u32_eqI, goal_cases)
  case (1 n)
  then show ?case 
    by (cases n rule: frame_field_cases) (simp_all add: fi_frame_eq [OF assms] fi_type_eq fi_len_eq get_frame_type_def mask_simps bit_simps less_diff_conv2)
qed

lemma sysevent_field_cases [consumes 1, case_names len subtype ctrl cont type]: 
 "n < 32 \<Longrightarrow> (n < 13 \<Longrightarrow> P) \<Longrightarrow> (13 \<le> n \<Longrightarrow> n < 20 \<Longrightarrow> P) \<Longrightarrow> (20 \<le> n \<Longrightarrow> n < 23 \<Longrightarrow> P)
  \<Longrightarrow> (n = 23 \<Longrightarrow> P)  \<Longrightarrow> (24 \<le> n \<Longrightarrow> n < 32 \<Longrightarrow> P) \<Longrightarrow> P" for n :: nat by linarith

lemma extract_system_event_lossless:
  assumes "get_frame_type h = FT_SystemEvent"
  shows "h = push_bit 24 (ucast (fi_type (extract_frame_info h))) OR
       push_bit 20 (ucast (fi_flags (extract_frame_info h))) OR
       push_bit 20 (ucast (fi_ctrl (extract_frame_info h))) OR
       push_bit 13 (ucast (fi_sysEventSubType (extract_frame_info h))) OR
       ucast (fi_len (extract_frame_info h))"
proof (rule u32_eqI, goal_cases)
  case (1 n)
  then show ?case 
    by (cases n rule: sysevent_field_cases) (simp_all add: fi_sysevent_eq [OF assms] fi_type_eq fi_len_eq get_frame_type_def mask_simps bit_simps
        less_diff_conv2 le_diff_conv2 flip: bit_iff_odd_drop_bit)
qed

lemma frame_type_not_eth:
  assumes "is_known_frame_header w" shows "\<not> is_eth_header0 w"
proof -
  have "bit (get_frame_type w) 7"
    using assms by (auto simp: is_known_frame_header_def Let_def)
  then have "bit w 31" by (simp add: get_frame_type_def mask_simps bit_simps)
  then have "bit (drop_bit 30 w AND 3) 1" by (simp add: bit_simps mask_simps)
  then show ?thesis by (auto simp: is_eth_header0_def)
qed

lemma dataWordCount_bound: "unat (dataWordCount h) < 8192"
  using unat_take_bit_less [of 13 13 "header0 h"]
  by (simp add: dataWordCount_def mask_simps unsigned_ucast_eq unsigned_take_bit_eq min_def)


section \<open>Properties\<close>


text \<open>
  C24. The number of lost UDP packets between two consecutive packet numbers of
  one channel is the distance modulo the 12-bit packet number space: 0 for
  consecutive numbers, across the wrap from 4095 to 0 as well.
\<close>

theorem calc_packet_loss_mod:
  assumes "uint lastNumber < 4096" "uint number < 4096"
  shows "calc_packet_loss lastNumber number = (uint number - uint lastNumber - 1) mod 4096"
proof (cases "uint number - uint lastNumber < 1")
  case True
  let ?d = "uint number - uint lastNumber - 1"
  have "?d mod 4096 = (?d + 4096) mod 4096" by (rule mod_add_self2 [symmetric])
  also have "\<dots> = ?d + 4096"
    using True assms uint_nonnegative [of number] by (intro mod_pos_pos_trivial) linarith+
  finally show ?thesis using True by (simp add: calc_packet_loss_def)
next
  case False
  have "(uint number - uint lastNumber - 1) mod 4096 = uint number - uint lastNumber - 1"
    using False assms uint_nonnegative [of lastNumber] by (intro mod_pos_pos_trivial) linarith+
  with False show ?thesis by (simp add: calc_packet_loss_def)
qed

theorem calc_packet_loss_mod_witness:
  "uint (4095 :: u16) < 4096 \<and> uint (0 :: u16) < 4096 \<and> calc_packet_loss 4095 0 = 0"
  using calc_packet_loss_mod [of 4095 0] by simp

text \<open>
  The ETH timestamp of a packet is documented as a 20-bit counter of
  milliseconds that wraps after 17.5 minutes; \<open>udpTimestamp\<close> returns it through a
  16-bit result, so the value wraps after 65.5 seconds and packets whose
  timestamps differ by a multiple of 65536 ms are indistinguishable.
\<close>

theorem udpTimestamp_truncated:
  "unat (udpTimestamp h) = unat (take_bit 20 (drop_bit 12 (header1 h))) mod 2 ^ 16 \<and>
   (\<exists>a b. take_bit 20 (drop_bit 12 (header1 a)) \<noteq> take_bit 20 (drop_bit 12 (header1 b)) \<and>
     udpTimestamp a = udpTimestamp b)"
proof (intro conjI)
  show "unat (udpTimestamp h) = unat (take_bit 20 (drop_bit 12 (header1 h))) mod 2 ^ 16"
    by (simp add: udpTimestamp_def mask_simps unsigned_ucast_eq take_bit_eq_mod)
  have "take_bit 20 (drop_bit 12 (header1 \<lparr>header0 = 0, header1 = 0\<rparr>)) \<noteq>
        take_bit 20 (drop_bit 12 (header1 \<lparr>header0 = 0, header1 = 0x10000000\<rparr>))"
    "udpTimestamp \<lparr>header0 = 0, header1 = 0\<rparr> = udpTimestamp \<lparr>header0 = 0, header1 = 0x10000000\<rparr>"
    by code_simp+
  then show "\<exists>a b. take_bit 20 (drop_bit 12 (header1 a)) \<noteq> take_bit 20 (drop_bit 12 (header1 b)) \<and>
     udpTimestamp a = udpTimestamp b" by blast
qed

end
