(* ===== verification/Mvlc_Buffers.thy ===== *)
theory Mvlc_Buffers
  imports Mvlc_Frames
begin

text \<open>
  The functions of \<open>mvlc_util.cc\<close> that follow the framing structure of a
  buffer: \<open>skip_one_frame_usb/eth\<close>, \<open>fixup_buffer\<close>, \<open>detect_buffer_type\<close>
  and \<open>calculate_complete_frames_bytes\<close>. \<open>fixup_buffer\<close> is a template over
  the skip function; its laws are stated once for every skip function that
  satisfies the contract \<open>frame_skipper\<close>, and both transport formats are
  shown to satisfy it.
\<close>

section \<open>Reading words from byte buffers\<close>

text \<open>
  \<open>*reinterpret_cast<const u32 *>(view.data())\<close> on a little-endian host. The
  callers check that four bytes are present.
\<close>

fun read_u32 :: "u8 list \<Rightarrow> u32" where
  "read_u32 (b0 # b1 # b2 # b3 # _) =
     ucast b0 OR push_bit 8 (ucast b1) OR push_bit 16 (ucast b2) OR push_bit 24 (ucast b3)"
| "read_u32 _ = 0"

definition bytes_of_u32 :: "u32 \<Rightarrow> u8 list" where
  "bytes_of_u32 w = [ucast w, ucast (drop_bit 8 w), ucast (drop_bit 16 w), ucast (drop_bit 24 w)]"

definition bytes_of_words :: "u32 list \<Rightarrow> u8 list" where
  "bytes_of_words ws = concat (map bytes_of_u32 ws)"

section \<open>Skipping one frame\<close>

definition skip_one_frame_usb :: "u8 list \<Rightarrow> nat" where
  "skip_one_frame_usb view =
     (if length view < 4 then 0
      else (1 + unat (fi_len (extract_frame_info (read_u32 view)))) * 4)"

definition skip_one_frame_eth :: "u8 list \<Rightarrow> nat" where
  "skip_one_frame_eth view =
     (if length view < 4 then 0
      else let header = read_u32 view in
        if get_frame_type header = FT_SystemEvent
        then (1 + unat (fi_len (extract_frame_info header))) * 4
        else if 2 * 4 \<le> length view
        then let ethHdrs = \<lparr> header0 = header, header1 = read_u32 (drop 4 view) \<rparr>
             in (eth_HeaderWords + unat (dataWordCount ethHdrs)) * 4
        else 0)"

section \<open>Moving incomplete frames: fixup_buffer\<close>

text \<open>
  The loop keeps its view when fewer than four bytes are left, so it does not
  return then; \<^const>\<open>None\<close> is that outcome. The result is the number of
  trailing bytes and the new temporary buffer.
\<close>

partial_function (option) fixup_buffer ::
  "(u8 list \<Rightarrow> nat) \<Rightarrow> u8 list \<Rightarrow> u8 list \<Rightarrow> (nat \<times> u8 list) option" where
  "fixup_buffer skip_count view tmpBuf =
     (if view = [] then Some (0, tmpBuf)
      else if 4 \<le> length view
      then let bytesToSkip = skip_count view in
        if bytesToSkip = 0 \<or> length view < bytesToSkip
        then Some (length view, tmpBuf @ view)
        else fixup_buffer skip_count (drop bytesToSkip view) tmpBuf
      else fixup_buffer skip_count view tmpBuf)"

definition fixup_buffer_mvlc_usb :: "u8 list \<Rightarrow> u8 list \<Rightarrow> (nat \<times> u8 list) option" where
  "fixup_buffer_mvlc_usb buf tmpBuf = fixup_buffer skip_one_frame_usb buf tmpBuf"

definition fixup_buffer_mvlc_eth :: "u8 list \<Rightarrow> u8 list \<Rightarrow> (nat \<times> u8 list) option" where
  "fixup_buffer_mvlc_eth buf tmpBuf = fixup_buffer skip_one_frame_eth buf tmpBuf"

definition fixup_buffer_mvlc :: "ConnectionType \<Rightarrow> u8 list \<Rightarrow> u8 list \<Rightarrow> (nat \<times> u8 list) option" where
  "fixup_buffer_mvlc bufferType msgBuf tmpBuf =
     (if bufferType = ETH then fixup_buffer_mvlc_eth msgBuf tmpBuf
      else fixup_buffer_mvlc_usb msgBuf tmpBuf)"

section \<open>Counting the bytes of complete frames\<close>

text \<open>
  The loop multiplies the byte count returned by the skip functions by
  \<open>sizeof(u32)\<close> once more, as the source does.
\<close>

function calculate_complete_frames_bytes :: "ConnectionType \<Rightarrow> u8 list \<Rightarrow> nat" where
  "calculate_complete_frames_bytes bufferType view =
     (if view = [] then 0
      else let bytesToSkip = (if bufferType = USB then skip_one_frame_usb view * 4
                              else skip_one_frame_eth view * 4)
        in if bytesToSkip = 0 \<or> length view < bytesToSkip then 0
           else bytesToSkip + calculate_complete_frames_bytes bufferType (drop bytesToSkip view))"
  by pat_completeness auto
termination
  by (relation "measure (\<lambda>(t, view). length view)") auto

declare calculate_complete_frames_bytes.simps [simp del]

section \<open>Detecting the transport format\<close>

function detect_walk :: "u32 list \<Rightarrow> ConnectionType option" where
  "detect_walk view =
     (case view of [] \<Rightarrow> None
      | w # _ \<Rightarrow>
        if is_system_event w
        then let len = unat (fi_len (extract_frame_info w)) in
          if length view < len + 1 then None else detect_walk (drop (len + 1) view)
        else if is_eth_header0 w then Some ETH
        else if is_known_frame_header w then Some USB
        else None)"
  by pat_completeness auto
termination
  by (relation "measure length") auto

declare detect_walk.simps [simp del]

definition detect_buffer_type :: "u32 list \<Rightarrow> ConnectionType option" where
  "detect_buffer_type buffer =
     (case buffer of [] \<Rightarrow> None
      | w # _ \<Rightarrow>
        if is_eth_header0 w then Some ETH
        else if is_known_frame_header w \<and> \<not> is_system_event w then Some USB
        else detect_walk buffer)"

section \<open>The specification: where the complete frames end\<close>

text \<open>
  \<open>frames_end skip v\<close> is the number of bytes of the maximal prefix of \<open>v\<close> that
  consists of complete frames, which is what the comments in \<open>mvlc_util.h\<close>
  promise.
\<close>

function frames_end :: "(u8 list \<Rightarrow> nat) \<Rightarrow> u8 list \<Rightarrow> nat" where
  "frames_end skip v =
     (if v = [] \<or> skip v = 0 \<or> length v < skip v then 0
      else skip v + frames_end skip (drop (skip v) v))"
  by pat_completeness auto
termination
  by (relation "measure (\<lambda>(skip, v). length v)") auto

declare frames_end.simps [simp del]

lemma frames_end_stop: "v = [] \<or> skip v = 0 \<or> length v < skip v \<Longrightarrow> frames_end skip v = 0"
  by (subst frames_end.simps) simp

lemma frames_end_step:
  "skip v \<noteq> 0 \<Longrightarrow> skip v \<le> length v \<Longrightarrow>
   frames_end skip v = skip v + frames_end skip (drop (skip v) v)"
  by (subst frames_end.simps) auto

lemma frames_end_cases [case_names stop step]:
  assumes "v = [] \<or> skip v = 0 \<or> length v < skip v \<Longrightarrow> P"
    and "skip v \<noteq> 0 \<Longrightarrow> skip v \<le> length v \<Longrightarrow> v \<noteq> [] \<Longrightarrow> P"
  shows P
  using assms by (metis not_le)

lemma frames_end_le: "frames_end skip v \<le> length v"
proof (induction skip v rule: frames_end.induct)
  case (1 skip v)
  show ?case
  proof (cases rule: frames_end_cases [of v skip])
    case stop
    then show ?thesis by (simp add: frames_end_stop)
  next
    case step
    then show ?thesis
      using 1 by (simp add: frames_end_step)
  qed
qed

section \<open>The replay loop\<close>

text \<open>
  One round of the replay worker in running state: the bytes left over from
  the previous round are put in front of the newly read chunk, incomplete data
  at the end is moved back to \<open>previousData\<close> and the complete frames are
  handed out. A read of zero bytes ends the loop. An output buffer without
  data is not flushed.
\<close>

definition replay_step ::
  "ConnectionType \<Rightarrow> u8 list \<Rightarrow> u8 list \<Rightarrow> (u8 list \<times> u8 list) option" where
  "replay_step format previousData chunk =
     (let destBuffer = previousData @ chunk in
      case fixup_buffer_mvlc format destBuffer [] of
        None \<Rightarrow> None
      | Some (bytesMoved, previousData') \<Rightarrow>
          Some (take (length destBuffer - bytesMoved) destBuffer, previousData'))"

fun replay_run ::
  "ConnectionType \<Rightarrow> u8 list \<Rightarrow> u8 list list \<Rightarrow> (u8 list list \<times> u8 list) option" where
  "replay_run format previousData [] = Some ([], previousData)"
| "replay_run format previousData (chunk # chunks) =
     (if chunk = [] then Some ([], previousData)
      else case replay_step format previousData chunk of
        None \<Rightarrow> None
      | Some (out, previousData') \<Rightarrow>
          (case replay_run format previousData' chunks of
             None \<Rightarrow> None
           | Some (outs, rest) \<Rightarrow> Some (if out = [] then outs else out # outs, rest)))"

section \<open>The contract of a skip function\<close>

text \<open>
  What \<open>fixup_buffer\<close> and its callers need of the skip function they are given:
  it answers 0 without a complete header word, its answers are whole words, and
  an answer does not change when more data arrives.
\<close>

locale frame_skipper =
  fixes skip :: "u8 list \<Rightarrow> nat"
  assumes skip_short: "length v < 4 \<Longrightarrow> skip v = 0"
    and skip_words: "4 dvd skip v"
    and skip_extend: "skip v \<noteq> 0 \<Longrightarrow> skip (v @ w) = skip v"
    and skip_frame: "skip v \<noteq> 0 \<Longrightarrow> skip v \<le> length v \<Longrightarrow> skip (take (skip v) v) = skip v"
begin

lemma frames_end_words: "4 dvd frames_end skip v"
proof (induction "length v" arbitrary: v rule: less_induct)
  case less
  show ?case
  proof (cases rule: frames_end_cases [of v skip])
    case stop
    then show ?thesis by (simp add: frames_end_stop)
  next
    case step
    then show ?thesis
      using less [of "drop (skip v) v"] skip_words [of v] by (simp add: frames_end_step)
  qed
qed

lemma fixup_buffer_eq:
  assumes "length v - frames_end skip v = 0 \<or> 4 \<le> length v - frames_end skip v"
  shows "fixup_buffer skip v tmp =
           Some (length v - frames_end skip v, tmp @ drop (frames_end skip v) v)"
  using assms
proof (induction "length v" arbitrary: v rule: less_induct)
  case less
  show ?case
  proof (cases rule: frames_end_cases [of v skip])
    case stop
    with less.prems show ?thesis
      by (subst fixup_buffer.simps) (auto simp: frames_end_stop)
  next
    case step
    with skip_short [of v] have "4 \<le> length v"
      by (metis not_le)
    moreover from step have "length (drop (skip v) v) < length v" by simp
    ultimately show ?thesis
      using step less.prems less.hyps [of "drop (skip v) v"]
      by (subst fixup_buffer.simps) (simp add: frames_end_step add.commute Let_def)
  qed
qed

lemma fixup_buffer_SomeD:
  assumes "fixup_buffer skip v tmp = Some r"
  shows "length v - frames_end skip v = 0 \<or> 4 \<le> length v - frames_end skip v"
proof (rule fixup_buffer.raw_induct
    [where P = "\<lambda>sk v tmp r. sk = skip \<longrightarrow>
       length v - frames_end skip v = 0 \<or> 4 \<le> length v - frames_end skip v",
     OF _ assms, THEN mp, OF _ refl])
  fix f sk v tmp r
  assume IH: "\<And>sk v tmp r. f sk v tmp = Some r \<Longrightarrow> sk = skip \<longrightarrow>
       length v - frames_end skip v = 0 \<or> 4 \<le> length v - frames_end skip v"
    and eq: "(if v = [] then Some (0, tmp)
      else if 4 \<le> length v
      then let bytesToSkip = sk v in
        if bytesToSkip = 0 \<or> length v < bytesToSkip
        then Some (length v, tmp @ v)
        else f sk (drop bytesToSkip v) tmp
      else f sk v tmp) = Some r"
  show "sk = skip \<longrightarrow> length v - frames_end skip v = 0 \<or> 4 \<le> length v - frames_end skip v"
  proof
    assume [simp]: "sk = skip"
    show "length v - frames_end skip v = 0 \<or> 4 \<le> length v - frames_end skip v"
    proof (cases rule: frames_end_cases [of v skip])
      case stop
      show ?thesis
      proof (cases "v = [] \<or> 4 \<le> length v")
        case True
        with stop show ?thesis by (auto simp: frames_end_stop)
      next
        case False
        with eq have "f skip v tmp = Some r" by (simp split: if_splits)
        from IH [OF this] show ?thesis by simp
      qed
    next
      case step
      with skip_short [of v] have "4 \<le> length v" by (metis not_le)
      with step eq have "f skip (drop (skip v) v) tmp = Some r" by (simp split: if_splits)
      from IH [OF this] step show ?thesis by (simp add: frames_end_step)
    qed
  qed
qed

lemma fixup_buffer_None_iff:
  "fixup_buffer skip v tmp = None \<longleftrightarrow> length v - frames_end skip v \<in> {1, 2, 3}"
proof
  assume "fixup_buffer skip v tmp = None"
  with fixup_buffer_eq [of v tmp] show "length v - frames_end skip v \<in> {1, 2, 3}" by fastforce
next
  assume "length v - frames_end skip v \<in> {1, 2, 3}"
  with fixup_buffer_SomeD [of v tmp] show "fixup_buffer skip v tmp = None"
    by (cases "fixup_buffer skip v tmp") auto
qed

lemma frames_end_append:
  "frames_end skip (v @ w) =
     frames_end skip v + frames_end skip (drop (frames_end skip v) v @ w)"
proof (induction "length v" arbitrary: v rule: less_induct)
  case less
  show ?case
  proof (cases rule: frames_end_cases [of v skip])
    case stop
    then show ?thesis by (simp add: frames_end_stop)
  next
    case step
    then show ?thesis
      using less [of "drop (skip v) v"] skip_extend [of v w]
      by (simp add: frames_end_step add.assoc add.commute [of "frames_end skip (drop (skip v) v)"])
  qed
qed

lemma skip_take:
  assumes "skip v \<noteq> 0" "skip v \<le> n" "n \<le> length v"
  shows "skip (take n v) = skip v"
proof -
  have "take n v = take (skip v) v @ drop (skip v) (take n v)"
    using assms by (metis append_take_drop_id min.absorb2 min.commute take_take)
  with assms skip_frame [of v] skip_extend [of "take (skip v) v" "drop (skip v) (take n v)"]
  show ?thesis by simp
qed

lemma frames_end_prefix:
  "frames_end skip (take (frames_end skip v) v) = frames_end skip v"
proof (induction "length v" arbitrary: v rule: less_induct)
  case less
  show ?case
  proof (cases rule: frames_end_cases [of v skip])
    case stop
    then show ?thesis by (simp add: frames_end_stop)
  next
    case step
    let ?n = "frames_end skip v" and ?r = "drop (skip v) v"
    have n: "?n = skip v + frames_end skip ?r" using step by (simp add: frames_end_step)
    have "?n \<le> length v" by (rule frames_end_le)
    with step n have s: "skip (take ?n v) = skip v" by (intro skip_take) auto
    have d: "drop (skip v) (take ?n v) = take (frames_end skip ?r) ?r"
      by (simp add: n drop_take)
    from step s d n \<open>?n \<le> length v\<close> less [of ?r] show ?thesis
      by (subst frames_end_step) auto
  qed
qed

text \<open>
  Cutting a stream into word-aligned chunks and running \<open>fixup_buffer\<close> on each,
  with the left-over bytes put in front of the next chunk.
\<close>

lemma fixup_words:
  assumes "4 dvd length v"
  shows "fixup_buffer skip v tmp =
           Some (length v - frames_end skip v, tmp @ drop (frames_end skip v) v)"
proof (rule fixup_buffer_eq)
  have "4 dvd length v - frames_end skip v"
    using assms frames_end_words [of v] frames_end_le [of skip v] by (simp add: dvd_diff_nat)
  then show "length v - frames_end skip v = 0 \<or> 4 \<le> length v - frames_end skip v"
    by (auto elim: dvdE)
qed

end

section \<open>Both transport formats satisfy the contract\<close>

lemma read_u32_append: "4 \<le> length v \<Longrightarrow> read_u32 (v @ w) = read_u32 v"
  by (cases v rule: read_u32.cases) auto

lemma read_u32_take: 
  assumes "4 \<le> n" shows "read_u32 (take n v) = read_u32 v"
proof -
  from assms obtain m where "n = Suc (Suc (Suc (Suc m)))"
    by (metis Suc_le_D numeral_eq_Suc pred_numeral_simps Suc_le_mono BitM.simps eval_nat_numeral(3))
  then show ?thesis by (cases v rule: read_u32.cases) simp_all
qed


interpretation usb_frames: frame_skipper skip_one_frame_usb
  by unfold_locales
    (auto simp: skip_one_frame_usb_def read_u32_append read_u32_take split: if_splits)

interpretation eth_frames: frame_skipper skip_one_frame_eth
  by unfold_locales
    (auto simp: skip_one_frame_eth_def read_u32_append read_u32_take Let_def drop_take
      split: if_splits)

definition skip_one_frame :: "ConnectionType \<Rightarrow> u8 list \<Rightarrow> nat" where
  "skip_one_frame format = (if format = ETH then skip_one_frame_eth else skip_one_frame_usb)"

interpretation frames: frame_skipper "skip_one_frame format" for format
  by (cases format)
    (simp_all add: skip_one_frame_def eth_frames.frame_skipper_axioms usb_frames.frame_skipper_axioms)

lemma fixup_buffer_mvlc_eq:
  "fixup_buffer_mvlc format v tmp = fixup_buffer (skip_one_frame format) v tmp"
  by (simp add: fixup_buffer_mvlc_def fixup_buffer_mvlc_eth_def fixup_buffer_mvlc_usb_def
      skip_one_frame_def)

lemma frames_end_rest:
  "frames_end (skip_one_frame format) (drop (frames_end (skip_one_frame format) v) v) = 0"
  using frames.frames_end_append [of format v "[]"] by simp

lemma replay_step_words:
  fixes format
  assumes "4 dvd length (prev @ chunk)"
  defines "n \<equiv> frames_end (skip_one_frame format) (prev @ chunk)"
  shows "replay_step format prev chunk = Some (take n (prev @ chunk), drop n (prev @ chunk))"
proof -
  have "n \<le> length (prev @ chunk)" unfolding n_def by (rule frames_end_le)
  with assms(1) show ?thesis
    by (simp only: replay_step_def fixup_buffer_mvlc_eq frames.fixup_words n_def Let_def
        option.case prod.case append_Nil diff_diff_cancel)
qed

lemma replay_run_words:
  assumes "4 dvd length prev" "\<forall>c\<in>set chunks. c \<noteq> [] \<and> 4 dvd length c"
    and "frames_end (skip_one_frame format) prev = 0"
  shows "\<exists>outs. replay_run format prev chunks =
           Some (outs, drop (frames_end (skip_one_frame format) (prev @ concat chunks))
                         (prev @ concat chunks)) \<and>
         concat outs = take (frames_end (skip_one_frame format) (prev @ concat chunks))
                         (prev @ concat chunks) \<and>
         (\<forall>out\<in>set outs. out \<noteq> [] \<and> frames_end (skip_one_frame format) out = length out)"
  using assms
proof (induction chunks arbitrary: prev)
  case Nil
  then show ?case by simp
next
  case (Cons c cs)
  let ?fe = "frames_end (skip_one_frame format)"
  define v where "v = prev @ c"
  define out where "out = take (?fe v) v"
  define rest where "rest = drop (?fe v) v"
  have dv: "4 dvd length v" using Cons.prems by (simp add: v_def)
  have nl: "?fe v \<le> length v" by (rule frames_end_le)
  then have len: "length out = ?fe v" by (simp add: out_def)
  have "4 dvd length rest"
    using dv frames.frames_end_words [of format v] by (simp add: rest_def dvd_diff_nat)
  with Cons.prems Cons.IH [of rest] frames_end_rest [of format v] obtain outs where
    run: "replay_run format rest cs =
       Some (outs, drop (?fe (rest @ concat cs)) (rest @ concat cs))"
    and outs: "concat outs = take (?fe (rest @ concat cs)) (rest @ concat cs)"
       "\<forall>out\<in>set outs. out \<noteq> [] \<and> ?fe out = length out"
    by (auto simp: rest_def)
  have whole: "prev @ c @ concat cs = out @ (rest @ concat cs)"
    by (simp add: out_def rest_def flip: v_def append_assoc)
  have app: "?fe (out @ rest @ concat cs) = length out + ?fe (rest @ concat cs)"
    using frames.frames_end_append [of format v "concat cs"] whole len
    by (simp add: v_def rest_def)
  have out: "?fe out = length out"
    using frames.frames_end_prefix [of format v] len by (simp add: out_def)
  have step: "replay_step format prev c = Some (out, rest)"
    unfolding out_def rest_def using replay_step_words [of prev c format] dv
    by (simp add: v_def)
  let ?outs = "if out = [] then outs else out # outs"
  have "replay_run format prev (c # cs) =
      Some (?outs, drop (?fe (out @ rest @ concat cs)) (out @ rest @ concat cs))"
    unfolding app using Cons.prems run step by simp
  moreover have "concat ?outs = take (?fe (out @ rest @ concat cs)) (out @ rest @ concat cs)"
    unfolding app using outs(1) by simp
  moreover have "\<forall>out\<in>set ?outs. out \<noteq> [] \<and> ?fe out = length out"
    using outs(2) out by auto
  ultimately show ?case unfolding concat.simps whole by blast
qed

section \<open>Properties\<close>

text \<open>
  C20. \<open>fixup_buffer\<close> for both transport formats: with \<open>n\<close> the end of the last
  complete frame, the bytes from \<open>n\<close> on are appended to the temporary buffer
  and their number is returned; the call does not return exactly when one, two
  or three bytes are left behind the last complete frame.
\<close>

theorem fixup_buffer_mvlc_correct:
  "fixup_buffer_mvlc format v tmp =
     (let n = frames_end (skip_one_frame format) v; r = length v - n
      in if r \<in> {1, 2, 3} then None else Some (r, tmp @ drop n v))"
  using frames.fixup_buffer_None_iff [of format v tmp] frames.fixup_buffer_eq [of v format tmp]
    frames.fixup_buffer_SomeD [of format v tmp]
  by (cases "fixup_buffer (skip_one_frame format) v tmp")
    (auto simp: fixup_buffer_mvlc_eq Let_def)



definition is_system_frame :: "u32 list \<Rightarrow> bool" where
  "is_system_frame f \<longleftrightarrow>
     f \<noteq> [] \<and> is_system_event (hd f) \<and> length f = unat (fi_len (extract_frame_info (hd f))) + 1"

lemma detect_walk_frames:
  "\<forall>f\<in>set fs. is_system_frame f \<Longrightarrow> detect_walk (concat fs @ rest) = detect_walk rest"
proof (induction fs)
  case Nil
  then show ?case by simp
next
  case (Cons f fs)
  then obtain h b where "f = h # b" by (cases f) (auto simp: is_system_frame_def)
  with Cons show ?case by (subst detect_walk.simps) (simp add: is_system_frame_def)
qed

lemma system_event_known: "is_system_event w \<Longrightarrow> is_known_frame_header w"
  by (simp add: is_system_event_def is_known_frame_header_def)

text \<open>
  C25. The format of a listfile buffer is decided by the first word that does not
  belong to a leading system event frame, whatever system events precede it: a
  UDP header0 gives \<open>ETH\<close>, any other known frame header \<open>USB\<close>. The two cases
  exclude each other.
\<close>

theorem detect_buffer_type_correct:
  assumes "\<forall>f\<in>set fs. is_system_frame f" and "\<not> is_system_event w"
  shows "detect_buffer_type (concat fs @ w # rest) =
           (if is_eth_header0 w then Some ETH
            else if is_known_frame_header w then Some USB else None) \<and>
         \<not> (is_eth_header0 w \<and> is_known_frame_header w)"
proof -
  have walk: "detect_walk (concat fs @ w # rest) =
      (if is_eth_header0 w then Some ETH else if is_known_frame_header w then Some USB else None)"
    using assms by (subst detect_walk_frames) (simp_all add: detect_walk.simps)
  have "detect_buffer_type (concat fs @ w # rest) = detect_walk (concat fs @ w # rest)"
  proof (cases fs)
    case Nil
    with walk assms(2) show ?thesis by (simp add: detect_buffer_type_def)
  next
    case (Cons f gs)
    with assms(1) obtain h b where "f = h # b" "is_system_event h"
      by (cases f) (auto simp: is_system_frame_def)
    with Cons frame_type_not_eth [of h] system_event_known [of h] show ?thesis
      by (simp add: detect_buffer_type_def)
  qed
  with walk frame_type_not_eth [of w] show ?thesis by auto
qed

theorem detect_buffer_type_correct_witness:
  "is_system_frame [0xFA002001, 0x12345678] \<and> \<not> is_system_event 0x20010005 \<and>
   detect_buffer_type [0xFA002001, 0x12345678, 0x20010005, 0] = Some ETH"
  using detect_buffer_type_correct [of "[[0xFA002001, 0x12345678]]" "0x20010005" "[0]"]
  by (simp add: is_system_frame_def is_system_event_def get_frame_type_def is_eth_header0_def
      fi_len_eq)

text \<open>
  \<open>calculate_complete_frames_bytes\<close> does not meet its contract: the skip
  functions already return bytes and the loop multiplies by \<open>sizeof(u32)\<close>
  again, so a buffer that consists of one complete frame yields 0 instead of its
  length.
\<close>

theorem calculate_complete_frames_bytes_wrong:
  assumes "v \<noteq> []" and "skip_one_frame USB v = length v"
  shows "calculate_complete_frames_bytes USB v = 0 \<and>
         frames_end (skip_one_frame USB) v = length v"
proof -
  have "length v < skip_one_frame_usb v * 4" using assms by (simp add: skip_one_frame_def)
  then have "calculate_complete_frames_bytes USB v = 0"
    by (subst calculate_complete_frames_bytes.simps) simp
  moreover have "frames_end (skip_one_frame USB) v = length v"
    using assms by (simp add: frames_end_step frames_end_stop)
  ultimately show ?thesis by simp
qed

theorem calculate_complete_frames_bytes_wrong_witness:
  "calculate_complete_frames_bytes USB (bytes_of_words [0xF3010001, 42]) = 0 \<and>
   frames_end (skip_one_frame USB) (bytes_of_words [0xF3010001, 42]) = 8"
  using calculate_complete_frames_bytes_wrong [of "bytes_of_words [0xF3010001, 42]"]
  by (simp add: bytes_of_words_def bytes_of_u32_def skip_one_frame_def skip_one_frame_usb_def
      fi_len_eq)

end
