(* ===== verification/Mvlc_Commands.thy ===== *)
theory Mvlc_Commands
  imports Mvlc_Prelude
begin

text \<open>
  The commands of \<open>mvlc_command_builders.h/.cc\<close> and the two builders that
  collect them: super commands, which the MVLC executes directly, and stack
  commands, which are uploaded into its stack memory and are organised in
  groups, one per VME module. Enumerations that the code only compares are
  datatypes with a function giving the C++ value; the enumerations the code
  casts from unchecked integers (\<open>VMEDataWidth\<close>, \<open>Blk2eSSTRate\<close>,
  \<open>AccuComparator\<close>) are kept as words of the width of their underlying type.
\<close>

section \<open>VME address modifiers (vme\_constants.h)\<close>

abbreviation (input) a32UserBlock :: u8 where "a32UserBlock \<equiv> 0x0B"
abbreviation (input) a32UserBlock64 :: u8 where "a32UserBlock64 \<equiv> 0x08"
abbreviation (input) a32PrivBlock :: u8 where "a32PrivBlock \<equiv> 0x0F"
abbreviation (input) a32PrivBlock64 :: u8 where "a32PrivBlock64 \<equiv> 0x0C"
abbreviation (input) a24UserBlock :: u8 where "a24UserBlock \<equiv> 0x3B"
abbreviation (input) a24PrivBlock :: u8 where "a24PrivBlock \<equiv> 0x3F"
abbreviation (input) Blk2eSST64 :: u8 where "Blk2eSST64 \<equiv> 0x20"
abbreviation (input) VmeAmodMask :: u8 where "VmeAmodMask \<equiv> 0x3F"

definition is_block_mode :: "u8 \<Rightarrow> bool" where
  "is_block_mode amod \<longleftrightarrow> amod AND VmeAmodMask \<in>
     {a32UserBlock, a32UserBlock64, a32PrivBlock, a32PrivBlock64, a24UserBlock, a24PrivBlock,
      Blk2eSST64}"

definition is_blt_mode :: "u8 \<Rightarrow> bool" where
  "is_blt_mode amod \<longleftrightarrow>
     amod AND VmeAmodMask \<in> {a32UserBlock, a32PrivBlock, a24UserBlock, a24PrivBlock}"

definition is_mblt_mode :: "u8 \<Rightarrow> bool" where
  "is_mblt_mode amod \<longleftrightarrow> amod AND VmeAmodMask \<in> {a32UserBlock64, a32PrivBlock64}"

definition is_esst64_mode :: "u8 \<Rightarrow> bool" where
  "is_esst64_mode amod \<longleftrightarrow> amod AND VmeAmodMask = Blk2eSST64"

definition is_2esst_mode :: "u8 \<Rightarrow> bool" where
  "is_2esst_mode amod \<longleftrightarrow> is_esst64_mode amod"

section \<open>Super commands\<close>

datatype SuperCommandType =
    CmdBufferStart | CmdBufferEnd | ReferenceWord | ReadLocal | ReadLocalBlock | WriteLocal
  | WriteReset | EthDelay

fun SuperCommandType_code :: "SuperCommandType \<Rightarrow> u16" where
  "SuperCommandType_code CmdBufferStart = 0xF100"
| "SuperCommandType_code CmdBufferEnd = 0xF200"
| "SuperCommandType_code ReferenceWord = 0x0101"
| "SuperCommandType_code ReadLocal = 0x0102"
| "SuperCommandType_code ReadLocalBlock = 0x0103"
| "SuperCommandType_code WriteLocal = 0x0204"
| "SuperCommandType_code WriteReset = 0x0206"
| "SuperCommandType_code EthDelay = 0x0207"

definition SuperCommandTypes :: "SuperCommandType list" where
  "SuperCommandTypes =
     [CmdBufferStart, CmdBufferEnd, ReferenceWord, ReadLocal, ReadLocalBlock, WriteLocal,
      WriteReset, EthDelay]"

text \<open>\<open>static_cast<SuperCommandType>\<close>; \<open>None\<close> for a value that is no enumerator.\<close>

definition SuperCommandType_cast :: "u16 \<Rightarrow> SuperCommandType option" where
  "SuperCommandType_cast v = find (\<lambda>t. SuperCommandType_code t = v) SuperCommandTypes"

record SuperCommand =
  su_type :: SuperCommandType
  su_address :: u16
  su_value :: u32

definition is_super_command :: "u32 \<Rightarrow> bool" where
  "is_super_command dataWord \<longleftrightarrow>
     (let v = ucast (drop_bit 16 dataWord AND 0xFFFF) :: u16
      in v = SuperCommandType_code CmdBufferStart
       \<or> v = SuperCommandType_code CmdBufferEnd
       \<or> v = SuperCommandType_code ReferenceWord
       \<or> v = SuperCommandType_code ReadLocal
       \<or> v = SuperCommandType_code ReadLocalBlock
       \<or> v = SuperCommandType_code WriteLocal
       \<or> v = SuperCommandType_code WriteReset)"

definition get_super_command_type :: "u32 \<Rightarrow> SuperCommandType option" where
  "get_super_command_type dataWord =
     (if \<not> is_super_command dataWord then None
      else SuperCommandType_cast (ucast (drop_bit 16 dataWord AND 0xFFFF)))"

definition get_super_command_arg :: "u32 \<Rightarrow> u16 option" where
  "get_super_command_arg dataWord =
     (if \<not> is_super_command dataWord then None else Some (ucast (dataWord AND 0xFFFF)))"

section \<open>Stack commands\<close>

datatype CommandType =
    Invalid | StackStart | StackEnd | VMEWrite | VMERead | VMEReadSwapped | VMEReadMem
  | VMEReadMemSwapped | WriteMarker | WriteSpecial | Wait | SignalAccu | MaskShiftAccu | SetAccu
  | ReadToAccu | CompareLoopAccu | SoftwareDelay | Custom

fun CommandType_code :: "CommandType \<Rightarrow> u8" where
  "CommandType_code Invalid = 0"
| "CommandType_code StackStart = 0xF3"
| "CommandType_code StackEnd = 0xF4"
| "CommandType_code VMEWrite = 0x23"
| "CommandType_code VMERead = 0x12"
| "CommandType_code VMEReadSwapped = 0x13"
| "CommandType_code VMEReadMem = 0x32"
| "CommandType_code VMEReadMemSwapped = 0x33"
| "CommandType_code WriteMarker = 0xC2"
| "CommandType_code WriteSpecial = 0xC1"
| "CommandType_code Wait = 0xC4"
| "CommandType_code SignalAccu = 0xC6"
| "CommandType_code MaskShiftAccu = 0xC5"
| "CommandType_code SetAccu = 0xC8"
| "CommandType_code ReadToAccu = 0x14"
| "CommandType_code CompareLoopAccu = 0xC7"
| "CommandType_code SoftwareDelay = 0xED"
| "CommandType_code Custom = 0xEE"

definition CommandTypes :: "CommandType list" where
  "CommandTypes =
     [Invalid, StackStart, StackEnd, VMEWrite, VMERead, VMEReadSwapped, VMEReadMem,
      VMEReadMemSwapped, WriteMarker, WriteSpecial, Wait, SignalAccu, MaskShiftAccu, SetAccu,
      ReadToAccu, CompareLoopAccu, SoftwareDelay, Custom]"

text \<open>\<open>static_cast<CommandType>\<close>; \<open>None\<close> for a value that is no enumerator.\<close>

definition CommandType_cast :: "u8 \<Rightarrow> CommandType option" where
  "CommandType_cast v = find (\<lambda>t. CommandType_code t = v) CommandTypes"

abbreviation (input) D16 :: u32 where "D16 \<equiv> 1"
abbreviation (input) D32 :: u32 where "D32 \<equiv> 2"

abbreviation (input) Accu_EQ :: u8 where "Accu_EQ \<equiv> 0"
abbreviation (input) Accu_LT :: u8 where "Accu_LT \<equiv> 1"
abbreviation (input) Accu_GT :: u8 where "Accu_GT \<equiv> 2"

record StackCommand =
  sc_type :: CommandType
  sc_address :: u32
  sc_value :: u32
  sc_amod :: u8
  sc_dataWidth :: u32
  sc_transfers :: u16
  sc_rate :: u8
  sc_customValues :: "u32 list"
  sc_lateRead :: bool
  sc_comment :: string

text \<open>\<open>StackCommand cmd = {}\<close>: the member initializers, zero for the rest.\<close>

definition StackCommand_init :: StackCommand where
  "StackCommand_init =
     \<lparr>sc_type = Invalid, sc_address = 0, sc_value = 0, sc_amod = 0, sc_dataWidth = D16,
      sc_transfers = 0, sc_rate = 0, sc_customValues = [], sc_lateRead = False, sc_comment = []\<rparr>"

text \<open>\<open>operator==\<close> compares everything but the comment.\<close>

definition StackCommand_eq :: "StackCommand \<Rightarrow> StackCommand \<Rightarrow> bool" where
  "StackCommand_eq c d \<longleftrightarrow>
     sc_type c = sc_type d \<and> sc_address c = sc_address d \<and> sc_value c = sc_value d
     \<and> sc_amod c = sc_amod d \<and> sc_dataWidth c = sc_dataWidth d
     \<and> sc_transfers c = sc_transfers d \<and> sc_rate c = sc_rate d
     \<and> sc_customValues c = sc_customValues d \<and> sc_lateRead c = sc_lateRead d"

definition is_stack_command :: "u32 \<Rightarrow> bool" where
  "is_stack_command dataWord \<longleftrightarrow>
     (let v = ucast (drop_bit 24 dataWord AND 0xFF) :: u8
      in v = CommandType_code StackStart
       \<or> v = CommandType_code StackEnd
       \<or> v = CommandType_code VMEWrite
       \<or> v = CommandType_code VMERead
       \<or> v = CommandType_code VMEReadSwapped
       \<or> v = CommandType_code VMEReadMem
       \<or> v = CommandType_code VMEReadMemSwapped
       \<or> v = CommandType_code WriteMarker
       \<or> v = CommandType_code WriteSpecial
       \<or> v = CommandType_code Wait
       \<or> v = CommandType_code SignalAccu
       \<or> v = CommandType_code MaskShiftAccu
       \<or> v = CommandType_code SetAccu
       \<or> v = CommandType_code ReadToAccu
       \<or> v = CommandType_code CompareLoopAccu)"

definition get_stack_command_type :: "u32 \<Rightarrow> CommandType option" where
  "get_stack_command_type dataWord =
     (if \<not> is_stack_command dataWord then None
      else CommandType_cast (ucast (drop_bit 24 dataWord AND 0xFF)))"

definition get_stack_command_arg0 :: "u32 \<Rightarrow> u8 option" where
  "get_stack_command_arg0 dataWord =
     (if \<not> is_stack_command dataWord then None
      else Some (ucast (drop_bit 16 dataWord AND 0xFF)))"

definition get_stack_command_arg1 :: "u32 \<Rightarrow> u16 option" where
  "get_stack_command_arg1 dataWord =
     (if \<not> is_stack_command dataWord then None else Some (ucast (dataWord AND 0xFFFF)))"

definition is_read_command :: "StackCommand \<Rightarrow> bool" where
  "is_read_command cmd \<longleftrightarrow>
     sc_type cmd \<in> {VMERead, VMEReadSwapped, VMEReadMem, VMEReadMemSwapped}"

definition produces_output :: "StackCommand \<Rightarrow> bool" where
  "produces_output cmd \<longleftrightarrow>
     is_read_command cmd
     \<or> (case sc_type cmd of
          WriteMarker \<Rightarrow> True
        | WriteSpecial \<Rightarrow> True
        | Custom \<Rightarrow> 0 < sc_transfers cmd
        | _ \<Rightarrow> False)"

section \<open>The super command builder\<close>

record SuperCommandBuilder =
  su_commands :: "SuperCommand list"

definition SuperCommandBuilder_init :: SuperCommandBuilder where
  "SuperCommandBuilder_init = \<lparr>su_commands = []\<rparr>"

definition super_addCommand :: "SuperCommandBuilder \<Rightarrow> SuperCommand \<Rightarrow> SuperCommandBuilder" where
  "super_addCommand b cmd = b\<lparr>su_commands := su_commands b @ [cmd]\<rparr>"

definition super_addCommands ::
  "SuperCommandBuilder \<Rightarrow> SuperCommand list \<Rightarrow> SuperCommandBuilder" where
  "super_addCommands b cmds = b\<lparr>su_commands := su_commands b @ cmds\<rparr>"

definition addReferenceWord :: "SuperCommandBuilder \<Rightarrow> u16 \<Rightarrow> SuperCommandBuilder" where
  "addReferenceWord b refValue =
     super_addCommand b \<lparr>su_type = ReferenceWord, su_address = 0, su_value = ucast refValue\<rparr>"

definition addReadLocal :: "SuperCommandBuilder \<Rightarrow> u16 \<Rightarrow> SuperCommandBuilder" where
  "addReadLocal b address =
     super_addCommand b \<lparr>su_type = ReadLocal, su_address = address, su_value = 0\<rparr>"

definition addReadLocalBlock :: "SuperCommandBuilder \<Rightarrow> u16 \<Rightarrow> u16 \<Rightarrow> SuperCommandBuilder" where
  "addReadLocalBlock b address words =
     super_addCommand b
       \<lparr>su_type = ReadLocalBlock, su_address = address, su_value = ucast words\<rparr>"

definition addWriteLocal :: "SuperCommandBuilder \<Rightarrow> u16 \<Rightarrow> u32 \<Rightarrow> SuperCommandBuilder" where
  "addWriteLocal b address v =
     super_addCommand b \<lparr>su_type = WriteLocal, su_address = address, su_value = v\<rparr>"

definition addWriteReset :: "SuperCommandBuilder \<Rightarrow> SuperCommandBuilder" where
  "addWriteReset b = super_addCommand b \<lparr>su_type = WriteReset, su_address = 0, su_value = 0\<rparr>"

definition super_getCommands :: "SuperCommandBuilder \<Rightarrow> SuperCommand list" where
  "super_getCommands b = su_commands b"

definition super_empty :: "SuperCommandBuilder \<Rightarrow> bool" where
  "super_empty b \<longleftrightarrow> su_commands b = []"

definition super_clear :: "SuperCommandBuilder \<Rightarrow> SuperCommandBuilder" where
  "super_clear b = b\<lparr>su_commands := []\<rparr>"

section \<open>The stack command builder\<close>

record Group =
  g_name :: string
  g_commands :: "StackCommand list"
  g_meta :: "string \<rightharpoonup> string"

definition Group_init :: Group where
  "Group_init = \<lparr>g_name = [], g_commands = [], g_meta = Map.empty\<rparr>"

text \<open>\<open>Group::operator==\<close> ignores the meta information.\<close>

definition Group_eq :: "Group \<Rightarrow> Group \<Rightarrow> bool" where
  "Group_eq g h \<longleftrightarrow>
     g_name g = g_name h \<and> list_all2 StackCommand_eq (g_commands g) (g_commands h)"

record StackCommandBuilder =
  m_name :: string
  m_groups :: "Group list"
  m_yamlMeta :: "string \<rightharpoonup> string"
  m_suppressPipeOutput :: bool

definition StackCommandBuilder_init :: StackCommandBuilder where
  "StackCommandBuilder_init =
     \<lparr>m_name = [], m_groups = [], m_yamlMeta = Map.empty, m_suppressPipeOutput = False\<rparr>"

definition StackCommandBuilder_eq :: "StackCommandBuilder \<Rightarrow> StackCommandBuilder \<Rightarrow> bool" where
  "StackCommandBuilder_eq a b \<longleftrightarrow>
     m_name a = m_name b \<and> m_suppressPipeOutput a = m_suppressPipeOutput b
     \<and> list_all2 Group_eq (m_groups a) (m_groups b)"

definition beginGroup ::
  "StackCommandBuilder \<Rightarrow> string \<Rightarrow> (string \<rightharpoonup> string) \<Rightarrow> StackCommandBuilder" where
  "beginGroup b name meta =
     b\<lparr>m_groups := m_groups b @ [\<lparr>g_name = name, g_commands = [], g_meta = meta\<rparr>]\<rparr>"

definition hasOpenGroup :: "StackCommandBuilder \<Rightarrow> bool" where
  "hasOpenGroup b \<longleftrightarrow> m_groups b \<noteq> []"

definition getGroupCount :: "StackCommandBuilder \<Rightarrow> nat" where
  "getGroupCount b = length (m_groups b)"

text \<open>\<open>m_groups.back().commands.push_back(cmd)\<close>.\<close>

definition push_back_command :: "StackCommandBuilder \<Rightarrow> StackCommand \<Rightarrow> StackCommandBuilder" where
  "push_back_command b cmd =
     (let g = last (m_groups b)
      in b\<lparr>m_groups := butlast (m_groups b) @ [g\<lparr>g_commands := g_commands g @ [cmd]\<rparr>]\<rparr>)"

definition addCommand :: "StackCommandBuilder \<Rightarrow> StackCommand \<Rightarrow> StackCommandBuilder" where
  "addCommand b cmd =
     push_back_command (if hasOpenGroup b then b else beginGroup b [] Map.empty) cmd"

definition StackCommandBuilder_from :: "string \<Rightarrow> StackCommand list \<Rightarrow> StackCommandBuilder" where
  "StackCommandBuilder_from name commands =
     foldl addCommand (StackCommandBuilder_init\<lparr>m_name := name\<rparr>) commands"

definition addGroup ::
  "StackCommandBuilder \<Rightarrow> string \<Rightarrow> StackCommand list \<Rightarrow> (string \<rightharpoonup> string) \<Rightarrow> StackCommandBuilder" where
  "addGroup b name commands meta = foldl addCommand (beginGroup b name meta) commands"

definition addGroup_group :: "StackCommandBuilder \<Rightarrow> Group \<Rightarrow> StackCommandBuilder" where
  "addGroup_group b grp = b\<lparr>m_groups := m_groups b @ [grp]\<rparr>"

definition addVMERead ::
  "StackCommandBuilder \<Rightarrow> u32 \<Rightarrow> u8 \<Rightarrow> u32 \<Rightarrow> bool \<Rightarrow> bool \<Rightarrow> StackCommandBuilder" where
  "addVMERead b address amod dataWidth lateRead fifo =
     addCommand b (StackCommand_init
       \<lparr>sc_type := (if fifo then VMERead else VMEReadMem), sc_address := address, sc_amod := amod,
        sc_dataWidth := dataWidth, sc_lateRead := lateRead\<rparr>)"

definition addVMEBlockRead ::
  "StackCommandBuilder \<Rightarrow> u32 \<Rightarrow> u8 \<Rightarrow> u16 \<Rightarrow> bool \<Rightarrow> StackCommandBuilder result" where
  "addVMEBlockRead b address amod maxTransfers fifo =
     (if \<not> (is_blt_mode amod \<or> is_mblt_mode amod) then Inl AssertionFailure
      else Inr (addCommand b (StackCommand_init
       \<lparr>sc_type := (if fifo then VMERead else VMEReadMem), sc_address := address, sc_amod := amod,
        sc_transfers := maxTransfers\<rparr>)))"

definition addVMEBlockRead_2eSST ::
  "StackCommandBuilder \<Rightarrow> u32 \<Rightarrow> u8 \<Rightarrow> u16 \<Rightarrow> bool \<Rightarrow> StackCommandBuilder" where
  "addVMEBlockRead_2eSST b address rate maxTransfers fifo =
     addCommand b (StackCommand_init
       \<lparr>sc_type := (if fifo then VMERead else VMEReadMem), sc_address := address,
        sc_amod := Blk2eSST64, sc_rate := rate, sc_transfers := maxTransfers\<rparr>)"

definition addVMEBlockReadSwapped ::
  "StackCommandBuilder \<Rightarrow> u32 \<Rightarrow> u8 \<Rightarrow> u16 \<Rightarrow> bool \<Rightarrow> StackCommandBuilder result" where
  "addVMEBlockReadSwapped b address amod maxTransfers fifo =
     (if \<not> is_mblt_mode amod then Inl AssertionFailure
      else Inr (addCommand b (StackCommand_init
       \<lparr>sc_type := (if fifo then VMEReadSwapped else VMEReadMemSwapped), sc_address := address,
        sc_amod := amod, sc_transfers := maxTransfers\<rparr>)))"

definition addVMEBlockReadSwapped_2eSST ::
  "StackCommandBuilder \<Rightarrow> u32 \<Rightarrow> u8 \<Rightarrow> u16 \<Rightarrow> bool \<Rightarrow> StackCommandBuilder" where
  "addVMEBlockReadSwapped_2eSST b address rate maxTransfers fifo =
     addCommand b (StackCommand_init
       \<lparr>sc_type := (if fifo then VMEReadSwapped else VMEReadMemSwapped), sc_address := address,
        sc_amod := Blk2eSST64, sc_rate := rate, sc_transfers := maxTransfers\<rparr>)"

definition addVMEWrite ::
  "StackCommandBuilder \<Rightarrow> u32 \<Rightarrow> u32 \<Rightarrow> u8 \<Rightarrow> u32 \<Rightarrow> StackCommandBuilder" where
  "addVMEWrite b address v amod dataWidth =
     addCommand b (StackCommand_init
       \<lparr>sc_type := VMEWrite, sc_address := address, sc_value := v, sc_amod := amod,
        sc_dataWidth := dataWidth\<rparr>)"

definition addWriteMarker :: "StackCommandBuilder \<Rightarrow> u32 \<Rightarrow> StackCommandBuilder" where
  "addWriteMarker b v =
     addCommand b (StackCommand_init\<lparr>sc_type := WriteMarker, sc_value := v\<rparr>)"

definition addWait :: "StackCommandBuilder \<Rightarrow> u32 \<Rightarrow> StackCommandBuilder" where
  "addWait b clocks = addCommand b (StackCommand_init\<lparr>sc_type := Wait, sc_value := clocks\<rparr>)"

definition addSignalAccu :: "StackCommandBuilder \<Rightarrow> StackCommandBuilder" where
  "addSignalAccu b = addCommand b (StackCommand_init\<lparr>sc_type := SignalAccu\<rparr>)"

definition addMaskShiftAccu :: "StackCommandBuilder \<Rightarrow> u32 \<Rightarrow> u8 \<Rightarrow> StackCommandBuilder" where
  "addMaskShiftAccu b msk shift =
     addCommand b (StackCommand_init
       \<lparr>sc_type := MaskShiftAccu, sc_value := ucast shift, sc_address := msk\<rparr>)"

definition addSetAccu :: "StackCommandBuilder \<Rightarrow> u32 \<Rightarrow> StackCommandBuilder" where
  "addSetAccu b v = addCommand b (StackCommand_init\<lparr>sc_type := SetAccu, sc_value := v\<rparr>)"

definition addReadToAccu ::
  "StackCommandBuilder \<Rightarrow> u32 \<Rightarrow> u8 \<Rightarrow> u32 \<Rightarrow> bool \<Rightarrow> StackCommandBuilder" where
  "addReadToAccu b address amod dataWidth lateRead =
     addCommand b (StackCommand_init
       \<lparr>sc_type := ReadToAccu, sc_address := address, sc_amod := amod,
        sc_dataWidth := dataWidth, sc_lateRead := lateRead\<rparr>)"

definition addCompareLoopAccu :: "StackCommandBuilder \<Rightarrow> u8 \<Rightarrow> u32 \<Rightarrow> StackCommandBuilder" where
  "addCompareLoopAccu b comparator v =
     addCommand b (StackCommand_init
       \<lparr>sc_type := CompareLoopAccu, sc_value := ucast comparator, sc_address := v\<rparr>)"

definition addWriteSpecial :: "StackCommandBuilder \<Rightarrow> u32 \<Rightarrow> StackCommandBuilder" where
  "addWriteSpecial b specialValue =
     addCommand b (StackCommand_init\<lparr>sc_type := WriteSpecial, sc_value := specialValue\<rparr>)"

text \<open>The duration is a 64-bit signed count that the code narrows to 32 bits.\<close>

definition addSoftwareDelay :: "StackCommandBuilder \<Rightarrow> int \<Rightarrow> StackCommandBuilder" where
  "addSoftwareDelay b ms =
     addCommand b (StackCommand_init\<lparr>sc_type := SoftwareDelay, sc_value := word_of_int ms\<rparr>)"

definition getCommands :: "StackCommandBuilder \<Rightarrow> StackCommand list" where
  "getCommands b = foldl (\<lambda>ret g. ret @ g_commands g) [] (m_groups b)"

text \<open>
  \<open>getGroup(size_t)\<close>: the \<open>const\<close> overload indexes without a check, the other
  one uses \<open>at\<close>.
\<close>

definition getGroup_const :: "StackCommandBuilder \<Rightarrow> nat \<Rightarrow> Group result" where
  "getGroup_const b groupIndex =
     (if groupIndex < length (m_groups b) then Inr (m_groups b ! groupIndex)
      else Inl UndefinedBehaviour)"

definition getGroup_at :: "StackCommandBuilder \<Rightarrow> nat \<Rightarrow> Group result" where
  "getGroup_at b groupIndex =
     (if groupIndex < length (m_groups b) then Inr (m_groups b ! groupIndex)
      else Inl OutOfRange)"

definition getGroup_name :: "StackCommandBuilder \<Rightarrow> string \<Rightarrow> Group" where
  "getGroup_name b groupName =
     (case find (\<lambda>g. g_name g = groupName) (m_groups b) of
        Some g \<Rightarrow> g | None \<Rightarrow> Group_init)"

definition getCommands_index :: "StackCommandBuilder \<Rightarrow> nat \<Rightarrow> StackCommand list result" where
  "getCommands_index b groupIndex = result_map g_commands (getGroup_const b groupIndex)"

definition getCommands_name :: "StackCommandBuilder \<Rightarrow> string \<Rightarrow> StackCommand list" where
  "getCommands_name b groupName = g_commands (getGroup_name b groupName)"

definition commandCount :: "StackCommandBuilder \<Rightarrow> nat" where
  "commandCount b = foldl (\<lambda>accu g. accu + length (g_commands g)) 0 (m_groups b)"

definition builder_empty :: "StackCommandBuilder \<Rightarrow> bool" where
  "builder_empty b \<longleftrightarrow> m_groups b = [] \<or> (\<forall>g\<in>set (m_groups b). g_commands g = [])"

definition getLastCommand :: "StackCommandBuilder \<Rightarrow> StackCommand option" where
  "getLastCommand b =
     (if m_groups b = [] then None
      else let lastGroup = last (m_groups b)
        in if g_commands lastGroup = [] then None else Some (last (g_commands lastGroup)))"

definition builder_clear :: "StackCommandBuilder \<Rightarrow> StackCommandBuilder" where
  "builder_clear b = b\<lparr>m_groups := []\<rparr>"

definition setYamlMeta :: "StackCommandBuilder \<Rightarrow> string \<Rightarrow> string \<Rightarrow> StackCommandBuilder" where
  "setYamlMeta b key yamlString = b\<lparr>m_yamlMeta := (m_yamlMeta b)(key \<mapsto> yamlString)\<rparr>"

definition getYamlMeta :: "StackCommandBuilder \<Rightarrow> string \<Rightarrow> string" where
  "getYamlMeta b key = (case m_yamlMeta b key of Some v \<Rightarrow> v | None \<Rightarrow> [])"

definition setName :: "StackCommandBuilder \<Rightarrow> string \<Rightarrow> StackCommandBuilder" where
  "setName b name = b\<lparr>m_name := name\<rparr>"

definition setSuppressPipeOutput :: "StackCommandBuilder \<Rightarrow> bool \<Rightarrow> StackCommandBuilder" where
  "setSuppressPipeOutput b suppress = b\<lparr>m_suppressPipeOutput := suppress\<rparr>"

definition group_produces_output :: "Group \<Rightarrow> bool" where
  "group_produces_output grp \<longleftrightarrow> list_ex produces_output (g_commands grp)"

definition builder_produces_output :: "StackCommandBuilder \<Rightarrow> bool" where
  "builder_produces_output stack \<longleftrightarrow> list_ex group_produces_output (m_groups stack)"

section \<open>Enumeration values\<close>

lemma SuperCommandType_cast_code [simp]: "SuperCommandType_cast (SuperCommandType_code t) = Some t"
  by (cases t) (simp_all add: SuperCommandType_cast_def SuperCommandTypes_def)

lemma CommandType_cast_code [simp]: "CommandType_cast (CommandType_code t) = Some t"
  by (cases t) (simp_all add: CommandType_cast_def CommandTypes_def)

lemma SuperCommandType_code_inj: "SuperCommandType_code s = SuperCommandType_code t \<longleftrightarrow> s = t"
  by (metis SuperCommandType_cast_code option.inject)

lemma CommandType_code_inj: "CommandType_code s = CommandType_code t \<longleftrightarrow> s = t"
  by (metis CommandType_cast_code option.inject)

text \<open>The block modes are partitioned into BLT, MBLT and 2eSST.\<close>

lemma is_block_mode_iff:
  "is_block_mode amod \<longleftrightarrow> is_blt_mode amod \<or> is_mblt_mode amod \<or> is_esst64_mode amod"
  by (auto simp: is_block_mode_def is_blt_mode_def is_mblt_mode_def is_esst64_mode_def)

lemma block_modes_disjoint:
  "\<not> (is_blt_mode amod \<and> is_mblt_mode amod)" "\<not> (is_blt_mode amod \<and> is_esst64_mode amod)"
  "\<not> (is_mblt_mode amod \<and> is_esst64_mode amod)"
  by (auto simp: is_blt_mode_def is_mblt_mode_def is_esst64_mode_def)

section \<open>Builders collect commands in order\<close>

text \<open>
  What a client of a builder relies on: adding a command appends it to the
  flattened list.
\<close>

locale command_sink =
  fixes add :: "'b \<Rightarrow> 'c \<Rightarrow> 'b"
    and commands :: "'b \<Rightarrow> 'c list"
  assumes commands_add: "commands (add b c) = commands b @ [c]"
begin

lemma commands_foldl: "commands (foldl add b cs) = commands b @ cs"
  by (induction cs arbitrary: b) (simp_all add: commands_add)

lemma commands_length: "length (commands (foldl add b cs)) = length (commands b) + length cs"
  by (simp add: commands_foldl)

end

interpretation super_sink: command_sink super_addCommand super_getCommands
  by unfold_locales (simp add: super_addCommand_def super_getCommands_def)

lemma foldl_append_concat: "foldl (\<lambda>ret g. ret @ f g) acc gs = acc @ concat (map f gs)"
  by (induction gs arbitrary: acc) simp_all

lemma foldl_add_sum_list: "foldl (\<lambda>acc g. acc + f g) n gs = n + sum_list (map f gs)"
  for n :: nat
  by (induction gs arbitrary: n) simp_all

lemma getCommands_concat: "getCommands b = concat (map g_commands (m_groups b))"
  by (simp add: getCommands_def foldl_append_concat)

lemma commandCount_length: "commandCount b = length (getCommands b)"
  by (simp add: commandCount_def foldl_add_sum_list getCommands_concat length_concat comp_def)

lemma m_groups_addCommand:
  "m_groups (addCommand b c) =
     (if m_groups b = [] then [\<lparr>g_name = [], g_commands = [c], g_meta = Map.empty\<rparr>]
      else butlast (m_groups b) @
        [(last (m_groups b))\<lparr>g_commands := g_commands (last (m_groups b)) @ [c]\<rparr>])"
  by (simp add: addCommand_def push_back_command_def hasOpenGroup_def beginGroup_def Let_def)

interpretation stack_sink: command_sink addCommand getCommands
proof
  fix b c
  show "getCommands (addCommand b c) = getCommands b @ [c]"
    by (cases "m_groups b" rule: rev_cases)
      (simp_all add: getCommands_concat m_groups_addCommand)
qed

lemma m_groups_foldl_addCommand:
  "m_groups b = gs @ [g] \<Longrightarrow>
   m_groups (foldl addCommand b cs) = gs @ [g\<lparr>g_commands := g_commands g @ cs\<rparr>]"
  by (induction cs arbitrary: b g) (simp_all add: m_groups_addCommand)

section \<open>Properties\<close>


text \<open>
  A group added with its commands can be found again: by index it is the
  new last group, by name it is found unless an earlier group has the same name,
  it holds exactly the given commands, and all earlier groups are unchanged.
\<close>

theorem addGroup_lookup:
  "(let b' = addGroup b name commands meta in
      getCommands_index b' (getGroupCount b) = Inr commands \<and>
      (\<forall>i. i < getGroupCount b \<longrightarrow> getGroup_const b' i = getGroup_const b i) \<and>
      getGroupCount b' = getGroupCount b + 1 \<and>
      getCommands b' = getCommands b @ commands \<and>
      ((\<forall>g\<in>set (m_groups b). g_name g \<noteq> name) \<longrightarrow> getCommands_name b' name = commands))"
proof -
  let ?b = "addGroup b name commands meta"
  have groups: "m_groups ?b =
      m_groups b @ [\<lparr>g_name = name, g_commands = commands, g_meta = meta\<rparr>]"
    using m_groups_foldl_addCommand [of "beginGroup b name meta" "m_groups b"]
    by (simp add: addGroup_def beginGroup_def)
  have "find (\<lambda>g. g_name g = name) (m_groups b) = None"
    if "\<forall>g\<in>set (m_groups b). g_name g \<noteq> name" using that by (simp add: find_None_iff)
  moreover have "find P (xs @ ys) = (case find P xs of None \<Rightarrow> find P ys | Some x \<Rightarrow> Some x)"
    for P and xs ys :: "Group list" by (induction xs) simp_all
  ultimately show ?thesis
    by (simp add: groups getCommands_index_def getGroup_const_def getGroupCount_def
        getCommands_concat getCommands_name_def getGroup_name_def nth_append)
qed

theorem addGroup_lookup_witness:
  "getCommands_name
     (addGroup (addGroup StackCommandBuilder_init ''a'' [] Map.empty) ''b''
        [StackCommand_init\<lparr>sc_type := SignalAccu\<rparr>] Map.empty) ''b'' =
   [StackCommand_init\<lparr>sc_type := SignalAccu\<rparr>]"
proof -
  have "\<forall>g\<in>set (m_groups (addGroup StackCommandBuilder_init ''a'' [] Map.empty)). g_name g \<noteq> ''b''"
    by (simp add: addGroup_def beginGroup_def StackCommandBuilder_init_def)
  with addGroup_lookup [of "addGroup StackCommandBuilder_init ''a'' [] Map.empty" "''b''"
      "[StackCommand_init\<lparr>sc_type := SignalAccu\<rparr>]" Map.empty]
  show ?thesis by (simp add: Let_def)
qed

end
