(* ===== verification/Mvlc_Command_Codec.thy ===== *)
theory Mvlc_Command_Codec
  imports Mvlc_Commands
begin

text \<open>
  The binary form of commands, from \<open>mvlc_command_builders.cc\<close>: encoded sizes,
  the command buffer of super commands, the stack buffer of stack commands,
  the two decoders, and the super commands that upload a stack into the stack
  memory of the MVLC. The lemmas show that decoding inverts encoding on the
  commands the format can express, and what happens to the others.
\<close>

section \<open>Encoded sizes\<close>

definition get_encoded_size_super :: "SuperCommandType \<Rightarrow> nat" where
  "get_encoded_size_super type =
     (case type of
        ReferenceWord \<Rightarrow> 1 | ReadLocal \<Rightarrow> 1 | WriteReset \<Rightarrow> 1 | CmdBufferStart \<Rightarrow> 1
      | CmdBufferEnd \<Rightarrow> 1 | EthDelay \<Rightarrow> 1
      | ReadLocalBlock \<Rightarrow> 2 | WriteLocal \<Rightarrow> 2)"

definition get_encoded_size :: "CommandType \<Rightarrow> nat" where
  "get_encoded_size type =
     (case type of
        StackStart \<Rightarrow> 1 | StackEnd \<Rightarrow> 1 | Wait \<Rightarrow> 1 | SignalAccu \<Rightarrow> 1 | Custom \<Rightarrow> 1
      | VMERead \<Rightarrow> 2 | VMEReadSwapped \<Rightarrow> 2 | VMEReadMem \<Rightarrow> 2 | VMEReadMemSwapped \<Rightarrow> 2
      | MaskShiftAccu \<Rightarrow> 2 | SetAccu \<Rightarrow> 2 | ReadToAccu \<Rightarrow> 2 | CompareLoopAccu \<Rightarrow> 2
      | VMEWrite \<Rightarrow> 3
      | WriteMarker \<Rightarrow> 2
      | WriteSpecial \<Rightarrow> 1
      | Invalid \<Rightarrow> 0 | SoftwareDelay \<Rightarrow> 0)"

definition get_encoded_stack_size :: "StackCommand list \<Rightarrow> nat" where
  "get_encoded_stack_size commands =
     2 + foldl (\<lambda>encodedSize cmd. encodedSize + get_encoded_size (sc_type cmd)) 0 commands"

section \<open>Super command buffers\<close>

definition super_cmd_word :: "SuperCommandType \<Rightarrow> u32" where
  "super_cmd_word type = push_bit 16 (ucast (SuperCommandType_code type))"

definition encode_super_command :: "SuperCommand \<Rightarrow> u32 list" where
  "encode_super_command cmd =
     (let cmdWord = super_cmd_word (su_type cmd)
      in case su_type cmd of
           ReferenceWord \<Rightarrow> [cmdWord OR (su_value cmd AND 0xFFFF)]
         | ReadLocal \<Rightarrow> [cmdWord OR (ucast (su_address cmd) AND 0xFFFF)]
         | ReadLocalBlock \<Rightarrow> [cmdWord OR (ucast (su_address cmd) AND 0xFFFF), su_value cmd]
         | WriteLocal \<Rightarrow> [cmdWord OR (ucast (su_address cmd) AND 0xFFFF), su_value cmd]
         | WriteReset \<Rightarrow> [cmdWord]
         | CmdBufferStart \<Rightarrow> [cmdWord]
         | CmdBufferEnd \<Rightarrow> [cmdWord]
         | EthDelay \<Rightarrow> [cmdWord])"

definition make_command_buffer :: "SuperCommand list \<Rightarrow> u32 list" where
  "make_command_buffer commands =
     [super_cmd_word CmdBufferStart] @ concat (map encode_super_command commands) @
     [super_cmd_word CmdBufferEnd]"

text \<open>
  The decoder advances its iterator inside the loop body to fetch argument
  words. When the argument word is missing the body leaves the iterator at
  \<open>end()\<close> and the loop increments it once more, so that the comparison with
  \<open>end()\<close> is missed and memory behind the buffer is read.
\<close>

fun super_commands_from_buffer :: "u32 list \<Rightarrow> SuperCommand list result" where
  "super_commands_from_buffer [] = Inr []"
| "super_commands_from_buffer (w # rest) =
     (if \<not> is_super_command w then Inr []
      else let arg = w AND 0xFFFF;
               cmd = (\<lambda>t. \<lparr>su_type = t, su_address = 0, su_value = 0\<rparr>)
        in case SuperCommandType_cast (ucast (drop_bit 16 w AND 0xFFFF)) of
             None \<Rightarrow> Inr []
           | Some t \<Rightarrow>
             (case t of
                CmdBufferStart \<Rightarrow> super_commands_from_buffer rest
              | CmdBufferEnd \<Rightarrow> super_commands_from_buffer rest
              | EthDelay \<Rightarrow> super_commands_from_buffer rest
              | ReferenceWord \<Rightarrow>
                  result_map (Cons ((cmd t)\<lparr>su_value := arg\<rparr>)) (super_commands_from_buffer rest)
              | ReadLocal \<Rightarrow>
                  result_map (Cons ((cmd t)\<lparr>su_address := ucast arg\<rparr>))
                    (super_commands_from_buffer rest)
              | WriteReset \<Rightarrow> result_map (Cons (cmd t)) (super_commands_from_buffer rest)
              | ReadLocalBlock \<Rightarrow>
                  (case rest of [] \<Rightarrow> Inl UndefinedBehaviour
                   | v # rest' \<Rightarrow>
                     result_map (Cons ((cmd t)\<lparr>su_address := ucast arg, su_value := v\<rparr>))
                       (super_commands_from_buffer rest'))
              | WriteLocal \<Rightarrow>
                  (case rest of [] \<Rightarrow> Inl UndefinedBehaviour
                   | v # rest' \<Rightarrow>
                     result_map (Cons ((cmd t)\<lparr>su_address := ucast arg, su_value := v\<rparr>))
                       (super_commands_from_buffer rest'))))"

definition super_builder_from_buffer :: "u32 list \<Rightarrow> SuperCommandBuilder result" where
  "super_builder_from_buffer buffer =
     result_map (foldl super_addCommand SuperCommandBuilder_init)
       (super_commands_from_buffer buffer)"

section \<open>Stack buffers\<close>

definition encode_stack_command :: "StackCommand \<Rightarrow> u32 list result" where
  "encode_stack_command cmd =
     (let cmdWord = push_bit 24 (ucast (CommandType_code (sc_type cmd))) :: u32;
          amod = push_bit 16 (ucast (sc_amod cmd)) :: u32;
          late = (if sc_lateRead cmd then 1 else 0) :: u32;
          transfers = ucast (sc_transfers cmd) AND 0xFFFF :: u32;
          readWord =
            (if \<not> is_block_mode (sc_amod cmd)
             then cmdWord OR amod OR (sc_dataWidth cmd OR push_bit 2 late)
             else if is_blt_mode (sc_amod cmd) then cmdWord OR amod OR transfers
             else if is_mblt_mode (sc_amod cmd) then cmdWord OR amod OR transfers
             else if is_esst64_mode (sc_amod cmd)
             then cmdWord OR push_bit 16 (ucast (sc_amod cmd) OR push_bit 6 (ucast (sc_rate cmd)))
                  OR transfers
             else cmdWord)
      in case sc_type cmd of
           VMERead \<Rightarrow> Inr [readWord, sc_address cmd]
         | VMEReadSwapped \<Rightarrow> Inr [readWord, sc_address cmd]
         | VMEReadMem \<Rightarrow> Inr [readWord, sc_address cmd]
         | VMEReadMemSwapped \<Rightarrow> Inr [readWord, sc_address cmd]
         | VMEWrite \<Rightarrow> Inr [cmdWord OR amod OR sc_dataWidth cmd, sc_address cmd, sc_value cmd]
         | WriteMarker \<Rightarrow> Inr [cmdWord, sc_value cmd]
         | WriteSpecial \<Rightarrow> Inr [cmdWord OR (sc_value cmd AND 0xFFFFFF)]
         | StackStart \<Rightarrow> Inr [cmdWord]
         | StackEnd \<Rightarrow> Inr [cmdWord]
         | SoftwareDelay \<Rightarrow> Inl RuntimeError
         | Invalid \<Rightarrow> Inl RuntimeError
         | Custom \<Rightarrow> Inr (sc_customValues cmd)
         | Wait \<Rightarrow> Inr [cmdWord OR (sc_value cmd AND 0xFFFFFF)]
         | SignalAccu \<Rightarrow> Inr [cmdWord]
         | MaskShiftAccu \<Rightarrow> Inr [cmdWord OR sc_value cmd, sc_address cmd]
         | SetAccu \<Rightarrow> Inr [cmdWord, sc_value cmd]
         | ReadToAccu \<Rightarrow>
             Inr [cmdWord OR amod OR (sc_dataWidth cmd OR push_bit 2 late), sc_address cmd]
         | CompareLoopAccu \<Rightarrow> Inr [cmdWord OR sc_value cmd, sc_address cmd])"

fun make_stack_buffer :: "StackCommand list \<Rightarrow> u32 list result" where
  "make_stack_buffer [] = Inr []"
| "make_stack_buffer (cmd # stack) =
     result_bind (encode_stack_command cmd)
       (\<lambda>ws. result_map (\<lambda>vs. ws @ vs) (make_stack_buffer stack))"

text \<open>The address modifier, transfer and width arguments of the read commands.\<close>

definition decode_read_args :: "u8 \<Rightarrow> u16 \<Rightarrow> StackCommand \<Rightarrow> StackCommand" where
  "decode_read_args arg0 arg1 cmd =
     (let amod = arg0 AND VmeAmodMask; cmd = cmd\<lparr>sc_amod := amod\<rparr>
      in if is_esst64_mode amod then cmd\<lparr>sc_rate := drop_bit 6 arg0, sc_transfers := arg1\<rparr>
         else if is_blt_mode amod then cmd\<lparr>sc_transfers := arg1\<rparr>
         else if is_mblt_mode amod then cmd\<lparr>sc_transfers := arg1\<rparr>
         else if \<not> is_block_mode amod
         then cmd\<lparr>sc_dataWidth := ucast (arg1 AND 3), sc_lateRead := (drop_bit 2 arg1 AND 1 \<noteq> 0)\<rparr>
         else cmd)"

fun stack_commands_from_buffer :: "u32 list \<Rightarrow> StackCommand list result" where
  "stack_commands_from_buffer [] = Inr []"
| "stack_commands_from_buffer (w # rest) =
     (let sct = ucast (drop_bit 24 w AND 0xFF) :: u8;
          arg0 = ucast (drop_bit 16 w AND 0xFF) :: u8;
          arg1 = ucast (w AND 0xFFFF) :: u16
      in if \<not> is_stack_command w
         then result_map
                (Cons (StackCommand_init\<lparr>sc_type := Custom, sc_customValues := [w]\<rparr>))
                (stack_commands_from_buffer rest)
         else case CommandType_cast sct of
           None \<Rightarrow> stack_commands_from_buffer rest
         | Some t \<Rightarrow>
           let cmd = StackCommand_init\<lparr>sc_type := t\<rparr>
           in if t \<in> {StackStart, StackEnd, SoftwareDelay, Invalid, Custom}
              then stack_commands_from_buffer rest
              else if t \<in> {VMERead, VMEReadSwapped, VMEReadMem, VMEReadMemSwapped, ReadToAccu}
              then (case rest of [] \<Rightarrow> Inl UndefinedBehaviour
                    | a # rest' \<Rightarrow>
                      result_map (Cons ((decode_read_args arg0 arg1 cmd)\<lparr>sc_address := a\<rparr>))
                        (stack_commands_from_buffer rest'))
              else if t = VMEWrite
              then (case rest of a # v # rest' \<Rightarrow>
                      result_map (Cons (cmd\<lparr>sc_amod := arg0, sc_dataWidth := ucast (arg1 AND 3),
                                            sc_address := a, sc_value := v\<rparr>))
                        (stack_commands_from_buffer rest')
                    | _ \<Rightarrow> Inl UndefinedBehaviour)
              else if t \<in> {WriteMarker, SetAccu}
              then (case rest of [] \<Rightarrow> Inl UndefinedBehaviour
                    | v # rest' \<Rightarrow> result_map (Cons (cmd\<lparr>sc_value := v\<rparr>))
                                     (stack_commands_from_buffer rest'))
              else if t \<in> {WriteSpecial, Wait}
              then result_map (Cons (cmd\<lparr>sc_value := w AND 0xFFFFFF\<rparr>))
                     (stack_commands_from_buffer rest)
              else if t = MaskShiftAccu
              then (case rest of [] \<Rightarrow> Inl UndefinedBehaviour
                    | a # rest' \<Rightarrow>
                      result_map (Cons (cmd\<lparr>sc_value := w AND 0xFFFFFF, sc_address := a\<rparr>))
                        (stack_commands_from_buffer rest'))
              else if t = CompareLoopAccu
              then (case rest of [] \<Rightarrow> Inl UndefinedBehaviour
                    | a # rest' \<Rightarrow>
                      result_map (Cons (cmd\<lparr>sc_value := ucast arg1, sc_address := a\<rparr>))
                        (stack_commands_from_buffer rest'))
              else result_map (Cons cmd) (stack_commands_from_buffer rest))"

declare super_commands_from_buffer.simps(2) [simp del]
declare stack_commands_from_buffer.simps(2) [simp del]

definition stack_builder_from_buffer :: "u32 list \<Rightarrow> StackCommandBuilder result" where
  "stack_builder_from_buffer buffer =
     result_map (StackCommandBuilder_from []) (stack_commands_from_buffer buffer)"

section \<open>Stack upload\<close>

abbreviation (input) StackMemoryBegin :: u16 where "StackMemoryBegin \<equiv> 0x2000"
abbreviation (input) AddressIncrement :: u16 where "AddressIncrement \<equiv> 4"

definition make_stack_upload_commands_buffer ::
  "u8 \<Rightarrow> u16 \<Rightarrow> u32 list \<Rightarrow> SuperCommand list" where
  "make_stack_upload_commands_buffer stackOutputPipe stackMemoryOffset stackBuffer =
     (let address = StackMemoryBegin + stackMemoryOffset;
          super = addWriteLocal SuperCommandBuilder_init address
            (push_bit 24 (ucast (CommandType_code StackStart)) OR
             push_bit 16 (ucast stackOutputPipe));
          address = address + AddressIncrement;
          (super, address) =
            foldl (\<lambda>(super, address) stackWord.
                     (addWriteLocal super address stackWord, address + AddressIncrement))
              (super, address) stackBuffer;
          super = addWriteLocal super address
            (push_bit 24 (ucast (CommandType_code StackEnd)))
      in super_getCommands super)"

definition make_stack_upload_commands ::
  "u8 \<Rightarrow> u16 \<Rightarrow> StackCommand list \<Rightarrow> SuperCommand list result" where
  "make_stack_upload_commands stackOutputPipe stackMemoryOffset stack =
     result_map (make_stack_upload_commands_buffer stackOutputPipe stackMemoryOffset)
       (make_stack_buffer stack)"

definition addStackUpload ::
  "SuperCommandBuilder \<Rightarrow> StackCommandBuilder \<Rightarrow> u8 \<Rightarrow> u16 \<Rightarrow> SuperCommandBuilder result" where
  "addStackUpload b stackBuilder stackOutputPipe stackMemoryOffset =
     result_map (super_addCommands b)
       (make_stack_upload_commands stackOutputPipe stackMemoryOffset (getCommands stackBuilder))"

definition addStackUpload_buffer ::
  "SuperCommandBuilder \<Rightarrow> u32 list \<Rightarrow> u8 \<Rightarrow> u16 \<Rightarrow> SuperCommandBuilder" where
  "addStackUpload_buffer b stackBuffer stackOutputPipe stackMemoryOffset =
     super_addCommands b
       (make_stack_upload_commands_buffer stackOutputPipe stackMemoryOffset stackBuffer)"

text \<open>
  The shortcut methods of the super command builder upload a one-command stack
  to offset 0 with output going to the command pipe.
\<close>

definition super_addVMERead ::
  "SuperCommandBuilder \<Rightarrow> u32 \<Rightarrow> u8 \<Rightarrow> u32 \<Rightarrow> bool \<Rightarrow> bool \<Rightarrow> SuperCommandBuilder result" where
  "super_addVMERead b address amod dataWidth lateRead fifo =
     (let stack = addVMERead StackCommandBuilder_init address amod dataWidth lateRead fifo
      in result_map (super_addCommands b) (make_stack_upload_commands 0 0 (getCommands stack)))"

definition super_addVMEBlockRead ::
  "SuperCommandBuilder \<Rightarrow> u32 \<Rightarrow> u8 \<Rightarrow> u16 \<Rightarrow> bool \<Rightarrow> SuperCommandBuilder result" where
  "super_addVMEBlockRead b address amod maxTransfers fifo =
     result_bind (addVMEBlockRead StackCommandBuilder_init address amod maxTransfers fifo)
       (\<lambda>stack. result_map (super_addCommands b) (make_stack_upload_commands 0 0 (getCommands stack)))"

definition super_addVMEBlockRead_2eSST ::
  "SuperCommandBuilder \<Rightarrow> u32 \<Rightarrow> u8 \<Rightarrow> u16 \<Rightarrow> bool \<Rightarrow> SuperCommandBuilder result" where
  "super_addVMEBlockRead_2eSST b address rate maxTransfers fifo =
     (let stack = addVMEBlockRead_2eSST StackCommandBuilder_init address rate maxTransfers fifo
      in result_map (super_addCommands b) (make_stack_upload_commands 0 0 (getCommands stack)))"

definition super_addVMEBlockReadSwapped ::
  "SuperCommandBuilder \<Rightarrow> u32 \<Rightarrow> u8 \<Rightarrow> u16 \<Rightarrow> bool \<Rightarrow> SuperCommandBuilder result" where
  "super_addVMEBlockReadSwapped b address amod maxTransfers fifo =
     result_bind (addVMEBlockReadSwapped StackCommandBuilder_init address amod maxTransfers fifo)
       (\<lambda>stack. result_map (super_addCommands b) (make_stack_upload_commands 0 0 (getCommands stack)))"

definition super_addVMEBlockReadSwapped_2eSST ::
  "SuperCommandBuilder \<Rightarrow> u32 \<Rightarrow> u8 \<Rightarrow> u16 \<Rightarrow> bool \<Rightarrow> SuperCommandBuilder result" where
  "super_addVMEBlockReadSwapped_2eSST b address rate maxTransfers fifo =
     (let stack = addVMEBlockReadSwapped_2eSST StackCommandBuilder_init address rate maxTransfers fifo
      in result_map (super_addCommands b) (make_stack_upload_commands 0 0 (getCommands stack)))"

definition super_addVMEWrite ::
  "SuperCommandBuilder \<Rightarrow> u32 \<Rightarrow> u32 \<Rightarrow> u8 \<Rightarrow> u32 \<Rightarrow> SuperCommandBuilder result" where
  "super_addVMEWrite b address v amod dataWidth =
     (let stack = addVMEWrite StackCommandBuilder_init address v amod dataWidth
      in result_map (super_addCommands b) (make_stack_upload_commands 0 0 (getCommands stack)))"

section \<open>What the format can express\<close>

text \<open>
  The commands that survive encoding: the arguments fit into their fields and
  the members a command type does not use have their initial values. The
  address modifier of a \<open>ReadToAccu\<close> must not be a block mode, the rate of a
  2eSST read is a 2-bit number.
\<close>

definition canonical_super_command :: "SuperCommand \<Rightarrow> bool" where
  "canonical_super_command c \<longleftrightarrow>
     (case su_type c of
        ReferenceWord \<Rightarrow> su_address c = 0 \<and> unat (su_value c) < 2 ^ 16
      | ReadLocal \<Rightarrow> su_value c = 0
      | ReadLocalBlock \<Rightarrow> True
      | WriteLocal \<Rightarrow> True
      | WriteReset \<Rightarrow> su_address c = 0 \<and> su_value c = 0
      | _ \<Rightarrow> False)"

definition canonical_read :: "StackCommand \<Rightarrow> bool" where
  "canonical_read c \<longleftrightarrow>
     unat (sc_amod c) < 64 \<and> sc_value c = 0 \<and>
     (if is_block_mode (sc_amod c)
      then sc_dataWidth c = D16 \<and> \<not> sc_lateRead c \<and>
           (if is_esst64_mode (sc_amod c) then unat (sc_rate c) < 4 else sc_rate c = 0)
      else unat (sc_dataWidth c) < 4 \<and> sc_transfers c = 0 \<and> sc_rate c = 0)"

definition no_vme_args :: "StackCommand \<Rightarrow> bool" where
  "no_vme_args c \<longleftrightarrow>
     sc_amod c = 0 \<and> sc_dataWidth c = D16 \<and> sc_transfers c = 0 \<and> sc_rate c = 0 \<and> \<not> sc_lateRead c"

definition canonical_stack_command :: "StackCommand \<Rightarrow> bool" where
  "canonical_stack_command c \<longleftrightarrow>
     sc_customValues c = [] \<and>
     (case sc_type c of
        VMERead \<Rightarrow> canonical_read c
      | VMEReadSwapped \<Rightarrow> canonical_read c
      | VMEReadMem \<Rightarrow> canonical_read c
      | VMEReadMemSwapped \<Rightarrow> canonical_read c
      | ReadToAccu \<Rightarrow> canonical_read c \<and> \<not> is_block_mode (sc_amod c)
      | VMEWrite \<Rightarrow> unat (sc_dataWidth c) < 4 \<and> sc_transfers c = 0 \<and> sc_rate c = 0 \<and>
                    \<not> sc_lateRead c
      | WriteMarker \<Rightarrow> no_vme_args c \<and> sc_address c = 0
      | SetAccu \<Rightarrow> no_vme_args c \<and> sc_address c = 0
      | WriteSpecial \<Rightarrow> no_vme_args c \<and> sc_address c = 0 \<and> unat (sc_value c) < 2 ^ 24
      | Wait \<Rightarrow> no_vme_args c \<and> sc_address c = 0 \<and> unat (sc_value c) < 2 ^ 24
      | SignalAccu \<Rightarrow> no_vme_args c \<and> sc_address c = 0 \<and> sc_value c = 0
      | MaskShiftAccu \<Rightarrow> no_vme_args c \<and> unat (sc_value c) < 2 ^ 24
      | CompareLoopAccu \<Rightarrow> no_vme_args c \<and> unat (sc_value c) < 2 ^ 16
      | _ \<Rightarrow> False)"

definition without_comment :: "StackCommand \<Rightarrow> StackCommand" where
  "without_comment c = c\<lparr>sc_comment := []\<rparr>"

section \<open>Encoders and decoders\<close>

text \<open>
  A decoder for a format in which every command is a non-empty run of words:
  it takes one encoded command off the front of its input, up to the
  normalisation \<open>norm\<close>, and runs past the end of an input that ends within a
  command.
\<close>

locale command_codec =
  fixes encode :: "'c \<Rightarrow> u32 list"
    and decode :: "u32 list \<Rightarrow> 'c list result"
    and canonical :: "'c \<Rightarrow> bool"
    and norm :: "'c \<Rightarrow> 'c"
  assumes decode_Nil: "decode [] = Inr []"
    and decode_encode:
      "canonical c \<Longrightarrow> decode (encode c @ rest) = result_map (Cons (norm c)) (decode rest)"
    and decode_cut:
      "canonical c \<Longrightarrow> encode c = ws @ vs \<Longrightarrow> ws \<noteq> [] \<Longrightarrow> vs \<noteq> [] \<Longrightarrow>
       decode ws = Inl UndefinedBehaviour"
begin

lemma decode_encode_list:
  "\<forall>c\<in>set cs. canonical c \<Longrightarrow>
   decode (concat (map encode cs) @ rest) = result_map (\<lambda>ds. map norm cs @ ds) (decode rest)"
proof (induction cs)
  case Nil
  then show ?case by (cases "decode rest") simp_all
next
  case (Cons c cs)
  then show ?case by (cases "decode rest") (simp_all add: decode_encode)
qed

lemma decode_all: "\<forall>c\<in>set cs. canonical c \<Longrightarrow> decode (concat (map encode cs)) = Inr (map norm cs)"
  using decode_encode_list [of cs "[]"] by (simp add: decode_Nil)

lemma decode_truncated:
  "\<forall>c\<in>set cs. canonical c \<Longrightarrow> canonical c \<Longrightarrow> encode c = ws @ vs \<Longrightarrow> ws \<noteq> [] \<Longrightarrow> vs \<noteq> [] \<Longrightarrow>
   decode (concat (map encode cs) @ ws) = Inl UndefinedBehaviour"
  by (simp add: decode_encode_list decode_cut)

end

section \<open>Fields of command words\<close>

definition command_word :: "u8 \<Rightarrow> u8 \<Rightarrow> u16 \<Rightarrow> u32" where
  "command_word t a x = push_bit 24 (ucast t) OR push_bit 16 (ucast a) OR ucast x"

lemma word_arg1: "ucast (command_word t a x) = x"
  unfolding command_word_def by (rule bit_word_eqI) (auto simp: bit_simps)

lemma word_arg0: "ucast (drop_bit 16 (command_word t a x)) = a"
  unfolding command_word_def by (rule bit_word_eqI) (auto simp: bit_simps dest: bit_bounds)

lemma word_type: "ucast (drop_bit 24 (command_word t a x)) = t"
  unfolding command_word_def by (rule bit_word_eqI) (auto simp: bit_simps dest: bit_bounds)

lemma ucast_take_bit_u32:
  "ucast (take_bit 8 w) = (ucast w :: u8)" "ucast (take_bit 16 w) = (ucast w :: u16)" for w :: u32
  by (rule bit_word_eqI; simp add: bit_simps)+

lemma u32_less_4: "unat dw < 4 \<Longrightarrow> dw = 0 \<or> dw = 1 \<or> dw = 2 \<or> dw = 3" for dw :: u32
  unfolding word_unat_eq_iff by simp linarith

lemma u8_less_4: "unat r < 4 \<Longrightarrow> r = 0 \<or> r = 1 \<or> r = 2 \<or> r = 3" for r :: u8
  unfolding word_unat_eq_iff by simp linarith

lemma decode_rate:
  fixes r a :: u8
  assumes "unat r < 4" "is_esst64_mode a" "unat a < 64"
  shows "take_bit 6 (a OR push_bit 6 r) = a" "drop_bit 6 (a OR push_bit 6 r) = r"
    "ucast a OR push_bit 6 (ucast r) = (ucast (a OR push_bit 6 r) :: u32)"
proof -
  have a: "a = 0x20" using assms(2,3) take_bit_word_self [of a 6]
    by (simp add: is_esst64_mode_def mask_simps)
  show "take_bit 6 (a OR push_bit 6 r) = a" "drop_bit 6 (a OR push_bit 6 r) = r"
    "ucast a OR push_bit 6 (ucast r) = (ucast (a OR push_bit 6 r) :: u32)"
    unfolding a using u8_less_4 [OF assms(1)] by auto
qed

section \<open>Decoding super commands\<close>

definition super_word :: "SuperCommandType \<Rightarrow> u32 \<Rightarrow> u32" where
  "super_word t v = super_cmd_word t OR take_bit 16 v"

lemma super_word_type: "ucast (drop_bit 16 (super_word t v)) = SuperCommandType_code t"
  unfolding super_word_def super_cmd_word_def
  by (rule bit_word_eqI) (auto simp: bit_simps dest: bit_bounds)

lemma super_word_arg: "take_bit 16 (super_word t v) = take_bit 16 v"
  unfolding super_word_def super_cmd_word_def by (rule bit_word_eqI) (auto simp: bit_simps)

lemma super_cmd_word_eq: "super_cmd_word t = super_word t 0"
  by (simp add: super_word_def)

lemmas super_word_simps = mask_simps ucast_take_bit_u32 super_word_type super_word_arg

lemma is_super_command_word: "is_super_command (super_word t v) \<longleftrightarrow> t \<noteq> EthDelay"
  by (cases t) (simp_all add: is_super_command_def super_word_simps)

lemma super_decode_word:
  "super_commands_from_buffer (super_word t v # rest) =
   (let cmd = \<lparr>su_type = t, su_address = 0, su_value = 0\<rparr>; arg = take_bit 16 v
    in case t of
      CmdBufferStart \<Rightarrow> super_commands_from_buffer rest
    | CmdBufferEnd \<Rightarrow> super_commands_from_buffer rest
    | EthDelay \<Rightarrow> Inr []
    | ReferenceWord \<Rightarrow> result_map (Cons (cmd\<lparr>su_value := arg\<rparr>)) (super_commands_from_buffer rest)
    | ReadLocal \<Rightarrow>
        result_map (Cons (cmd\<lparr>su_address := ucast arg\<rparr>)) (super_commands_from_buffer rest)
    | WriteReset \<Rightarrow> result_map (Cons cmd) (super_commands_from_buffer rest)
    | _ \<Rightarrow> (case rest of [] \<Rightarrow> Inl UndefinedBehaviour
            | a # rest' \<Rightarrow> result_map (Cons (cmd\<lparr>su_address := ucast arg, su_value := a\<rparr>))
                             (super_commands_from_buffer rest')))"
  by (cases t) (simp_all add: super_commands_from_buffer.simps(2) is_super_command_word
      super_word_simps del: SuperCommandType_code.simps)

lemma encode_super_command_words:
  "encode_super_command c =
     (case su_type c of
        ReferenceWord \<Rightarrow> [super_word ReferenceWord (su_value c)]
      | ReadLocal \<Rightarrow> [super_word ReadLocal (ucast (su_address c))]
      | ReadLocalBlock \<Rightarrow> [super_word ReadLocalBlock (ucast (su_address c)), su_value c]
      | WriteLocal \<Rightarrow> [super_word WriteLocal (ucast (su_address c)), su_value c]
      | t \<Rightarrow> [super_word t 0])"
  by (cases "su_type c") (simp_all add: encode_super_command_def super_word_def mask_simps)

lemma ucast_u16_u32 [simp]: "ucast (take_bit 16 (ucast (a::u16) :: u32)) = a"
  by (rule bit_word_eqI) (auto simp: bit_simps)

interpretation super_codec:
  command_codec encode_super_command super_commands_from_buffer canonical_super_command "\<lambda>c. c"
proof
  show "super_commands_from_buffer [] = Inr []" by simp
next
  fix c rest
  assume "canonical_super_command c"
  then show "super_commands_from_buffer (encode_super_command c @ rest) =
      result_map (Cons c) (super_commands_from_buffer rest)"
    by (cases c; cases "su_type c")
      (simp_all add: canonical_super_command_def encode_super_command_words super_decode_word
        take_bit_word_self)
next
  fix c ws vs
  assume "canonical_super_command c" "encode_super_command c = ws @ vs" "ws \<noteq> []" "vs \<noteq> []"
  then show "super_commands_from_buffer ws = Inl UndefinedBehaviour"
    by (cases "su_type c")
      (auto simp: canonical_super_command_def encode_super_command_words super_decode_word
        Cons_eq_append_conv append_eq_Cons_conv)
qed

section \<open>Decoding stack commands\<close>

definition width_arg :: "u32 \<Rightarrow> bool \<Rightarrow> u16" where
  "width_arg dw late = ucast (dw OR push_bit 2 (if late then 1 else 0))"

lemma width_arg_fields:
  assumes "unat dw < 4"
  shows "ucast (take_bit 2 (width_arg dw l)) = dw"
    and "drop_bit 2 (width_arg dw l) mod 2 = (if l then 1 else 0)"
    and "ucast (width_arg dw l) = (if l then dw OR 4 else dw)"
  unfolding width_arg_def using u32_less_4 [OF assms] by auto

definition arg24_word :: "u8 \<Rightarrow> u32 \<Rightarrow> u32" where
  "arg24_word t v = push_bit 24 (ucast t) OR take_bit 24 v"

lemma arg24_type: "ucast (drop_bit 24 (arg24_word t v)) = t"
  unfolding arg24_word_def by (rule bit_word_eqI) (auto simp: bit_simps dest: bit_bounds)

lemma arg24_arg: "take_bit 24 (arg24_word t v) = take_bit 24 v"
  unfolding arg24_word_def by (rule bit_word_eqI) (auto simp: bit_simps)

lemma arg24_arg1: "ucast (arg24_word t v) = (ucast v :: u16)"
  unfolding arg24_word_def by (rule bit_word_eqI) (auto simp: bit_simps)

lemma is_stack_command_code:
  "ucast (drop_bit 24 w) = CommandType_code t \<Longrightarrow>
   is_stack_command w \<longleftrightarrow> t \<notin> {Invalid, SoftwareDelay, Custom}"
  by (cases t) (simp_all add: is_stack_command_def mask_simps ucast_take_bit_u32)

lemma take_bit_ucast_u16: "take_bit 16 (ucast (x::u16) :: u32) = ucast x"
  by (rule bit_word_eqI) (auto simp: bit_simps dest: bit_bounds)

lemma encode_read_word:
  assumes "canonical_read c" "sc_type c \<in> {VMERead, VMEReadSwapped, VMEReadMem, VMEReadMemSwapped}"
  shows "encode_stack_command c =
    Inr [command_word (CommandType_code (sc_type c))
           (if is_esst64_mode (sc_amod c) then sc_amod c OR push_bit 6 (sc_rate c) else sc_amod c)
           (if is_block_mode (sc_amod c) then sc_transfers c
            else width_arg (sc_dataWidth c) (sc_lateRead c)),
         sc_address c]"
  using assms block_modes_disjoint [of "sc_amod c"]
  by (auto simp: encode_stack_command_def take_bit_ucast_u16 canonical_read_def command_word_def width_arg_fields(3) decode_rate(3) is_block_mode_iff or.assoc Let_def mask_simps
      simp del: CommandType_code.simps push_bit_or split: if_splits)

lemma encode_accu_words:
  "sc_type c = ReadToAccu \<Longrightarrow> canonical_read c \<Longrightarrow> \<not> is_block_mode (sc_amod c) \<Longrightarrow>
   encode_stack_command c =
     Inr [command_word (CommandType_code ReadToAccu) (sc_amod c)
            (width_arg (sc_dataWidth c) (sc_lateRead c)), sc_address c]"
  "sc_type c = VMEWrite \<Longrightarrow> unat (sc_dataWidth c) < 4 \<Longrightarrow>
   encode_stack_command c =
     Inr [command_word (CommandType_code VMEWrite) (sc_amod c) (width_arg (sc_dataWidth c) False),
          sc_address c, sc_value c]"
  by (simp_all add: encode_stack_command_def canonical_read_def command_word_def width_arg_fields(3)
      or.assoc Let_def del: CommandType_code.simps push_bit_or)

lemma encode_arg24_words:
  "sc_type c \<in> {WriteMarker, SetAccu} \<Longrightarrow>
   encode_stack_command c = Inr [arg24_word (CommandType_code (sc_type c)) 0, sc_value c]"
  "sc_type c \<in> {WriteSpecial, Wait} \<Longrightarrow>
   encode_stack_command c = Inr [arg24_word (CommandType_code (sc_type c)) (sc_value c)]"
  "sc_type c = SignalAccu \<Longrightarrow>
   encode_stack_command c = Inr [arg24_word (CommandType_code SignalAccu) 0]"
  "sc_type c \<in> {MaskShiftAccu, CompareLoopAccu} \<Longrightarrow> unat (sc_value c) < 2 ^ 24 \<Longrightarrow>
   encode_stack_command c =
     Inr [arg24_word (CommandType_code (sc_type c)) (sc_value c), sc_address c]"
  by (auto simp: encode_stack_command_def arg24_word_def mask_simps take_bit_word_self Let_def
      simp del: CommandType_code.simps)

lemmas stack_word_simps =
  mask_simps ucast_take_bit_u32 word_type word_arg0 word_arg1 arg24_type arg24_arg arg24_arg1

lemma decode_read_args_canonical:
  assumes "canonical_read c"
  shows "decode_read_args
      (if is_esst64_mode (sc_amod c) then sc_amod c OR push_bit 6 (sc_rate c) else sc_amod c)
      (if is_block_mode (sc_amod c) then sc_transfers c
       else width_arg (sc_dataWidth c) (sc_lateRead c)) d =
    d\<lparr>sc_amod := sc_amod c,
      sc_rate := (if is_esst64_mode (sc_amod c) then sc_rate c else sc_rate d),
      sc_transfers := (if is_block_mode (sc_amod c) then sc_transfers c else sc_transfers d),
      sc_dataWidth := (if is_block_mode (sc_amod c) then sc_dataWidth d else sc_dataWidth c),
      sc_lateRead := (if is_block_mode (sc_amod c) then sc_lateRead d else sc_lateRead c)\<rparr>"
proof -
  have amod: "take_bit 6 (sc_amod c) = sc_amod c"
    using assms by (simp add: canonical_read_def take_bit_word_self)
  consider (esst) "is_esst64_mode (sc_amod c)" "is_block_mode (sc_amod c)"
    | (blt) "is_blt_mode (sc_amod c) \<or> is_mblt_mode (sc_amod c)" "\<not> is_esst64_mode (sc_amod c)"
        "is_block_mode (sc_amod c)"
    | (single) "\<not> is_block_mode (sc_amod c)" "\<not> is_blt_mode (sc_amod c)"
        "\<not> is_mblt_mode (sc_amod c)" "\<not> is_esst64_mode (sc_amod c)"
    using is_block_mode_iff [of "sc_amod c"] by blast
  then show ?thesis
  proof cases
    case esst
    with assms have "unat (sc_rate c) < 4" "unat (sc_amod c) < 64"
      by (simp_all add: canonical_read_def)
    note rate = decode_rate [OF this(1) esst(1) this(2)]
    show ?thesis using esst rate by (simp add: decode_read_args_def mask_simps)
  next
    case blt
    then show ?thesis by (auto simp: decode_read_args_def mask_simps amod Let_def)
  next
    case single
    with assms have "unat (sc_dataWidth c) < 4" by (simp add: canonical_read_def)
    note width = width_arg_fields [OF this]
    show ?thesis
      using single by (simp add: decode_read_args_def mask_simps amod width)
  qed
qed

lemma decode_type:
  assumes "ucast (drop_bit 24 w) = CommandType_code t"
  shows "is_stack_command w \<longleftrightarrow> t \<notin> {Invalid, SoftwareDelay, Custom}"
    and "CommandType_cast (ucast (drop_bit 24 w)) = Some t"
  using is_stack_command_code [OF assms] assms by simp_all

lemmas decode_step_simps =
  stack_commands_from_buffer.simps(2) mask_simps ucast_take_bit_u32

lemma decode_read_step:
  assumes "ucast (drop_bit 24 w) = CommandType_code t"
    and "t \<in> {VMERead, VMEReadSwapped, VMEReadMem, VMEReadMemSwapped, ReadToAccu}"
  shows "stack_commands_from_buffer (w # a # rest) =
      result_map (Cons ((decode_read_args (ucast (drop_bit 16 w)) (ucast w)
          (StackCommand_init\<lparr>sc_type := t\<rparr>))\<lparr>sc_address := a\<rparr>)) (stack_commands_from_buffer rest)"
    and "stack_commands_from_buffer [w] = Inl UndefinedBehaviour"
  using assms(2) by (auto simp: decode_step_simps decode_type [OF assms(1)] Let_def)

lemma decode_write_step:
  assumes "ucast (drop_bit 24 w) = CommandType_code VMEWrite"
  shows "stack_commands_from_buffer (w # a # v # rest) =
      result_map (Cons (StackCommand_init\<lparr>sc_type := VMEWrite, sc_amod := ucast (drop_bit 16 w),
          sc_dataWidth := ucast (take_bit 2 (ucast w :: u16)), sc_address := a, sc_value := v\<rparr>))
        (stack_commands_from_buffer rest)"
    and "stack_commands_from_buffer [w] = Inl UndefinedBehaviour"
    and "stack_commands_from_buffer [w, a] = Inl UndefinedBehaviour"
  by (simp_all add: decode_step_simps decode_type [OF assms])

lemma decode_value_step:
  assumes "ucast (drop_bit 24 w) = CommandType_code t" and "t \<in> {WriteMarker, SetAccu}"
  shows "stack_commands_from_buffer (w # v # rest) =
      result_map (Cons (StackCommand_init\<lparr>sc_type := t, sc_value := v\<rparr>))
        (stack_commands_from_buffer rest)"
    and "stack_commands_from_buffer [w] = Inl UndefinedBehaviour"
  using assms(2) by (auto simp: decode_step_simps decode_type [OF assms(1)] Let_def)

lemma decode_arg24_step:
  assumes "ucast (drop_bit 24 w) = CommandType_code t"
  shows "t \<in> {WriteSpecial, Wait} \<Longrightarrow> stack_commands_from_buffer (w # rest) =
      result_map (Cons (StackCommand_init\<lparr>sc_type := t, sc_value := take_bit 24 w\<rparr>))
        (stack_commands_from_buffer rest)"
    and "t = SignalAccu \<Longrightarrow> stack_commands_from_buffer (w # rest) =
      result_map (Cons (StackCommand_init\<lparr>sc_type := t\<rparr>)) (stack_commands_from_buffer rest)"
    and "t = MaskShiftAccu \<Longrightarrow> stack_commands_from_buffer (w # a # rest) =
      result_map (Cons (StackCommand_init\<lparr>sc_type := t, sc_value := take_bit 24 w, sc_address := a\<rparr>))
        (stack_commands_from_buffer rest)"
    and "t = CompareLoopAccu \<Longrightarrow> stack_commands_from_buffer (w # a # rest) =
      result_map (Cons (StackCommand_init
          \<lparr>sc_type := t, sc_value := ucast (ucast w :: u16), sc_address := a\<rparr>))
        (stack_commands_from_buffer rest)"
    and "t \<in> {MaskShiftAccu, CompareLoopAccu} \<Longrightarrow>
      stack_commands_from_buffer [w] = Inl UndefinedBehaviour"
  by (auto simp: decode_step_simps decode_type [OF assms] Let_def)

definition encode_stack_words :: "StackCommand \<Rightarrow> u32 list" where
  "encode_stack_words c = (case encode_stack_command c of Inr ws \<Rightarrow> ws | Inl _ \<Rightarrow> [])"

lemma without_comment_eqI:
  assumes "sc_type d = sc_type c" "sc_address d = sc_address c" "sc_value d = sc_value c"
    "sc_amod d = sc_amod c" "sc_dataWidth d = sc_dataWidth c" "sc_transfers d = sc_transfers c"
    "sc_rate d = sc_rate c" "sc_customValues d = sc_customValues c"
    "sc_lateRead d = sc_lateRead c" "sc_comment d = []"
  shows "d = without_comment c"
  using assms by (cases c; cases d) (simp add: without_comment_def)

lemma decode_encode_read:
  assumes "canonical_read c" "sc_customValues c = []"
    "sc_type c \<in> {VMERead, VMEReadSwapped, VMEReadMem, VMEReadMemSwapped}"
  shows "stack_commands_from_buffer (encode_stack_words c @ rest) =
    result_map (Cons (without_comment c)) (stack_commands_from_buffer rest)"
proof -
  have "sc_type c \<in> {VMERead, VMEReadSwapped, VMEReadMem, VMEReadMemSwapped, ReadToAccu}"
    using assms(3) by blast
  note step = decode_read_step(1) [OF word_type this, unfolded word_arg0 word_arg1]
  have "(decode_read_args
      (if is_esst64_mode (sc_amod c) then sc_amod c OR push_bit 6 (sc_rate c) else sc_amod c)
      (if is_block_mode (sc_amod c) then sc_transfers c
       else width_arg (sc_dataWidth c) (sc_lateRead c))
      (StackCommand_init\<lparr>sc_type := sc_type c\<rparr>))\<lparr>sc_address := sc_address c\<rparr> = without_comment c"
    unfolding decode_read_args_canonical [OF assms(1)] using assms
    by (intro without_comment_eqI)
      (auto simp: StackCommand_init_def canonical_read_def is_block_mode_iff split: if_splits)
  then show ?thesis
    using step by (simp add: encode_stack_words_def encode_read_word [OF assms(1,3)]
        del: CommandType_code.simps split del: if_split)
qed

lemma decode_encode_readToAccu:
  assumes "canonical_read c" "\<not> is_block_mode (sc_amod c)" "sc_customValues c = []"
    "sc_type c = ReadToAccu"
  shows "stack_commands_from_buffer (encode_stack_words c @ rest) =
    result_map (Cons (without_comment c)) (stack_commands_from_buffer rest)"
proof -
  have "\<not> is_esst64_mode (sc_amod c)" using assms(2) by (simp add: is_block_mode_iff)
  then have args: "decode_read_args (sc_amod c) (width_arg (sc_dataWidth c) (sc_lateRead c)) d =
      d\<lparr>sc_amod := sc_amod c, sc_dataWidth := sc_dataWidth c, sc_lateRead := sc_lateRead c\<rparr>" for d
    using decode_read_args_canonical [OF assms(1), of d] assms(2) by simp
  have "(StackCommand_init\<lparr>sc_type := ReadToAccu, sc_amod := sc_amod c,
      sc_dataWidth := sc_dataWidth c, sc_lateRead := sc_lateRead c, sc_address := sc_address c\<rparr>)
      = without_comment c"
    using assms by (intro without_comment_eqI) (simp_all add: StackCommand_init_def canonical_read_def)
  then show ?thesis
    using decode_read_step(1) [OF word_type, of ReadToAccu]
    by (simp add: encode_stack_words_def encode_accu_words(1) [OF assms(4,1,2)] args
        word_arg0 word_arg1 del: CommandType_code.simps)
qed

lemma decode_encode_other:
  assumes "canonical_stack_command c"
    "sc_type c \<notin> {VMERead, VMEReadSwapped, VMEReadMem, VMEReadMemSwapped, ReadToAccu}"
  shows "stack_commands_from_buffer (encode_stack_words c @ rest) =
    result_map (Cons (without_comment c)) (stack_commands_from_buffer rest)"
proof (cases "sc_type c = VMEWrite")
  case True
  with assms have dw: "unat (sc_dataWidth c) < 4" by (simp add: canonical_stack_command_def)
  have "StackCommand_init\<lparr>sc_type := VMEWrite, sc_amod := sc_amod c, sc_dataWidth := sc_dataWidth c,
      sc_address := sc_address c, sc_value := sc_value c\<rparr> = without_comment c"
    using True assms
    by (intro without_comment_eqI) (simp_all add: StackCommand_init_def canonical_stack_command_def)
  then show ?thesis
    using decode_write_step(1) [OF word_type]
    by (simp add: encode_stack_words_def encode_accu_words(2) [OF True dw] word_arg0 word_arg1
        width_arg_fields(1) [OF dw] del: CommandType_code.simps)
next
  case False
  have eq: "StackCommand_init\<lparr>sc_type := sc_type c, sc_value := sc_value c,
      sc_address := sc_address c\<rparr> = without_comment c"
    using False assms
    by (intro without_comment_eqI; cases "sc_type c")
      (simp_all add: StackCommand_init_def canonical_stack_command_def no_vme_args_def)
  have ucast16: "unat v < 2 ^ 16 \<Longrightarrow> ucast (ucast v :: u16) = (v :: u32)" for v
    by (simp add: word_unat_eq_iff unsigned_ucast_eq take_bit_word_self)
  show ?thesis
    using False assms eq
    by (cases "sc_type c")
      (simp_all add: encode_stack_words_def encode_arg24_words canonical_stack_command_def
        decode_value_step [OF arg24_type] decode_arg24_step [OF arg24_type] arg24_arg arg24_arg1
        take_bit_word_self ucast16 StackCommand_init_def del: CommandType_code.simps)
qed
interpretation stack_codec:
  command_codec encode_stack_words stack_commands_from_buffer canonical_stack_command without_comment
proof
  show "stack_commands_from_buffer [] = Inr []" by simp
next
  fix c rest
  assume c: "canonical_stack_command c"
  show "stack_commands_from_buffer (encode_stack_words c @ rest) =
      result_map (Cons (without_comment c)) (stack_commands_from_buffer rest)"
  proof (cases "sc_type c \<in> {VMERead, VMEReadSwapped, VMEReadMem, VMEReadMemSwapped, ReadToAccu}")
    case True
    with c show ?thesis
      by (auto simp: canonical_stack_command_def decode_encode_read decode_encode_readToAccu)
  next
    case False
    with c show ?thesis by (rule decode_encode_other)
  qed
next
  fix c ws vs
  assume "canonical_stack_command c" "encode_stack_words c = ws @ vs" "ws \<noteq> []" "vs \<noteq> []"
  then show "stack_commands_from_buffer ws = Inl UndefinedBehaviour"
    by (cases "sc_type c")
      (auto simp: canonical_stack_command_def encode_stack_words_def encode_read_word
        encode_accu_words encode_arg24_words decode_read_step(2) [OF word_type]
        decode_write_step(2,3) [OF word_type] decode_value_step(2) [OF arg24_type]
        decode_arg24_step(5) [OF arg24_type] Cons_eq_append_conv append_eq_Cons_conv
        simp del: CommandType_code.simps)
qed

section \<open>Stack buffers\<close>

lemma encode_canonical:
  "canonical_stack_command c \<Longrightarrow> encode_stack_command c = Inr (encode_stack_words c)"
  by (cases "sc_type c")
    (auto simp: canonical_stack_command_def encode_stack_words_def encode_stack_command_def Let_def
      simp del: CommandType_code.simps)

lemma make_stack_buffer_canonical:
  "\<forall>c\<in>set cs. canonical_stack_command c \<Longrightarrow>
   make_stack_buffer cs = Inr (concat (map encode_stack_words cs))"
  by (induction cs) (simp_all add: encode_canonical)

lemma StackCommand_eq_without_comment: "list_all2 StackCommand_eq (map without_comment cs) cs"
  by (induction cs) (simp_all add: StackCommand_eq_def without_comment_def)

lemma encode_stack_command_Inr:
  "(\<exists>ws. encode_stack_command c = Inr ws) \<longleftrightarrow> sc_type c \<notin> {SoftwareDelay, Invalid}"
  by (cases "sc_type c") (simp_all add: encode_stack_command_def Let_def)

lemma encode_stack_command_length:
  "encode_stack_command c = Inr ws \<Longrightarrow>
   length ws = (if sc_type c = Custom then length (sc_customValues c)
                else get_encoded_size (sc_type c))"
  by (cases "sc_type c") (auto simp: encode_stack_command_def get_encoded_size_def Let_def)

lemma get_encoded_stack_size_sum:
  "get_encoded_stack_size cs = 2 + sum_list (map (\<lambda>c. get_encoded_size (sc_type c)) cs)"
  by (simp add: get_encoded_stack_size_def foldl_add_sum_list)

section \<open>Stack upload\<close>

text \<open>
  The effect a list of super commands has on the memory of the MVLC when only
  its \<open>WriteLocal\<close> commands are looked at.
\<close>

fun write_local_effect :: "SuperCommand list \<Rightarrow> (u16 \<Rightarrow> u32) \<Rightarrow> u16 \<Rightarrow> u32" where
  "write_local_effect [] mem = mem"
| "write_local_effect (c # cs) mem =
     write_local_effect cs
       (if su_type c = WriteLocal then mem(su_address c := su_value c) else mem)"

text \<open>The writes of consecutive words, starting at an address.\<close>

fun word_writes :: "u16 \<Rightarrow> u32 list \<Rightarrow> SuperCommand list" where
  "word_writes address [] = []"
| "word_writes address (w # ws) =
     \<lparr>su_type = WriteLocal, su_address = address, su_value = w\<rparr> #
     word_writes (address + AddressIncrement) ws"

definition stack_image :: "u8 \<Rightarrow> u32 list \<Rightarrow> u32 list" where
  "stack_image outputPipe buf =
     (push_bit 24 (ucast (CommandType_code StackStart)) OR push_bit 16 (ucast outputPipe)) # buf @
     [push_bit 24 (ucast (CommandType_code StackEnd))]"

lemma word_writes_append:
  "word_writes address (vs @ ws) =
   word_writes address vs @ word_writes (address + of_nat (length vs) * AddressIncrement) ws"
  by (induction vs arbitrary: address) (simp_all add: algebra_simps)

lemma upload_loop:
  "foldl (\<lambda>(super, address) stackWord.
       (addWriteLocal super address stackWord, address + AddressIncrement)) (super, address) ws =
   (super_addCommands super (word_writes address ws), address + of_nat (length ws) * AddressIncrement)"
  by (induction ws arbitrary: super address)
    (simp_all add: addWriteLocal_def super_addCommand_def super_addCommands_def algebra_simps)

lemma upload_commands_eq:
  "make_stack_upload_commands_buffer outputPipe offset buf =
   word_writes (StackMemoryBegin + offset) (stack_image outputPipe buf)"
  unfolding make_stack_upload_commands_buffer_def Let_def upload_loop prod.case
  by (simp add: stack_image_def word_writes_append addWriteLocal_def super_addCommand_def
      super_addCommands_def super_getCommands_def SuperCommandBuilder_init_def
      del: CommandType_code.simps)

text \<open>Address arithmetic within the 16-bit address space.\<close>

lemma unat_address:
  "unat a + 4 * i < 2 ^ 16 \<Longrightarrow> unat (a + of_nat i * AddressIncrement) = unat a + 4 * i" for a :: u16
proof -
  assume "unat a + 4 * i < 2 ^ 16"
  moreover have "a + of_nat i * AddressIncrement = of_nat (unat a + 4 * i)" by simp
  ultimately show ?thesis by (simp only: unat_of_nat) simp
qed

lemma unat_next_address:
  "ws \<noteq> [] \<Longrightarrow> unat a + 4 * Suc (length ws) \<le> 2 ^ 16 \<Longrightarrow> unat (a + 4) = unat a + 4" for a :: u16
  using unat_address [of a 1] by (cases ws) simp_all

lemma write_local_effect_outside:
  "unat a + 4 * length ws \<le> 2 ^ 16 \<Longrightarrow> unat b < unat a \<or> unat a + 4 * length ws \<le> unat b \<Longrightarrow>
   write_local_effect (word_writes a ws) mem b = mem b"
proof (induction ws arbitrary: a mem)
  case (Cons w ws)
  then have next_addr: "ws \<noteq> [] \<Longrightarrow> unat (a + 4) = unat a + 4" by (simp add: unat_next_address)
  from Cons.prems have "b \<noteq> a" by auto
  with Cons next_addr show ?case by (cases "ws = []") auto
qed simp

lemma write_local_effect_inside:
  "unat a + 4 * length ws \<le> 2 ^ 16 \<Longrightarrow> i < length ws \<Longrightarrow>
   write_local_effect (word_writes a ws) mem (a + of_nat i * AddressIncrement) = ws ! i"
proof (induction ws arbitrary: a mem i)
  case (Cons w ws)
  then have next_addr: "ws \<noteq> [] \<Longrightarrow> unat (a + 4) = unat a + 4" by (simp add: unat_next_address)
  show ?case
  proof (cases i)
    case 0
    have "write_local_effect (word_writes (a + 4) ws) (mem(a := w)) a = w"
      using write_local_effect_outside [of "a + 4" ws a "mem(a := w)"] next_addr Cons.prems
      by (cases "ws = []") auto
    with 0 show ?thesis by simp
  next
    case (Suc j)
    then have "ws \<noteq> []" using Cons.prems by auto
    then have "write_local_effect (word_writes (a + 4) ws) (mem(a := w))
        ((a + 4) + of_nat j * AddressIncrement) = ws ! j"
      using Suc Cons.prems next_addr by (intro Cons.IH) simp_all
    then show ?thesis using Suc by (simp add: algebra_simps del: fun_upd_apply)
  qed
qed simp

section \<open>Builders with documented arguments\<close>

text \<open>
  The builders a client can reach by calling the methods with arguments in their
  documented ranges: 6-bit address modifiers, the enumerators of the data width,
  2eSST rate and comparator types, 24-bit wait counts.
\<close>

inductive well_built :: "StackCommandBuilder \<Rightarrow> bool" where
  init: "well_built StackCommandBuilder_init"
| group: "well_built b \<Longrightarrow> well_built (beginGroup b name meta)"
| read: "well_built b \<Longrightarrow> unat amod < 64 \<Longrightarrow> \<not> is_block_mode amod \<Longrightarrow> dw \<in> {D16, D32} \<Longrightarrow>
    well_built (addVMERead b address amod dw late fifo)"
| block: "well_built b \<Longrightarrow> unat amod < 64 \<Longrightarrow>
    addVMEBlockRead b address amod transfers fifo = Inr b' \<Longrightarrow> well_built b'"
| block_2eSST: "well_built b \<Longrightarrow> rate \<in> {0, 1, 2} \<Longrightarrow>
    well_built (addVMEBlockRead_2eSST b address rate transfers fifo)"
| swapped: "well_built b \<Longrightarrow> unat amod < 64 \<Longrightarrow>
    addVMEBlockReadSwapped b address amod transfers fifo = Inr b' \<Longrightarrow> well_built b'"
| swapped_2eSST: "well_built b \<Longrightarrow> rate \<in> {0, 1, 2} \<Longrightarrow>
    well_built (addVMEBlockReadSwapped_2eSST b address rate transfers fifo)"
| vme_write: "well_built b \<Longrightarrow> dw \<in> {D16, D32} \<Longrightarrow> well_built (addVMEWrite b address v amod dw)"
| marker: "well_built b \<Longrightarrow> well_built (addWriteMarker b v)"
| wait: "well_built b \<Longrightarrow> unat clocks < 2 ^ 24 \<Longrightarrow> well_built (addWait b clocks)"
| signal: "well_built b \<Longrightarrow> well_built (addSignalAccu b)"
| mask_shift: "well_built b \<Longrightarrow> well_built (addMaskShiftAccu b msk shift)"
| set_accu: "well_built b \<Longrightarrow> well_built (addSetAccu b v)"
| read_accu: "well_built b \<Longrightarrow> unat amod < 64 \<Longrightarrow> \<not> is_block_mode amod \<Longrightarrow> dw \<in> {D16, D32} \<Longrightarrow>
    well_built (addReadToAccu b address amod dw late)"
| compare: "well_built b \<Longrightarrow> well_built (addCompareLoopAccu b cmp v)"
| special: "well_built b \<Longrightarrow> unat v < 2 ^ 24 \<Longrightarrow> well_built (addWriteSpecial b v)"

definition canonical_builder :: "StackCommandBuilder \<Rightarrow> bool" where
  "canonical_builder b \<longleftrightarrow>
     (\<forall>c\<in>set (getCommands b). canonical_stack_command c \<and> sc_comment c = [])"

lemma canonical_builder_add:
  "canonical_builder b \<Longrightarrow> canonical_stack_command c \<Longrightarrow> sc_comment c = [] \<Longrightarrow>
   canonical_builder (addCommand b c)"
  by (auto simp: canonical_builder_def stack_sink.commands_add)

lemma canonical_builder_init: "canonical_builder StackCommandBuilder_init"
  by (simp add: canonical_builder_def getCommands_concat StackCommandBuilder_init_def)

lemma canonical_builder_group: "canonical_builder b \<Longrightarrow> canonical_builder (beginGroup b name meta)"
  by (simp add: canonical_builder_def getCommands_concat beginGroup_def)

lemma unat_ucast_u8: "unat (ucast (x::u8) :: u32) < 65536" "unat (ucast (x::u8) :: u32) < 16777216"
proof -
  have "unat x < 256" using unsigned_less [of x, where 'a = nat] by simp
  then show "unat (ucast (x::u8) :: u32) < 65536" "unat (ucast (x::u8) :: u32) < 16777216"
    using unat_ucast_le [of x, where 'b = 32] by simp_all
qed

lemmas builder_op_defs =
  addVMERead_def addVMEBlockRead_def addVMEBlockRead_2eSST_def addVMEBlockReadSwapped_def
  addVMEBlockReadSwapped_2eSST_def addVMEWrite_def addWriteMarker_def addWait_def addSignalAccu_def
  addMaskShiftAccu_def addSetAccu_def addReadToAccu_def addCompareLoopAccu_def addWriteSpecial_def

lemma well_built_canonical: "well_built b \<Longrightarrow> canonical_builder b"
proof (induction rule: well_built.induct)
  case init
  show ?case by (rule canonical_builder_init)
next
  case group
  then show ?case by (intro canonical_builder_group)
qed (auto simp: builder_op_defs StackCommand_init_def canonical_stack_command_def canonical_read_def
      no_vme_args_def is_block_mode_iff is_blt_mode_def is_mblt_mode_def is_esst64_mode_def
      unat_ucast_u8 split: if_splits intro!: canonical_builder_add)

section \<open>Properties\<close>

text \<open>
  C15. The command buffer of a list of super commands decodes to that list: the
  start and end markers are dropped, every address, value and argument comes
  back.
\<close>

theorem super_commands_roundtrip:
  assumes "\<forall>c\<in>set cs. canonical_super_command c"
  shows "result_map super_getCommands (super_builder_from_buffer (make_command_buffer cs)) = Inr cs"
proof -
  have "super_commands_from_buffer (make_command_buffer cs) = Inr cs"
    using super_codec.decode_encode_list [OF assms, of "[super_word CmdBufferEnd 0]"]
    by (simp add: make_command_buffer_def super_cmd_word_eq super_decode_word)
  then show ?thesis
    by (simp add: super_builder_from_buffer_def super_sink.commands_foldl)
      (simp add: super_getCommands_def SuperCommandBuilder_init_def)
qed

theorem super_commands_roundtrip_witness:
  "result_map super_getCommands (super_builder_from_buffer (make_command_buffer
     [\<lparr>su_type = ReferenceWord, su_address = 0, su_value = 0x1337\<rparr>,
      \<lparr>su_type = WriteLocal, su_address = 0x2004, su_value = 0x12345678\<rparr>])) =
   Inr [\<lparr>su_type = ReferenceWord, su_address = 0, su_value = 0x1337\<rparr>,
      \<lparr>su_type = WriteLocal, su_address = 0x2004, su_value = 0x12345678\<rparr>]"
  by (rule super_commands_roundtrip) (simp add: canonical_super_command_def)

text \<open>
  C13. Stacks built with arguments in their documented ranges survive the way
  through the binary stack format: encoding succeeds and decoding the stack
  buffer gives the very commands of the builder, whatever their order and
  grouping.
\<close>

theorem stack_commands_roundtrip:
  assumes "well_built b"
  shows "result_bind (make_stack_buffer (getCommands b)) stack_commands_from_buffer =
         Inr (getCommands b)"
proof -
  have can: "\<forall>c\<in>set (getCommands b). canonical_stack_command c"
    and "\<forall>c\<in>set (getCommands b). sc_comment c = []"
    using well_built_canonical [OF assms] by (simp_all add: canonical_builder_def)
  then have "map without_comment (getCommands b) = getCommands b"
    by (intro map_idI) (simp add: without_comment_def)
  with can stack_codec.decode_all [of "getCommands b"] show ?thesis
    by (simp add: make_stack_buffer_canonical)
qed

theorem stack_commands_roundtrip_witness:
  "(let b = addWait (addVMERead StackCommandBuilder_init 0x6030 9 D16 True True) 1000 in
      result_bind (make_stack_buffer (getCommands b)) stack_commands_from_buffer =
      Inr (getCommands b))"
  unfolding Let_def
  by (rule stack_commands_roundtrip, rule well_built.wait, rule well_built.read, rule well_built.init)
    (simp_all add: is_block_mode_def)

text \<open>
  C36. A stack buffer that ends within a command makes the decoder run past the
  end of its input: the missing argument leaves the iterator at the end, the loop
  increments it once more and the end is never seen.
\<close>

theorem stack_decode_truncated:
  assumes "\<forall>c\<in>set cs. canonical_stack_command c" and "canonical_stack_command c"
    and "make_stack_buffer cs = Inr vs"
    and "encode_stack_command c = Inr ws" and "0 < n" and "n < length ws"
  shows "stack_commands_from_buffer (vs @ take n ws) = Inl UndefinedBehaviour"
proof -
  have "vs = concat (map encode_stack_words cs)" "encode_stack_words c = ws"
    using assms(3,4) make_stack_buffer_canonical [OF assms(1)] encode_canonical [OF assms(2)]
    by simp_all
  moreover have "take n ws \<noteq> []" "drop n ws \<noteq> []" using assms(5,6) by auto
  ultimately show ?thesis
    using stack_codec.decode_truncated [OF assms(1,2), of "take n ws" "drop n ws"] by simp
qed

theorem stack_decode_truncated_witness:
  "stack_commands_from_buffer ([0xC6000000] @ take 1 [0xC2000000, 42]) = Inl UndefinedBehaviour"
  by (rule stack_decode_truncated
      [where cs = "[StackCommand_init\<lparr>sc_type := SignalAccu\<rparr>]"
        and c = "StackCommand_init\<lparr>sc_type := WriteMarker, sc_value := 42\<rparr>"])
    (simp_all add: canonical_stack_command_def no_vme_args_def StackCommand_init_def
      encode_stack_command_def)

text \<open>
  C32. Encoding a stack fails exactly when it contains a software delay or an
  invalid command.
\<close>

theorem make_stack_buffer_fails_iff:
  "make_stack_buffer cs = Inl RuntimeError \<longleftrightarrow>
     (\<exists>c\<in>set cs. sc_type c = SoftwareDelay \<or> sc_type c = Invalid)"
proof (induction cs)
  case (Cons c cs)
  have fail: "encode_stack_command c = Inl RuntimeError \<longleftrightarrow>
      sc_type c = SoftwareDelay \<or> sc_type c = Invalid"
    by (cases "sc_type c") (simp_all add: encode_stack_command_def Let_def)
  have err: "make_stack_buffer xs = Inl e \<Longrightarrow> e = RuntimeError" for xs e
  proof (induction xs)
    case (Cons x xs)
    then show ?case
      by (cases "sc_type x"; cases "make_stack_buffer xs")
        (simp_all add: encode_stack_command_def Let_def)
  qed simp
  show ?case
  proof (cases "encode_stack_command c")
    case (Inl e)
    then have "e = RuntimeError"
      by (cases "sc_type c") (simp_all add: encode_stack_command_def Let_def)
    with Inl fail show ?thesis by auto
  next
    case (Inr ws)
    with fail Cons.IH err [of cs] show ?thesis by (cases "make_stack_buffer cs") auto
  qed
qed simp

text \<open>
  C33. \<open>get_encoded_stack_size\<close> predicts the size of an encoded stack, start and
  end words included, except for custom commands: it counts one word for each,
  where the encoder writes all custom values.
\<close>

theorem get_encoded_stack_size_correct:
  assumes "make_stack_buffer cs = Inr ws"
  shows "get_encoded_stack_size cs +
           sum_list (map (\<lambda>c. length (sc_customValues c)) (filter (\<lambda>c. sc_type c = Custom) cs)) =
         length ws + 2 + length (filter (\<lambda>c. sc_type c = Custom) cs)"
  using assms
proof (induction cs arbitrary: ws)
  case (Cons c cs)
  then obtain vs us where "encode_stack_command c = Inr vs" "make_stack_buffer cs = Inr us"
    "ws = vs @ us" by auto
  with Cons.IH [of us] encode_stack_command_length [of c vs] show ?case
    by (cases "sc_type c = Custom") (simp_all add: get_encoded_stack_size_sum get_encoded_size_def)
qed (simp add: get_encoded_stack_size_def)

theorem get_encoded_stack_size_correct_witness:
  "get_encoded_stack_size
     [StackCommand_init\<lparr>sc_type := SignalAccu\<rparr>,
      StackCommand_init\<lparr>sc_type := Custom, sc_customValues := [1, 2, 3]\<rparr>] + 3 = 4 + 2 + 1"
  using get_encoded_stack_size_correct
    [of "[StackCommand_init\<lparr>sc_type := SignalAccu\<rparr>,
      StackCommand_init\<lparr>sc_type := Custom, sc_customValues := [1, 2, 3]\<rparr>]"
      "[0xC6000000, 1, 2, 3]"]
  by (simp add: StackCommand_init_def encode_stack_command_def)

text \<open>
  C14. Uploading a stack that fits into the stack memory writes the start word
  with the output pipe, the encoded commands and the end word to consecutive
  word addresses from the given offset on, and touches no other address.
\<close>

theorem stack_upload_writes_image:
  assumes "make_stack_upload_commands outputPipe offset cs = Inr up"
    and "make_stack_buffer cs = Inr buf"
    and "unat offset + 4 * length (stack_image outputPipe buf) \<le> 8192"
  shows "(\<forall>i. i < length (stack_image outputPipe buf) \<longrightarrow>
            write_local_effect up mem (StackMemoryBegin + offset + of_nat i * AddressIncrement) =
            stack_image outputPipe buf ! i) \<and>
         (\<forall>a. unat a < 8192 + unat offset \<or>
              8192 + unat offset + 4 * length (stack_image outputPipe buf) \<le> unat a \<longrightarrow>
            write_local_effect up mem a = mem a)"
proof -
  have up: "up = word_writes (StackMemoryBegin + offset) (stack_image outputPipe buf)"
    using assms(1,2) by (simp add: make_stack_upload_commands_def upload_commands_eq)
  have "StackMemoryBegin + offset = of_nat (8192 + unat offset)" by simp
  then have base: "unat (StackMemoryBegin + offset) = 8192 + unat offset"
    using assms(3) by (simp only: unat_of_nat) (simp add: stack_image_def)
  then have "unat (StackMemoryBegin + offset) + 4 * length (stack_image outputPipe buf) \<le> 2 ^ 16"
    using assms(3) by simp
  note fits = this
  show ?thesis
    unfolding up using write_local_effect_inside [OF fits] write_local_effect_outside [OF fits]
    by (simp add: base)
qed

theorem stack_upload_writes_image_witness:
  "write_local_effect
     (word_writes (StackMemoryBegin + 4) (stack_image 1 [0xC6000000])) (\<lambda>_. 0)
     (StackMemoryBegin + 4 + of_nat 1 * AddressIncrement) = 0xC6000000"
  using stack_upload_writes_image
    [of 1 4 "[StackCommand_init\<lparr>sc_type := SignalAccu\<rparr>]"
       "word_writes (StackMemoryBegin + 4) (stack_image 1 [0xC6000000])" "[0xC6000000]" "\<lambda>_. 0"]
  by (simp add: make_stack_upload_commands_def upload_commands_eq StackCommand_init_def
      encode_stack_command_def stack_image_def)

end
