(* ===== verification/Mvlc_Text.thy ===== *)
theory Mvlc_Text
  imports Mvlc_Prelude
begin

text \<open>
  The text functions the command and configuration code is built on:
  \<open>util/string_util.h\<close>, the integer presentations of \<open>fmt::format\<close> it uses
  (\<open>{}\<close>, \<open>{:#0Nx}\<close> and \<open>{:0Nx}\<close>), \<open>std::stoul\<close>/\<open>std::stoull\<close> with base 0 on
  64-bit integers, and the extraction of blank-separated words from an
  \<open>std::istringstream\<close>. The lemmas show that reading a printed number gives the
  number back.
\<close>

section \<open>Digits\<close>

fun digits_of :: "nat \<Rightarrow> nat \<Rightarrow> nat list" where
  "digits_of b n =
     (if b < 2 \<or> n < b then [n] else digits_of b (n div b) @ [n mod b])"

declare digits_of.simps [simp del]

definition digit_char :: "nat \<Rightarrow> char" where
  "digit_char d = (if d < 10 then char_of (48 + d) else char_of (87 + d))"

definition digit_value :: "char \<Rightarrow> nat option" where
  "digit_value c =
     (let n = of_char c :: nat
      in if 48 \<le> n \<and> n \<le> 57 then Some (n - 48)
         else if 97 \<le> n \<and> n \<le> 122 then Some (n - 87)
         else if 65 \<le> n \<and> n \<le> 90 then Some (n - 55)
         else None)"

definition is_digit :: "nat \<Rightarrow> char \<Rightarrow> bool" where
  "is_digit b c \<longleftrightarrow> (case digit_value c of Some d \<Rightarrow> d < b | None \<Rightarrow> False)"

definition digits_value :: "nat \<Rightarrow> string \<Rightarrow> nat" where
  "digits_value b s = foldl (\<lambda>acc c. acc * b + the (digit_value c)) 0 s"

section \<open>Printing\<close>

definition fmt_dec :: "nat \<Rightarrow> string" where
  "fmt_dec n = map digit_char (digits_of 10 n)"

text \<open>\<open>{:0Nx}\<close>: hexadecimal, filled with zeros to \<open>N\<close> characters.\<close>

definition fmt_hex_plain :: "nat \<Rightarrow> nat \<Rightarrow> string" where
  "fmt_hex_plain width n =
     (let ds = map digit_char (digits_of 16 n) in replicate (width - length ds) (CHR ''0'') @ ds)"

text \<open>\<open>{:#0Nx}\<close>: the prefix \<open>0x\<close> counts for the width.\<close>

definition fmt_hex :: "nat \<Rightarrow> nat \<Rightarrow> string" where
  "fmt_hex width n = ''0x'' @ fmt_hex_plain (width - 2) n"

section \<open>std::stoul with base 0\<close>

definition isspace :: "char \<Rightarrow> bool" where
  "isspace c \<longleftrightarrow> (let n = of_char c :: nat in n = 32 \<or> (9 \<le> n \<and> n \<le> 13))"

text \<open>The base prefix: \<open>0x\<close> only counts when a hexadecimal digit follows.\<close>

fun detect_base :: "string \<Rightarrow> nat \<times> string" where
  "detect_base (c # d # e # s) =
     (if c = CHR ''0'' \<and> (d = CHR ''x'' \<or> d = CHR ''X'') \<and> is_digit 16 e then (16, e # s)
      else if c = CHR ''0'' then (8, c # d # e # s) else (10, c # d # e # s))"
| "detect_base (c # s) = (if c = CHR ''0'' then (8, c # s) else (10, c # s))"
| "detect_base [] = (10, [])"

definition parse_sign :: "string \<Rightarrow> bool \<times> string" where
  "parse_sign s =
     (case s of c # s' \<Rightarrow>
        if c = CHR ''-'' then (True, s') else if c = CHR ''+'' then (False, s') else (False, s)
      | [] \<Rightarrow> (False, []))"

text \<open>The value and the number of unread characters.\<close>

definition stoul_pos :: "string \<Rightarrow> (nat \<times> nat) result" where
  "stoul_pos s =
     (let (neg, s1) = parse_sign (dropWhile isspace s);
          (b, s2) = detect_base s1;
          ds = takeWhile (is_digit b) s2;
          v = digits_value b ds
      in if ds = [] then Inl InvalidArgument
         else if 2 ^ 64 \<le> v then Inl OutOfRange
         else Inr (if neg then (2 ^ 64 - v) mod 2 ^ 64 else v, length (dropWhile (is_digit b) s2)))"

definition stoul :: "string \<Rightarrow> nat result" where
  "stoul s = result_map fst (stoul_pos s)"

section \<open>string\_util.h\<close>

fun join :: "string list \<Rightarrow> string \<Rightarrow> string" where
  "join [] sep = []"
| "join [p] sep = p"
| "join (p # q # parts) sep = p @ sep @ join (q # parts) sep"

definition tolower :: "char \<Rightarrow> char" where
  "tolower c = (let n = of_char c :: nat in if 65 \<le> n \<and> n \<le> 90 then char_of (n + 32) else c)"

definition str_tolower :: "string \<Rightarrow> string" where
  "str_tolower s = map tolower s"

definition trim_space :: "char \<Rightarrow> bool" where
  "trim_space c \<longleftrightarrow> c \<in> set [CHR '' '', CHR 0x0A, CHR 0x0D, CHR 0x09]"

definition trimmed :: "string \<Rightarrow> string" where
  "trimmed s = dropWhile trim_space (rev (dropWhile trim_space (rev s)))"

text \<open>The template parameter enters through the largest value of the type.\<close>

definition parse_unsigned :: "nat \<Rightarrow> string \<Rightarrow> nat option" where
  "parse_unsigned type_max input =
     (let str = trimmed input
      in if str = [] then None
         else case stoul_pos str of
           Inl _ \<Rightarrow> None
         | Inr (parsed, unread) \<Rightarrow>
           if unread \<noteq> 0 then None
           else if type_max < parsed then None
           else Some parsed)"

section \<open>Words of a line\<close>

function tokens :: "string \<Rightarrow> string list" where
  "tokens s =
     (let s1 = dropWhile isspace s
      in if s1 = [] then []
         else takeWhile (\<lambda>c. \<not> isspace c) s1 # tokens (dropWhile (\<lambda>c. \<not> isspace c) s1))"
  by pat_completeness auto
termination
proof (relation "measure length")
  fix s s1 :: string
  assume s1: "s1 = dropWhile isspace s" "s1 \<noteq> []"
  then have "\<not> isspace (hd s1)" by (metis hd_dropWhile)
  with s1(2) have "length (dropWhile (\<lambda>c. \<not> isspace c) s1) < length s1"
    by (cases s1) (auto simp: le_imp_less_Suc length_dropWhile_le)
  also have "\<dots> \<le> length s" using s1(1) by (simp add: length_dropWhile_le)
  finally show "(dropWhile (\<lambda>c. \<not> isspace c) s1, s) \<in> measure length" by simp
qed simp

declare tokens.simps [simp del]

section \<open>Reading printed numbers\<close>

lemma digits_of_less: "2 \<le> b \<Longrightarrow> d \<in> set (digits_of b n) \<Longrightarrow> d < b"
proof (induction b n rule: digits_of.induct)
  case (1 b n)
  then show ?case by (subst (asm) (2) digits_of.simps) (auto split: if_splits)
qed

lemma digits_of_value:
  "2 \<le> b \<Longrightarrow> foldl (\<lambda>acc d. acc * b + d) 0 (digits_of b n) = n"
proof (induction b n rule: digits_of.induct)
  case (1 b n)
  then show ?case by (subst digits_of.simps) auto
qed

lemma digits_of_not_Nil [simp]: "digits_of b n \<noteq> []"
  by (subst digits_of.simps) simp

lemma digits_of_hd:
  "2 \<le> b \<Longrightarrow> n \<noteq> 0 \<Longrightarrow> hd (digits_of b n) \<noteq> 0"
proof (induction b n rule: digits_of.induct)
  case (1 b n)
  then show ?case by (subst digits_of.simps) (auto simp: div_eq_0_iff)
qed

lemma digit_value_char: "d < 16 \<Longrightarrow> digit_value (digit_char d) = Some d"
  by (auto simp: digit_value_def digit_char_def of_char_of)

lemma digit_char_inj: "d < 16 \<Longrightarrow> e < 16 \<Longrightarrow> digit_char d = digit_char e \<longleftrightarrow> d = e"
  by (metis digit_value_char option.inject)

lemma is_digit_char: "d < b \<Longrightarrow> b \<le> 16 \<Longrightarrow> is_digit b (digit_char d)"
  by (simp add: is_digit_def digit_value_char)

lemma digit_char_0: "digit_char 0 = CHR ''0''"
  by code_simp

lemma digits_value_map:
  "\<forall>d\<in>set ds. d < 16 \<Longrightarrow>
   foldl (\<lambda>acc c. acc * b + the (digit_value c)) a (map digit_char ds) =
   foldl (\<lambda>acc d. acc * b + d) a ds"
  by (induction ds arbitrary: a) (simp_all add: digit_value_char)

lemma digits_value_printed:
  "2 \<le> b \<Longrightarrow> b \<le> 16 \<Longrightarrow> digits_value b (map digit_char (digits_of b n)) = n"
  unfolding digits_value_def
  by (subst digits_value_map) (auto dest: digits_of_less simp: digits_of_value)

lemma digits_value_zeros: "digits_value b (replicate k (CHR ''0'') @ s) = digits_value b s"
proof -
  have "digit_value (CHR ''0'') = Some 0" by code_simp
  then have "foldl (\<lambda>acc c. acc * b + the (digit_value c)) 0 (replicate k (CHR ''0'')) = 0"
    by (induction k) simp_all
  then show ?thesis by (simp add: digits_value_def)
qed

lemma printed_digits:
  "2 \<le> b \<Longrightarrow> b \<le> 16 \<Longrightarrow> \<forall>c\<in>set (map digit_char (digits_of b n)). is_digit b c"
  by (auto intro!: is_digit_char dest: digits_of_less)

lemma is_digit_not_space: "is_digit b c \<Longrightarrow> \<not> isspace c"
  by (auto simp: is_digit_def digit_value_def isspace_def Let_def split: option.splits if_splits)

lemma is_digit_not_sign: "is_digit b c \<Longrightarrow> c \<noteq> CHR ''-'' \<and> c \<noteq> CHR ''+''"
  by (auto simp: is_digit_def digit_value_def Let_def split: option.splits if_splits)

lemma detect_base_hex: "\<forall>c\<in>set ds. is_digit 16 c \<Longrightarrow> ds \<noteq> [] \<Longrightarrow> detect_base (''0x'' @ ds) = (16, ds)"
  by (cases ds) simp_all

lemma detect_base_dec: "c \<noteq> CHR ''0'' \<Longrightarrow> detect_base (c # s) = (10, c # s)"
  by (cases s; cases "tl s") simp_all

lemma takeWhile_digits:
  "\<forall>c\<in>set ds. is_digit b c \<Longrightarrow> takeWhile (is_digit b) ds = ds"
  "\<forall>c\<in>set ds. is_digit b c \<Longrightarrow> dropWhile (is_digit b) ds = []"
  by simp_all

lemma stoul_pos_fmt_hex: "n < 2 ^ 64 \<Longrightarrow> stoul_pos (fmt_hex w n) = Inr (n, 0)"
proof -
  assume "n < 2 ^ 64"
  define ds where "ds = fmt_hex_plain (w - 2) n"
  have zero: "is_digit 16 (CHR ''0'')" by code_simp
  have ds: "\<forall>c\<in>set ds. is_digit 16 c" "ds \<noteq> []" "digits_value 16 ds = n"
    using zero printed_digits [of 16 n]
    by (auto simp: ds_def fmt_hex_plain_def Let_def digits_value_zeros digits_value_printed)
  have sp: "\<not> isspace (CHR ''0'')" by code_simp
  have "stoul_pos (''0x'' @ ds) = Inr (n, 0)"
    using \<open>n < 2 ^ 64\<close> ds(2,3) detect_base_hex [OF ds(1,2)]
    by (simp add: stoul_pos_def parse_sign_def sp takeWhile_digits [OF ds(1)] Let_def)
  then show ?thesis by (simp add: fmt_hex_def ds_def)
qed

lemma stoul_pos_fmt_dec: "n < 2 ^ 64 \<Longrightarrow> stoul_pos (fmt_dec n) = Inr (n, 0)"
proof (cases "n = 0")
  case True
  have "fmt_dec 0 = ''0''" by (simp add: fmt_dec_def digits_of.simps digit_char_0)
  moreover have "is_digit 8 (CHR ''0'')" "\<not> isspace (CHR ''0'')" "digits_value 8 ''0'' = 0"
    by code_simp+
  ultimately show ?thesis using True by (simp add: stoul_pos_def parse_sign_def)
next
  case False
  assume n: "n < 2 ^ 64"
  obtain c s where cs: "fmt_dec n = c # s" by (cases "fmt_dec n") (auto simp: fmt_dec_def)
  have ds: "\<forall>d\<in>set (fmt_dec n). is_digit 10 d" "digits_value 10 (fmt_dec n) = n"
    using printed_digits [of 10 n] by (auto simp: fmt_dec_def digits_value_printed)
  have hd: "hd (digits_of 10 n) < 10" "hd (digits_of 10 n) \<noteq> 0"
    using False digits_of_hd [of 10 n] digits_of_less [of 10 "hd (digits_of 10 n)" n] by simp_all
  have c: "c = digit_char (hd (digits_of 10 n))"
    using cs by (cases "digits_of 10 n") (auto simp: fmt_dec_def)
  have "c \<noteq> CHR ''0''"
    unfolding c using hd digit_char_inj [of "hd (digits_of 10 n)" 0] by (simp add: digit_char_0)
  moreover have "\<not> isspace c" "c \<noteq> CHR ''-''" "c \<noteq> CHR ''+''"
    using ds(1) cs is_digit_not_space is_digit_not_sign by auto
  ultimately show ?thesis
    using n ds(2) takeWhile_digits [OF ds(1)]
    by (simp add: stoul_pos_def parse_sign_def cs detect_base_dec Let_def)
qed

lemma stoul_fmt [simp]:
  "n < 2 ^ 64 \<Longrightarrow> stoul (fmt_hex w n) = Inr n"
  "n < 2 ^ 64 \<Longrightarrow> stoul (fmt_dec n) = Inr n"
  by (simp_all add: stoul_def stoul_pos_fmt_hex stoul_pos_fmt_dec)

section \<open>Words of a printed line\<close>

definition is_word :: "string \<Rightarrow> bool" where
  "is_word t \<longleftrightarrow> t \<noteq> [] \<and> (\<forall>c\<in>set t. \<not> isspace c)"

text \<open>Format strings of the command printer consist of words separated by single blanks.\<close>

definition fmt_words :: "string list \<Rightarrow> string" where
  "fmt_words ws = join ws '' ''"

lemma tokens_Nil [simp]: "tokens [] = []"
  by (simp add: tokens.simps)

lemma isspace_blank: "isspace (CHR '' '')"
  by code_simp

lemma tokens_blank: "tokens (CHR '' '' # s) = tokens s"
  by (subst (1 2) tokens.simps) (simp add: isspace_blank)

lemma tokens_word: "is_word t \<Longrightarrow> tokens (t @ CHR '' '' # s) = t # tokens s"
proof -
  assume t: "is_word t"
  then obtain c u where cu: "t = c # u" by (cases t) (auto simp: is_word_def)
  have "dropWhile isspace (t @ CHR '' '' # s) = t @ CHR '' '' # s"
    using t cu by (simp add: is_word_def)
  moreover have "takeWhile (\<lambda>c. \<not> isspace c) (t @ CHR '' '' # s) = t"
    "dropWhile (\<lambda>c. \<not> isspace c) (t @ CHR '' '' # s) = CHR '' '' # s"
    using t by (simp_all add: is_word_def isspace_blank)
  ultimately show ?thesis using cu by (subst tokens.simps) (simp add: tokens_blank)
qed

lemma tokens_single: "is_word t \<Longrightarrow> tokens t = [t]"
proof -
  assume t: "is_word t"
  then obtain c u where cu: "t = c # u" by (cases t) (auto simp: is_word_def)
  have "dropWhile isspace t = t" using t cu by (simp add: is_word_def)
  moreover have "takeWhile (\<lambda>c. \<not> isspace c) t = t" "dropWhile (\<lambda>c. \<not> isspace c) t = []"
    using t by (simp_all add: is_word_def)
  ultimately show ?thesis using cu by (subst tokens.simps) simp
qed

lemma tokens_fmt_words: "\<forall>w\<in>set ws. is_word w \<Longrightarrow> tokens (fmt_words ws) = ws"
proof (induction ws rule: induct_list012)
  case (3 p q parts)
  then show ?case by (simp add: fmt_words_def tokens_word)
qed (simp_all add: fmt_words_def tokens_single)

lemma is_word_fmt [simp]: "is_word (fmt_dec n)" "is_word (fmt_hex w n)"
proof -
  have sp: "\<not> isspace (CHR ''0'')" "\<not> isspace (CHR ''x'')" by code_simp+
  show "is_word (fmt_dec n)" "is_word (fmt_hex w n)"
    using printed_digits [of 10 n] printed_digits [of 16 n] sp
    by (auto simp: is_word_def fmt_dec_def fmt_hex_def fmt_hex_plain_def Let_def
        dest!: is_digit_not_space)
qed

end
