(* ===== verification/Mvlc_Command_Text.thy ===== *)
theory Mvlc_Command_Text
  imports Mvlc_Commands Mvlc_Text
begin

text \<open>
  The textual form of commands, \<open>to_string\<close> and \<open>stack_command_from_string\<close> of
  \<open>mvlc_command_builders.cc\<close>. Custom commands are printed and read as YAML by
  the yaml-cpp library, which is not part of the sources: its emitter and its
  loader are arguments of the two functions.
\<close>

section \<open>Printing\<close>

definition accu_comparator_to_string :: "u8 \<Rightarrow> string result" where
  "accu_comparator_to_string comparator =
     (if comparator = Accu_EQ then Inr ''eq''
      else if comparator = Accu_LT then Inr ''lt''
      else if comparator = Accu_GT then Inr ''gt''
      else Inl RuntimeError)"

definition accu_comparator_from_string :: "string \<Rightarrow> u8 result" where
  "accu_comparator_from_string comparator =
     (if comparator = ''eq'' then Inr Accu_EQ
      else if comparator = ''lt'' then Inr Accu_LT
      else if comparator = ''gt'' then Inr Accu_GT
      else Inl RuntimeError)"

definition vme_data_width_to_string :: "u32 \<Rightarrow> string result" where
  "vme_data_width_to_string dw =
     (if dw = D16 then Inr ''d16'' else if dw = D32 then Inr ''d32'' else Inl RuntimeError)"

definition vme_data_width_from_string :: "string \<Rightarrow> u32 result" where
  "vme_data_width_from_string str =
     (let dwStr = str_tolower str
      in if dwStr = ''d16'' \<or> dwStr = ''16'' then Inr D16
         else if dwStr = ''d32'' \<or> dwStr = ''32'' then Inr D32
         else Inl RuntimeError)"

definition parse_vme_datawidth :: "string \<Rightarrow> u32 option" where
  "parse_vme_datawidth str =
     (case vme_data_width_from_string str of Inr dw \<Rightarrow> Some dw | Inl _ \<Rightarrow> None)"

definition super_to_string :: "SuperCommand \<Rightarrow> string" where
  "super_to_string cmd =
     (case su_type cmd of
        CmdBufferStart \<Rightarrow> ''cmd_buffer_start''
      | CmdBufferEnd \<Rightarrow> ''cmd_buffer_end''
      | ReferenceWord \<Rightarrow> fmt_words [''reference_word'', fmt_hex 6 (unat (su_value cmd))]
      | ReadLocal \<Rightarrow> fmt_words [''read_local'', fmt_hex 6 (unat (su_address cmd))]
      | ReadLocalBlock \<Rightarrow>
          fmt_words [''read_local_block'', fmt_hex 6 (unat (su_address cmd)), fmt_dec (unat (su_value cmd))]
      | WriteLocal \<Rightarrow>
          fmt_words [''write_local'', fmt_hex 6 (unat (su_address cmd)), fmt_hex 10 (unat (su_value cmd))]
      | WriteReset \<Rightarrow> ''write_reset''
      | EthDelay \<Rightarrow> ''eth_delay'')"

text \<open>A read of a single value: amod, data width and address, then the late flag.\<close>

definition single_read_to_string :: "string \<Rightarrow> StackCommand \<Rightarrow> string result" where
  "single_read_to_string name cmd =
     result_map
       (\<lambda>dw. fmt_words ([name, fmt_hex 4 (unat (sc_amod cmd)), dw, fmt_hex 10 (unat (sc_address cmd))] @
                         (if sc_lateRead cmd then [''late''] else [])))
       (vme_data_width_to_string (sc_dataWidth cmd))"

text \<open>A block read: amod, transfers and address, then the rate of a 2eSST read.\<close>

definition block_read_to_string :: "string \<Rightarrow> StackCommand \<Rightarrow> string" where
  "block_read_to_string name cmd =
     (if is_esst64_mode (sc_amod cmd)
      then fmt_words [name, fmt_hex 4 (unat (sc_amod cmd)), fmt_dec (unat (sc_transfers cmd)),
                      fmt_hex 10 (unat (sc_address cmd)), fmt_dec (unat (sc_rate cmd))]
      else fmt_words [name, fmt_hex 4 (unat (sc_amod cmd)), fmt_dec (unat (sc_transfers cmd)),
                      fmt_hex 10 (unat (sc_address cmd))])"

definition stack_to_string :: "(u16 \<Rightarrow> u32 list \<Rightarrow> string) \<Rightarrow> StackCommand \<Rightarrow> string result" where
  "stack_to_string yaml_emit cmd =
     (case sc_type cmd of
        Invalid \<Rightarrow> Inr ''invalid''
      | StackStart \<Rightarrow> Inr ''stack_start''
      | StackEnd \<Rightarrow> Inr ''stack_end''
      | VMERead \<Rightarrow>
          if \<not> is_block_mode (sc_amod cmd) then single_read_to_string ''vme_read'' cmd
          else Inr (block_read_to_string ''vme_block_read'' cmd)
      | VMEReadSwapped \<Rightarrow>
          if \<not> is_block_mode (sc_amod cmd) then single_read_to_string ''vme_read'' cmd
          else Inr (block_read_to_string ''vme_block_read_swapped'' cmd)
      | VMEReadMem \<Rightarrow>
          if \<not> is_block_mode (sc_amod cmd) then single_read_to_string ''vme_read_mem'' cmd
          else Inr (block_read_to_string ''vme_block_read_mem'' cmd)
      | VMEReadMemSwapped \<Rightarrow>
          if \<not> is_block_mode (sc_amod cmd) then single_read_to_string ''vme_read'' cmd
          else Inr (block_read_to_string ''vme_block_read_mem_swapped'' cmd)
      | VMEWrite \<Rightarrow>
          result_map
            (\<lambda>dw. fmt_words [''vme_write'', fmt_hex 4 (unat (sc_amod cmd)), dw,
                              fmt_hex 10 (unat (sc_address cmd)), fmt_hex 10 (unat (sc_value cmd))])
            (vme_data_width_to_string (sc_dataWidth cmd))
      | WriteMarker \<Rightarrow> Inr (fmt_words [''write_marker'', fmt_hex 10 (unat (sc_value cmd))])
      | WriteSpecial \<Rightarrow> Inr (fmt_words [''write_special'', fmt_dec (unat (sc_value cmd))])
      | Wait \<Rightarrow> Inr (fmt_words [''wait'', fmt_dec (unat (sc_value cmd))])
      | SignalAccu \<Rightarrow> Inr ''signal_accu''
      | MaskShiftAccu \<Rightarrow>
          Inr (fmt_words [''mask_shift_accu'', fmt_hex 10 (unat (sc_address cmd)),
                          fmt_dec (unat (sc_value cmd))])
      | SetAccu \<Rightarrow> Inr (fmt_words [''set_accu'', fmt_dec (unat (sc_value cmd))])
      | ReadToAccu \<Rightarrow> single_read_to_string ''read_to_accu'' cmd
      | CompareLoopAccu \<Rightarrow>
          result_map
            (\<lambda>comparator. fmt_words [''compare_loop_accu'', comparator, fmt_dec (unat (sc_address cmd))])
            (accu_comparator_to_string (ucast (sc_value cmd)))
      | SoftwareDelay \<Rightarrow> Inr (fmt_words [''software_delay'', fmt_dec (unat (sc_value cmd))])
      | Custom \<Rightarrow> Inr (yaml_emit (sc_transfers cmd) (sc_customValues cmd)))"

section \<open>Parsing\<close>

text \<open>
  The arguments are extracted one after the other into the same string
  variable, \<open>iss >> arg\<close>: when the line has no further word the extraction
  leaves the variable as it is. The state is the variable and the words left.
\<close>

type_synonym arg_state = "string \<times> string list"

fun next_arg :: "arg_state \<Rightarrow> arg_state" where
  "next_arg (arg, []) = (arg, [])"
| "next_arg (arg, w # ws) = (w, ws)"

text \<open>The next argument as an unsigned long.\<close>

definition ulong_arg :: "arg_state \<Rightarrow> (nat \<times> arg_state) result" where
  "ulong_arg st = (let st' = next_arg st in result_map (\<lambda>v. (v, st')) (stoul (fst st')))"

definition width_arg_text :: "arg_state \<Rightarrow> (u32 \<times> arg_state) result" where
  "width_arg_text st =
     (let st' = next_arg st in result_map (\<lambda>v. (v, st')) (vme_data_width_from_string (fst st')))"

text \<open>\<open>arg = {}; iss >> arg\<close>.\<close>

definition fresh_arg :: "arg_state \<Rightarrow> arg_state" where
  "fresh_arg st = next_arg ([], snd st)"

definition is_late :: "string \<Rightarrow> bool" where
  "is_late arg \<longleftrightarrow> arg = ''slow'' \<or> arg = ''late''"

definition parse_single_read :: "StackCommand \<Rightarrow> arg_state \<Rightarrow> StackCommand result" where
  "parse_single_read cmd st =
     result_bind (ulong_arg st) (\<lambda>(amod, st).
     result_bind (width_arg_text st) (\<lambda>(dw, st).
     result_bind (ulong_arg st) (\<lambda>(address, st).
     Inr (cmd\<lparr>sc_amod := of_nat amod, sc_dataWidth := dw, sc_address := of_nat address,
              sc_lateRead := is_late (fst (fresh_arg st))\<rparr>))))"

text \<open>
  Block reads: the plain variant takes the 2eSST rate as optional, the other
  three demand it.
\<close>

definition parse_block_read :: "bool \<Rightarrow> StackCommand \<Rightarrow> arg_state \<Rightarrow> StackCommand result" where
  "parse_block_read optional_rate cmd st =
     result_bind (ulong_arg st) (\<lambda>(amod, st).
     result_bind (ulong_arg st) (\<lambda>(transfers, st).
     result_bind (ulong_arg st) (\<lambda>(address, st).
       let cmd = cmd\<lparr>sc_amod := of_nat amod, sc_transfers := of_nat transfers,
                     sc_address := of_nat address\<rparr>
       in if \<not> is_esst64_mode (sc_amod cmd) then Inr cmd
          else if optional_rate \<and> snd st = [] then Inr cmd
          else result_map (\<lambda>(rate, st). cmd\<lparr>sc_rate := of_nat rate\<rparr>) (ulong_arg ([], snd st)))))"

definition parse_vme_write :: "StackCommand \<Rightarrow> arg_state \<Rightarrow> StackCommand result" where
  "parse_vme_write cmd st =
     result_bind (ulong_arg st) (\<lambda>(amod, st).
     result_bind (width_arg_text st) (\<lambda>(dw, st).
     result_bind (ulong_arg st) (\<lambda>(address, st).
     result_map (\<lambda>(v, st). cmd\<lparr>sc_amod := of_nat amod, sc_dataWidth := dw,
        sc_address := of_nat address, sc_value := of_nat v\<rparr>) (ulong_arg st))))"

definition parse_value :: "StackCommand \<Rightarrow> arg_state \<Rightarrow> StackCommand result" where
  "parse_value cmd st = result_map (\<lambda>(v, st). cmd\<lparr>sc_value := of_nat v\<rparr>) (ulong_arg st)"

definition parse_mask_shift :: "StackCommand \<Rightarrow> arg_state \<Rightarrow> StackCommand result" where
  "parse_mask_shift cmd st =
     result_bind (ulong_arg st) (\<lambda>(msk, st).
     result_map (\<lambda>(shift, st). cmd\<lparr>sc_address := of_nat msk, sc_value := of_nat shift\<rparr>)
       (ulong_arg st))"

definition parse_compare_loop :: "StackCommand \<Rightarrow> arg_state \<Rightarrow> StackCommand result" where
  "parse_compare_loop cmd st =
     (let st = next_arg st
      in result_bind (accu_comparator_from_string (fst st)) (\<lambda>comparator.
         result_map (\<lambda>(v, st). cmd\<lparr>sc_address := of_nat v, sc_value := ucast comparator\<rparr>)
           (ulong_arg st)))"

definition stack_command_from_string ::
  "(string \<Rightarrow> (u32 option \<times> u32 list) result) \<Rightarrow> string \<Rightarrow> StackCommand result" where
  "stack_command_from_string yaml_load str =
     (if str = [] then Inl RuntimeError
      else
        let toks = tokens str;
            name = (case toks of [] \<Rightarrow> [] | t # _ \<Rightarrow> t);
            st = ([], tl toks);
            cmd = (\<lambda>t. StackCommand_init\<lparr>sc_type := t\<rparr>)
        in if name = ''stack_start'' then Inr (cmd StackStart)
           else if name = ''stack_end'' then Inr (cmd StackEnd)
           else if name = ''vme_read'' then parse_single_read (cmd VMERead) st
           else if name = ''vme_read_mem'' then parse_single_read (cmd VMEReadMem) st
           else if name = ''vme_block_read'' then parse_block_read True (cmd VMERead) st
           else if name = ''vme_block_read_swapped'' \<or> name = ''vme_mblt_swapped''
           then parse_block_read False (cmd VMEReadSwapped) st
           else if name = ''vme_block_read_mem'' then parse_block_read False (cmd VMEReadMem) st
           else if name = ''vme_block_read_mem_swapped''
           then parse_block_read False (cmd VMEReadMemSwapped) st
           else if name = ''vme_write'' then parse_vme_write (cmd VMEWrite) st
           else if name = ''write_marker'' then parse_value (cmd WriteMarker) st
           else if name = ''write_special'' then parse_value (cmd WriteSpecial) st
           else if name = ''wait'' then parse_value (cmd Wait) st
           else if name = ''signal_accu'' then Inr (cmd SignalAccu)
           else if name = ''mask_shift_accu'' then parse_mask_shift (cmd MaskShiftAccu) st
           else if name = ''set_accu'' then parse_value (cmd SetAccu) st
           else if name = ''read_to_accu'' then parse_single_read (cmd ReadToAccu) st
           else if name = ''compare_loop_accu'' then parse_compare_loop (cmd CompareLoopAccu) st
           else if name = ''software_delay'' then parse_value (cmd SoftwareDelay) st
           else if name = ''custom_cmd:''
           then result_map
                  (\<lambda>(output_words, contents).
                     (cmd Custom)\<lparr>sc_transfers := (case output_words of Some n \<Rightarrow> ucast n | None \<Rightarrow> 0),
                                  sc_customValues := contents\<rparr>) (yaml_load str)
           else Inl RuntimeError)"

text \<open>
  \<open>addCommand(const std::string &)\<close>: the group is opened before the text is
  parsed, so an exception leaves a builder with an additional empty group.
\<close>

definition addCommand_string ::
  "(string \<Rightarrow> (u32 option \<times> u32 list) result) \<Rightarrow> StackCommandBuilder \<Rightarrow> string \<Rightarrow>
   StackCommandBuilder \<times> failure option" where
  "addCommand_string yaml_load b str =
     (let b = (if hasOpenGroup b then b else beginGroup b [] Map.empty)
      in case stack_command_from_string yaml_load str of
           Inl e \<Rightarrow> (b, Some e)
         | Inr cmd \<Rightarrow> (push_back_command b cmd, None))"

section \<open>What the text form can express\<close>

definition single_read_form :: "StackCommand \<Rightarrow> bool" where
  "single_read_form c \<longleftrightarrow> sc_dataWidth c \<in> {D16, D32} \<and>
     StackCommand_init\<lparr>sc_type := sc_type c, sc_amod := sc_amod c,
       sc_dataWidth := sc_dataWidth c, sc_address := sc_address c,
       sc_lateRead := sc_lateRead c\<rparr> = c"

definition block_read_form :: "StackCommand \<Rightarrow> bool" where
  "block_read_form c \<longleftrightarrow>
     StackCommand_init\<lparr>sc_type := sc_type c, sc_amod := sc_amod c,
       sc_transfers := sc_transfers c, sc_address := sc_address c,
       sc_rate := (if is_esst64_mode (sc_amod c) then sc_rate c else 0)\<rparr> = c"

text \<open>
  A command is expressible when its members unused by its type are at their
  initial values and its data width and comparator have names. Single-value
  reads must be of the plain or the \<open>Mem\<close> kind.
\<close>

definition text_expressible :: "StackCommand \<Rightarrow> bool" where
  "text_expressible c \<longleftrightarrow>
     (let plain = (StackCommand_init\<lparr>sc_type := sc_type c\<rparr> = c);
          with_value = (StackCommand_init\<lparr>sc_type := sc_type c, sc_value := sc_value c\<rparr> = c);
          with_address_value =
            (StackCommand_init\<lparr>sc_type := sc_type c, sc_address := sc_address c,
               sc_value := sc_value c\<rparr> = c);
          read = (if is_block_mode (sc_amod c) then block_read_form c else single_read_form c)
      in case sc_type c of
           StackStart \<Rightarrow> plain
         | StackEnd \<Rightarrow> plain
         | SignalAccu \<Rightarrow> plain
         | VMERead \<Rightarrow> read
         | VMEReadMem \<Rightarrow> read
         | VMEReadSwapped \<Rightarrow> is_block_mode (sc_amod c) \<and> block_read_form c
         | VMEReadMemSwapped \<Rightarrow> is_block_mode (sc_amod c) \<and> block_read_form c
         | ReadToAccu \<Rightarrow> single_read_form c
         | VMEWrite \<Rightarrow> sc_dataWidth c \<in> {D16, D32} \<and>
             StackCommand_init\<lparr>sc_type := sc_type c, sc_amod := sc_amod c,
               sc_dataWidth := sc_dataWidth c, sc_address := sc_address c,
               sc_value := sc_value c\<rparr> = c
         | WriteMarker \<Rightarrow> with_value
         | WriteSpecial \<Rightarrow> with_value
         | Wait \<Rightarrow> with_value
         | SetAccu \<Rightarrow> with_value
         | SoftwareDelay \<Rightarrow> with_value
         | MaskShiftAccu \<Rightarrow> with_address_value
         | CompareLoopAccu \<Rightarrow> with_address_value \<and> sc_value c \<in> {0, 1, 2}
         | _ \<Rightarrow> False)"

section \<open>Parsing printed commands\<close>

lemma unat_less_64: "unat (a::u8) < 2 ^ 64" "unat (b::u16) < 2 ^ 64" "unat (c::u32) < 2 ^ 64"
  using unsigned_less [of a, where 'a = nat] unsigned_less [of b, where 'a = nat]
    unsigned_less [of c, where 'a = nat] by simp_all

lemma ulong_arg_hex:
  "ulong_arg (arg, fmt_hex k (unat (a::u8)) # ts) = Inr (unat a, (fmt_hex k (unat a), ts))"
  "ulong_arg (arg, fmt_hex k (unat (b::u16)) # ts) = Inr (unat b, (fmt_hex k (unat b), ts))"
  "ulong_arg (arg, fmt_hex k (unat (c::u32)) # ts) = Inr (unat c, (fmt_hex k (unat c), ts))"
  by (simp_all only: ulong_arg_def next_arg.simps fst_conv Let_def stoul_fmt(1) unat_less_64
      result_map_simps)

lemma ulong_arg_dec:
  "ulong_arg (arg, fmt_dec (unat (a::u8)) # ts) = Inr (unat a, (fmt_dec (unat a), ts))"
  "ulong_arg (arg, fmt_dec (unat (b::u16)) # ts) = Inr (unat b, (fmt_dec (unat b), ts))"
  "ulong_arg (arg, fmt_dec (unat (c::u32)) # ts) = Inr (unat c, (fmt_dec (unat c), ts))"
  by (simp_all only: ulong_arg_def next_arg.simps fst_conv Let_def stoul_fmt(2) unat_less_64
      result_map_simps)

lemma width_arg_print:
  "dw \<in> {D16, D32} \<Longrightarrow> vme_data_width_to_string dw = Inr t \<Longrightarrow>
   width_arg_text (arg, t # ts) = Inr (dw, (t, ts)) \<and> is_word t"
proof -
  have "width_arg_text (arg, ''d16'' # ts) = Inr (D16, (''d16'', ts))" "is_word ''d16''"
    "width_arg_text (arg, ''d32'' # ts) = Inr (D32, (''d32'', ts))" "is_word ''d32''"
    unfolding width_arg_text_def next_arg.simps fst_conv Let_def
    by (simp_all add: vme_data_width_from_string_def str_tolower_def tolower_def is_word_def isspace_def)
  then show "dw \<in> {D16, D32} \<Longrightarrow> vme_data_width_to_string dw = Inr t \<Longrightarrow> ?thesis"
    by (auto simp: vme_data_width_to_string_def)
qed

lemmas arg_simps = ulong_arg_hex ulong_arg_dec

lemma parse_single_read_print:
  assumes "vme_data_width_to_string (sc_dataWidth c) = Inr t" "sc_dataWidth c \<in> {D16, D32}"
  shows "parse_single_read d ([], [fmt_hex 4 (unat (sc_amod c)), t, fmt_hex 10 (unat (sc_address c))] @
           (if sc_lateRead c then [''late''] else [])) =
         Inr (d\<lparr>sc_amod := sc_amod c, sc_dataWidth := sc_dataWidth c, sc_address := sc_address c,
                sc_lateRead := sc_lateRead c\<rparr>)"
  using width_arg_print [OF assms(2,1)]
  by (simp add: parse_single_read_def arg_simps fresh_arg_def is_late_def)

lemma parse_block_read_print:
  "parse_block_read opt d ([], [fmt_hex 4 (unat (sc_amod c)), fmt_dec (unat (sc_transfers c)),
       fmt_hex 10 (unat (sc_address c))] @
       (if is_esst64_mode (sc_amod c) then [fmt_dec (unat (sc_rate c))] else [])) =
   Inr (d\<lparr>sc_amod := sc_amod c, sc_transfers := sc_transfers c, sc_address := sc_address c,
          sc_rate := (if is_esst64_mode (sc_amod c) then sc_rate c else sc_rate d)\<rparr>)"
  by (simp add: parse_block_read_def arg_simps Let_def)

lemma fmt_words_not_Nil: "is_word w \<Longrightarrow> fmt_words (w # ws) \<noteq> []"
  by (cases ws) (simp_all add: fmt_words_def is_word_def)

lemma from_string_words:
  "\<forall>w\<in>set (name # args). is_word w \<Longrightarrow>
   tokens (fmt_words (name # args)) = name # args \<and> fmt_words (name # args) \<noteq> []"
  using tokens_fmt_words [of "name # args"] by (metis list.distinct(1) tokens_Nil)

text \<open>The keywords are words.\<close>

lemma is_word_literal: "list_all (\<lambda>c. \<not> isspace c) t \<Longrightarrow> t \<noteq> [] \<Longrightarrow> is_word t"
  by (simp add: is_word_def list_all_iff)

lemma keyword_is_word:
  "is_word ''stack_start''" "is_word ''stack_end''" "is_word ''vme_read''" "is_word ''vme_read_mem''"
  "is_word ''vme_block_read''" "is_word ''vme_block_read_swapped''" "is_word ''vme_block_read_mem''"
  "is_word ''vme_block_read_mem_swapped''" "is_word ''vme_write''" "is_word ''write_marker''"
  "is_word ''write_special''" "is_word ''wait''" "is_word ''signal_accu''"
  "is_word ''mask_shift_accu''" "is_word ''set_accu''" "is_word ''read_to_accu''"
  "is_word ''compare_loop_accu''" "is_word ''software_delay''" "is_word ''late''"
  "is_word ''eq''" "is_word ''lt''" "is_word ''gt''" "is_word ''d16''" "is_word ''d32''"
  by (simp_all add: is_word_def isspace_def)

lemma block_read_words:
  "block_read_to_string name c =
   fmt_words (name # [fmt_hex 4 (unat (sc_amod c)), fmt_dec (unat (sc_transfers c)),
       fmt_hex 10 (unat (sc_address c))] @
       (if is_esst64_mode (sc_amod c) then [fmt_dec (unat (sc_rate c))] else []))"
  by (simp add: block_read_to_string_def)

lemma single_read_print_parse:
  assumes "single_read_form c" "single_read_to_string name c = Inr s" "is_word name"
  shows "s \<noteq> [] \<and> (\<exists>args. tokens s = name # args \<and>
    parse_single_read (StackCommand_init\<lparr>sc_type := sc_type c\<rparr>) ([], args) = Inr c)"
proof -
  from assms(2) obtain t where t: "vme_data_width_to_string (sc_dataWidth c) = Inr t"
    by (auto simp: single_read_to_string_def)
  let ?args = "[fmt_hex 4 (unat (sc_amod c)), t, fmt_hex 10 (unat (sc_address c))] @
      (if sc_lateRead c then [''late''] else [])"
  have dw: "sc_dataWidth c \<in> {D16, D32}" using assms(1) by (simp add: single_read_form_def)
  have s: "s = fmt_words (name # ?args)" using assms(2) t by (simp add: single_read_to_string_def)
  have "\<forall>w\<in>set (name # ?args). is_word w"
    using width_arg_print [OF dw t] assms(3) by (simp add: keyword_is_word)
  then have "tokens s = name # ?args" "s \<noteq> []" unfolding s using from_string_words by blast+
  moreover have "StackCommand_init\<lparr>sc_type := sc_type c, sc_amod := sc_amod c,
      sc_dataWidth := sc_dataWidth c, sc_address := sc_address c, sc_lateRead := sc_lateRead c\<rparr> = c"
    using assms(1) by (simp add: single_read_form_def)
  ultimately show ?thesis using parse_single_read_print [OF t dw] by auto
qed

lemma block_read_print_parse:
  assumes "block_read_form c" "is_word name" "s = block_read_to_string name c"
  shows "s \<noteq> [] \<and> (\<exists>args. tokens s = name # args \<and>
    parse_block_read opt (StackCommand_init\<lparr>sc_type := sc_type c\<rparr>) ([], args) = Inr c)"
proof -
  let ?args = "[fmt_hex 4 (unat (sc_amod c)), fmt_dec (unat (sc_transfers c)),
       fmt_hex 10 (unat (sc_address c))] @
       (if is_esst64_mode (sc_amod c) then [fmt_dec (unat (sc_rate c))] else [])"
  have "\<forall>w\<in>set (name # ?args). is_word w" using assms(2) by simp
  then have "tokens s = name # ?args" "s \<noteq> []"
    unfolding assms(3) block_read_words using from_string_words by blast+
  moreover have "sc_rate (StackCommand_init\<lparr>sc_type := sc_type c\<rparr>) = 0"
    by (simp add: StackCommand_init_def)
  moreover note assms(1) [unfolded block_read_form_def]
  ultimately show ?thesis using parse_block_read_print [of opt _ c] by auto
qed

lemmas print_parse_simps =
  stack_to_string_def stack_command_from_string_def tokens_fmt_words fmt_words_not_Nil tokens_single
  keyword_is_word arg_simps parse_value_def parse_mask_shift_def parse_compare_loop_def
  accu_comparator_to_string_def accu_comparator_from_string_def text_expressible_def

lemma write_print_parse:
  assumes "text_expressible c" "stack_to_string y c = Inr s" "sc_type c = VMEWrite"
  shows "stack_command_from_string l s = Inr c"
proof -
  from assms have dw: "sc_dataWidth c \<in> {D16, D32}" by (simp add: text_expressible_def)
  from assms(2,3) obtain t where t: "vme_data_width_to_string (sc_dataWidth c) = Inr t"
    and s: "s = fmt_words [''vme_write'', fmt_hex 4 (unat (sc_amod c)), t,
                            fmt_hex 10 (unat (sc_address c)), fmt_hex 10 (unat (sc_value c))]"
    by (auto simp: stack_to_string_def)
  show ?thesis
    using width_arg_print [OF dw t] assms(1,3) by (simp add: s print_parse_simps parse_vme_write_def)
qed

lemma other_print_parse:
  assumes "text_expressible c" "stack_to_string y c = Inr s"
    "sc_type c \<notin> {VMERead, VMEReadMem, VMEReadSwapped, VMEReadMemSwapped, ReadToAccu, VMEWrite}"
  shows "stack_command_from_string l s = Inr c"
  using assms by (cases "sc_type c") (auto simp: print_parse_simps)

lemma expressible_prints: "text_expressible c \<Longrightarrow> \<exists>s. stack_to_string y c = Inr s"
  by (cases "sc_type c")
    (auto simp: text_expressible_def stack_to_string_def single_read_to_string_def
      single_read_form_def vme_data_width_to_string_def accu_comparator_to_string_def
      split: if_splits)

lemma read_print_parse:
  assumes "text_expressible c" "stack_to_string y c = Inr s"
    "sc_type c \<in> {VMERead, VMEReadMem, VMEReadSwapped, VMEReadMemSwapped, ReadToAccu}"
  shows "stack_command_from_string l s = Inr c"
proof (cases "is_block_mode (sc_amod c) \<and> sc_type c \<noteq> ReadToAccu")
  case True
  then have form: "block_read_form c"
    using assms(1,3) by (auto simp: text_expressible_def)
  note parse = block_read_print_parse [OF form]
  show ?thesis
    using True assms(2,3) parse [OF keyword_is_word(5), of s True]
      parse [OF keyword_is_word(6), of s False] parse [OF keyword_is_word(7), of s False]
      parse [OF keyword_is_word(8), of s False]
    by (auto simp: stack_to_string_def stack_command_from_string_def)
next
  case False
  then have form: "single_read_form c" and ty: "sc_type c \<in> {VMERead, VMEReadMem, ReadToAccu}"
    using assms(1,3) by (auto simp: text_expressible_def split: if_splits)
  note parse = single_read_print_parse [OF form]
  from ty show ?thesis
    using False assms(2) parse [OF _ keyword_is_word(3), of s] parse [OF _ keyword_is_word(4), of s]
      parse [OF _ keyword_is_word(16), of s]
    by (auto simp: stack_to_string_def stack_command_from_string_def split: if_splits)
qed

section \<open>Properties\<close>

text \<open>
  C17. Every expressible stack command survives being printed and read: parsing
  the text of the command gives the command back, for all 16 command types with
  a textual form, including the late flag, the address modifier, hexadecimal and
  decimal numbers of full width and the rate of a 2eSST read.
\<close>

theorem stack_command_text_roundtrip:
  assumes "text_expressible c"
  shows "\<exists>s. stack_to_string yaml_emit c = Inr s \<and> stack_command_from_string yaml_load s = Inr c"
proof -
  obtain s where s: "stack_to_string yaml_emit c = Inr s" using expressible_prints [OF assms] by blast
  then have "stack_command_from_string yaml_load s = Inr c"
    using read_print_parse [OF assms s] write_print_parse [OF assms s] other_print_parse [OF assms s]
    by blast
  with s show ?thesis by blast
qed

theorem stack_command_text_roundtrip_witness:
  "\<exists>s. stack_to_string (\<lambda>_ _. []) (StackCommand_init
         \<lparr>sc_type := VMERead, sc_amod := 9, sc_dataWidth := D32, sc_address := 0x6030,
          sc_lateRead := True\<rparr>) = Inr s \<and>
       stack_command_from_string (\<lambda>_. Inl RuntimeError) s = Inr (StackCommand_init
         \<lparr>sc_type := VMERead, sc_amod := 9, sc_dataWidth := D32, sc_address := 0x6030,
          sc_lateRead := True\<rparr>)"
  by (rule stack_command_text_roundtrip)
    (simp add: text_expressible_def single_read_form_def is_block_mode_def StackCommand_init_def)

text \<open>
  Single-value reads of the swapped kinds have no text form of their own:
  they are printed as \<open>vme_read\<close> and read back as plain reads. For
  \<open>VMEReadMemSwapped\<close> this also loses the address increment that the \<open>Mem\<close> kinds
  keep.
\<close>

theorem swapped_single_read_text_lossy:
  assumes "sc_type c \<in> {VMEReadSwapped, VMEReadMemSwapped}" and "\<not> is_block_mode (sc_amod c)"
    and "single_read_form c"
  shows "\<exists>s. stack_to_string yaml_emit c = Inr s \<and>
             stack_command_from_string yaml_load s = Inr (c\<lparr>sc_type := VMERead\<rparr>)"
proof -
  let ?d = "c\<lparr>sc_type := VMERead\<rparr>"
  have eq: "stack_to_string yaml_emit c = stack_to_string yaml_emit ?d"
    using assms(1,2) by (auto simp: stack_to_string_def single_read_to_string_def)
  have "sc_dataWidth c \<in> {D16, D32}" "StackCommand_init\<lparr>sc_type := sc_type c, sc_amod := sc_amod c,
      sc_dataWidth := sc_dataWidth c, sc_address := sc_address c, sc_lateRead := sc_lateRead c\<rparr> = c"
    using assms(3) unfolding single_read_form_def by blast+
  then have "single_read_form ?d"
    by (cases c) (simp add: single_read_form_def StackCommand_init_def)
  then have d: "text_expressible ?d" using assms(2) by (simp add: text_expressible_def)
  obtain s where s: "stack_to_string yaml_emit ?d = Inr s" using expressible_prints [OF d] by blast
  show ?thesis using read_print_parse [OF d s] s eq by auto
qed

theorem swapped_single_read_text_lossy_witness:
  "\<exists>s. stack_to_string (\<lambda>_ _. []) (StackCommand_init\<lparr>sc_type := VMEReadMemSwapped, sc_amod := 9\<rparr>) = Inr s \<and>
       stack_command_from_string (\<lambda>_. Inl RuntimeError) s =
       Inr ((StackCommand_init\<lparr>sc_type := VMEReadMemSwapped, sc_amod := 9\<rparr>)\<lparr>sc_type := VMERead\<rparr>)"
  by (rule swapped_single_read_text_lossy)
    (simp_all add: single_read_form_def is_block_mode_def StackCommand_init_def)

text \<open>
  C37. A missing last argument is not detected: the failed extraction leaves the
  previous word in place and it is read a second time. A \<open>vme_write\<close> line
  without a value is accepted and writes the address as the value.
\<close>

theorem vme_write_missing_value:
  assumes "tokens s = [''vme_write'', a, w, x]"
    and "stoul a = Inr amod" and "vme_data_width_from_string w = Inr dw" and "stoul x = Inr address"
  shows "stack_command_from_string yaml_load s =
    Inr (StackCommand_init\<lparr>sc_type := VMEWrite, sc_amod := of_nat amod, sc_dataWidth := dw,
           sc_address := of_nat address, sc_value := of_nat address\<rparr>)"
proof -
  have "s \<noteq> []" using assms(1) by auto
  with assms show ?thesis
    by (simp add: stack_command_from_string_def parse_vme_write_def ulong_arg_def width_arg_text_def)
qed

theorem vme_write_missing_value_witness:
  "stack_command_from_string (\<lambda>_. Inl RuntimeError)
     (fmt_words [''vme_write'', fmt_hex 4 (unat (9::u8)), ''d16'', fmt_hex 10 (unat (0x6030::u32))]) =
   Inr (StackCommand_init\<lparr>sc_type := VMEWrite, sc_amod := of_nat (unat (9::u8)), sc_dataWidth := D16,
          sc_address := of_nat (unat (0x6030::u32)), sc_value := of_nat (unat (0x6030::u32))\<rparr>)"
proof (rule vme_write_missing_value)
  show "tokens (fmt_words [''vme_write'', fmt_hex 4 (unat (9::u8)), ''d16'',
      fmt_hex 10 (unat (0x6030::u32))]) =
    [''vme_write'', fmt_hex 4 (unat (9::u8)), ''d16'', fmt_hex 10 (unat (0x6030::u32))]"
    by (rule tokens_fmt_words) (simp add: keyword_is_word)
  show "vme_data_width_from_string ''d16'' = Inr D16"
    by (simp add: vme_data_width_from_string_def str_tolower_def tolower_def)
qed (simp_all only: stoul_fmt unat_less_64)

end
