(* ===== verification/Readout_Structure.thy ===== *)
theory Readout_Structure
  imports Mvlc_Commands
begin

text \<open>
  How the readout parser derives the layout of the data of a module from its
  readout commands, from \<open>mvlc_readout_parser.cc\<close>: a fixed-size prefix, at most
  one dynamic part and a fixed-size suffix. The lengths are 8-bit counters, as
  in \<open>ModuleReadoutStructure\<close>. The lemmas relate the result to a specification
  that lists what each command contributes to the output of the stack.
\<close>

section \<open>The structures\<close>

record ModuleReadoutStructure =
  prefixLen :: u8
  suffixLen :: u8
  hasDynamic :: bool
  mrs_name :: string
  mrs_commands :: "StackCommand list"
  mrs_meta :: "string \<rightharpoonup> string"
  isMesytecAndUsing2eSST :: bool

type_synonym ReadoutStructure = "ModuleReadoutStructure list list"

definition mrs_is_empty :: "ModuleReadoutStructure \<Rightarrow> bool" where
  "mrs_is_empty mrs \<longleftrightarrow> prefixLen mrs = 0 \<and> suffixLen mrs = 0 \<and> \<not> hasDynamic mrs"

datatype GroupParseState = Prefix | Dynamic | Suffix

section \<open>parse\_module\_readout\_commands\<close>

text \<open>The loop state: the part the next output belongs to, the result so far and the accumulator flag.\<close>

type_synonym structure_state = "GroupParseState \<times> ModuleReadoutStructure \<times> bool"

text \<open>A command that outputs \<open>n\<close> fixed words.\<close>

definition add_fixed :: "u8 \<Rightarrow> GroupParseState \<Rightarrow> ModuleReadoutStructure \<Rightarrow>
    GroupParseState \<times> ModuleReadoutStructure" where
  "add_fixed n state modParts =
     (case state of
        Prefix \<Rightarrow> (Prefix, modParts\<lparr>prefixLen := prefixLen modParts + n\<rparr>)
      | Dynamic \<Rightarrow> (Suffix, modParts\<lparr>suffixLen := suffixLen modParts + n\<rparr>)
      | Suffix \<Rightarrow> (Suffix, modParts\<lparr>suffixLen := suffixLen modParts + n\<rparr>))"

definition module_readout_step ::
  "bool \<Rightarrow> StackCommand \<Rightarrow> structure_state \<Rightarrow> structure_state result" where
  "module_readout_step isMesytecModule cmd st =
     (case st of (state, modParts, accumulatorActive) \<Rightarrow>
      if (is_read_command cmd \<and> \<not> is_block_mode (sc_amod cmd) \<and> \<not> accumulatorActive)
         \<or> sc_type cmd = WriteMarker \<or> sc_type cmd = WriteSpecial
      then (let (state, modParts) = add_fixed 1 state modParts
            in Inr (state, modParts, accumulatorActive))
      else if is_read_command cmd
      then (case state of
              Prefix \<Rightarrow>
                Inr (Dynamic,
                     modParts\<lparr>hasDynamic := True,
                       isMesytecAndUsing2eSST := isMesytecModule \<and> is_esst64_mode (sc_amod cmd)\<rparr>,
                     False)
            | Dynamic \<Rightarrow> Inl RuntimeError
            | Suffix \<Rightarrow> Inl RuntimeError)
      else if sc_type cmd = Custom
      then (let (state, modParts) = add_fixed (ucast (sc_transfers cmd)) state modParts
            in Inr (state, modParts, accumulatorActive))
      else if sc_type cmd = SetAccu \<or> sc_type cmd = ReadToAccu \<or> sc_type cmd = CompareLoopAccu
      then Inr (state, modParts, True)
      else if sc_type cmd = SignalAccu then Inr (state, modParts, False)
      else Inr (state, modParts, accumulatorActive))"

fun module_readout_loop ::
  "bool \<Rightarrow> StackCommand list \<Rightarrow> structure_state \<Rightarrow> structure_state result" where
  "module_readout_loop m [] st = Inr st"
| "module_readout_loop m (cmd # cmds) st =
     result_bind (module_readout_step m cmd st) (module_readout_loop m cmds)"

definition parse_module_readout_commands :: "Group \<Rightarrow> ModuleReadoutStructure result" where
  "parse_module_readout_commands cmdGroup =
     (let modParts = \<lparr>prefixLen = 0, suffixLen = 0, hasDynamic = False, mrs_name = [],
            mrs_commands = g_commands cmdGroup, mrs_meta = g_meta cmdGroup,
            isMesytecAndUsing2eSST = False\<rparr>;
          isMesytecModule = (g_meta cmdGroup ''vme_module_vendor'' = Some ''mesytec'')
      in result_map (\<lambda>(state, modParts, accumulatorActive). modParts)
           (module_readout_loop isMesytecModule (g_commands cmdGroup) (Prefix, modParts, False)))"

section \<open>build\_readout\_structure\<close>

definition build_group_structure :: "StackCommandBuilder \<Rightarrow> ModuleReadoutStructure list result" where
  "build_group_structure stack =
     result_mapM (\<lambda>g. result_map (\<lambda>mrs. mrs\<lparr>mrs_name := g_name g\<rparr>) (parse_module_readout_commands g))
       (m_groups stack)"

definition build_readout_structure :: "StackCommandBuilder list \<Rightarrow> ReadoutStructure result" where
  "build_readout_structure readoutStacks = result_mapM build_group_structure readoutStacks"

section \<open>Specification: the output of a command list\<close>

text \<open>
  What the commands of a group put into the output stream: runs of fixed words
  and dynamic blocks. The accumulator turns the next single read into a block.
\<close>

datatype output_part = Fixed nat | Block bool

fun output_parts :: "bool \<Rightarrow> StackCommand list \<Rightarrow> output_part list" where
  "output_parts accu [] = []"
| "output_parts accu (cmd # cmds) =
     (if sc_type cmd \<in> {WriteMarker, WriteSpecial} then Fixed 1 # output_parts accu cmds
      else if is_read_command cmd
      then (if is_block_mode (sc_amod cmd) \<or> accu
            then Block (is_esst64_mode (sc_amod cmd)) # output_parts False cmds
            else Fixed 1 # output_parts accu cmds)
      else if sc_type cmd = Custom
      then Fixed (unat (sc_transfers cmd)) # output_parts accu cmds
      else if sc_type cmd \<in> {SetAccu, ReadToAccu, CompareLoopAccu} then output_parts True cmds
      else if sc_type cmd = SignalAccu then output_parts False cmds
      else output_parts accu cmds)"

fun fixed_words :: "output_part list \<Rightarrow> nat" where
  "fixed_words [] = 0"
| "fixed_words (Fixed n # ps) = n + fixed_words ps"
| "fixed_words (Block b # ps) = fixed_words ps"

definition is_fixed :: "output_part \<Rightarrow> bool" where
  "is_fixed p \<longleftrightarrow> (case p of Fixed n \<Rightarrow> True | Block b \<Rightarrow> False)"

section \<open>The loop computes the parts\<close>

text \<open>The loop on commands as a loop on the parts they contribute.\<close>

fun parts_loop :: "bool \<Rightarrow> output_part list \<Rightarrow> GroupParseState \<times> ModuleReadoutStructure \<Rightarrow>
    (GroupParseState \<times> ModuleReadoutStructure) result" where
  "parts_loop m [] s = Inr s"
| "parts_loop m (Fixed n # ps) (state, modParts) = parts_loop m ps (add_fixed (of_nat n) state modParts)"
| "parts_loop m (Block b # ps) (state, modParts) =
     (case state of
        Prefix \<Rightarrow> parts_loop m ps
          (Dynamic, modParts\<lparr>hasDynamic := True, isMesytecAndUsing2eSST := m \<and> b\<rparr>)
      | _ \<Rightarrow> Inl RuntimeError)"

lemma module_readout_loop_parts:
  "result_map (\<lambda>(state, modParts, accu). (state, modParts))
     (module_readout_loop m cmds (state, modParts, accu)) =
   parts_loop m (output_parts accu cmds) (state, modParts)"
proof (induction cmds arbitrary: state modParts accu)
  case (Cons cmd cmds)
  show ?case
    by (cases "sc_type cmd"; cases state)
      (simp_all add: module_readout_step_def is_read_command_def Cons.IH add_fixed_def
        split: if_splits)
qed simp

lemma parts_loop_suffix:
  "parts_loop m ps (Suffix, modParts) =
     (if list_all is_fixed ps
      then Inr (Suffix, modParts\<lparr>suffixLen := suffixLen modParts + of_nat (fixed_words ps)\<rparr>)
      else Inl RuntimeError)"
proof (induction ps arbitrary: modParts)
  case (Cons p ps)
  then show ?case by (cases p) (simp_all add: is_fixed_def add_fixed_def algebra_simps)
qed simp

lemma parts_loop_dynamic:
  "result_map snd (parts_loop m ps (Dynamic, modParts)) =
     (if list_all is_fixed ps
      then Inr (modParts\<lparr>suffixLen := suffixLen modParts + of_nat (fixed_words ps)\<rparr>)
      else Inl RuntimeError)"
proof (cases ps)
  case (Cons p qs)
  then show ?thesis
    by (cases p) (simp_all add: is_fixed_def add_fixed_def parts_loop_suffix algebra_simps)
qed simp

lemma parts_loop_prefix:
  "list_all is_fixed ps \<Longrightarrow>
   parts_loop m (ps @ qs) (Prefix, modParts) =
   parts_loop m qs (Prefix, modParts\<lparr>prefixLen := prefixLen modParts + of_nat (fixed_words ps)\<rparr>)"
proof (induction ps arbitrary: modParts)
  case (Cons p ps)
  then show ?case by (cases p) (simp_all add: is_fixed_def add_fixed_def algebra_simps)
qed simp

section \<open>Properties\<close>

text \<open>
  C16. The layout computed for a module is the layout of its output stream: with
  no block the prefix counts all fixed words; with exactly one block the prefix
  and the suffix count the fixed words before and after it; with more than one
  block the readout commands are rejected. The two counts are taken modulo 256.
\<close>

theorem module_structure_correct:
  "parse_module_readout_commands g =
     (let ps = output_parts False (g_commands g);
          pre = takeWhile is_fixed ps;
          rest = dropWhile is_fixed ps;
          mrs = \<lparr>prefixLen = of_nat (fixed_words pre), suffixLen = 0, hasDynamic = False,
                 mrs_name = [], mrs_commands = g_commands g, mrs_meta = g_meta g,
                 isMesytecAndUsing2eSST = False\<rparr>
      in if rest = [] then Inr mrs
         else if list_all is_fixed (tl rest)
         then Inr (mrs\<lparr>suffixLen := of_nat (fixed_words (tl rest)), hasDynamic := True,
                       isMesytecAndUsing2eSST :=
                         (g_meta g ''vme_module_vendor'' = Some ''mesytec'' \<and> hd rest = Block True)\<rparr>)
         else Inl RuntimeError)"
proof -
  let ?ps = "output_parts False (g_commands g)"
  let ?m = "g_meta g ''vme_module_vendor'' = Some ''mesytec''"
  let ?mrs = "\<lparr>prefixLen = 0, suffixLen = 0, hasDynamic = False, mrs_name = [],
      mrs_commands = g_commands g, mrs_meta = g_meta g, isMesytecAndUsing2eSST = False\<rparr>"
  have compose: "result_map (\<lambda>(state, modParts, accu). modParts) r =
      result_map snd (result_map (\<lambda>(state, modParts, accu). (state, modParts)) r)"
    for r :: "structure_state result" by (cases r) auto
  have parse: "parse_module_readout_commands g = result_map snd (parts_loop ?m ?ps (Prefix, ?mrs))"
    by (simp add: parse_module_readout_commands_def compose module_readout_loop_parts)
  have pre: "list_all is_fixed (takeWhile is_fixed ?ps)"
    by (auto simp: list_all_iff dest: set_takeWhileD)
  have loop: "parts_loop ?m ?ps (Prefix, ?mrs) =
      parts_loop ?m (dropWhile is_fixed ?ps)
        (Prefix, ?mrs\<lparr>prefixLen := of_nat (fixed_words (takeWhile is_fixed ?ps))\<rparr>)"
    using parts_loop_prefix [OF pre, of ?m "dropWhile is_fixed ?ps" ?mrs] by simp
  show ?thesis
  proof (cases "dropWhile is_fixed ?ps")
    case Nil
    show ?thesis unfolding parse loop Let_def Nil by simp
  next
    case (Cons p qs)
    then obtain b where p: "p = Block b"
      using hd_dropWhile [of is_fixed ?ps] by (cases p) (auto simp: is_fixed_def)
    show ?thesis unfolding parse loop Let_def Cons p by (simp add: parts_loop_dynamic)
  qed
qed



end
