(* ===== verification/Readout_Parser_Step.thy ===== *)
theory Readout_Parser_Step
  imports Readout_Structure Mvlc_Frames
begin

text \<open>
  The readout parser of \<open>mvlc_readout_parser.h/.cc\<close>: it walks over the frames of
  a readout buffer, collects the data of each module in a work buffer and calls
  back once per completed event. One iteration of the loop in
  \<open>parse_readout_contents\<close> is the composition of the stages of its body; each
  stage either falls through, continues the loop, returns or throws. The model
  follows a build without assertions; the work buffer is the list of its used
  words together with the number of allocated words, span offsets and sizes are
  natural numbers. The calls of the user's callbacks are recorded in a log,
  logging is left out.
\<close>

section \<open>Data\<close>

record ModuleData =
  md_data :: "u32 list"
  md_prefixSize :: nat
  md_dynamicSize :: nat
  md_suffixSize :: nat
  md_hasDynamic :: bool

definition ModuleData_init :: ModuleData where
  "ModuleData_init =
     \<lparr>md_data = [], md_prefixSize = 0, md_dynamicSize = 0, md_suffixSize = 0, md_hasDynamic = False\<rparr>"

definition size_consistency_check :: "ModuleData \<Rightarrow> bool" where
  "size_consistency_check md \<longleftrightarrow>
     md_prefixSize md + md_dynamicSize md + md_suffixSize md = length (md_data md)
     \<and> (0 < md_dynamicSize md \<longrightarrow> md_hasDynamic md)"

definition prefix_view :: "ModuleData \<Rightarrow> u32 list" where
  "prefix_view md = take (md_prefixSize md) (md_data md)"

definition dynamic_view :: "ModuleData \<Rightarrow> u32 list" where
  "dynamic_view md = take (md_dynamicSize md) (drop (md_prefixSize md) (md_data md))"

definition suffix_view :: "ModuleData \<Rightarrow> u32 list" where
  "suffix_view md =
     take (md_suffixSize md) (drop (md_prefixSize md + md_dynamicSize md) (md_data md))"

record Span =
  sp_offset :: nat
  sp_size :: nat

record ModuleReadoutSpans =
  prefixSpan :: Span
  dynamicSpan :: Span
  suffixSpan :: Span

definition Span_init :: Span where
  "Span_init = \<lparr>sp_offset = 0, sp_size = 0\<rparr>"

definition ModuleReadoutSpans_init :: ModuleReadoutSpans where
  "ModuleReadoutSpans_init =
     \<lparr>prefixSpan = Span_init, dynamicSpan = Span_init, suffixSpan = Span_init\<rparr>"

datatype ParseResult =
    Ok | NoHeaderPresent | NoStackFrameFound | NotAStackFrame | NotABlockFrame
  | NotAStackContinuation | StackIndexChanged | StackIndexOutOfRange | GroupIndexOutOfRange
  | EmptyStackFrame | UnexpectedOpenBlockFrame | UnexpectedNonEmptyStackFrame
  | ParseReadoutContentsNotAdvancing | ParseEthBufferNotAdvancing | ParseEthPacketNotAdvancing
  | UnexpectedEndOfBuffer | UnhandledException | UnknownBufferType

record PartSizeInfo =
  psi_min :: u64
  psi_max :: u64
  psi_sum :: u64

definition PartSizeInfo_init :: PartSizeInfo where
  "PartSizeInfo_init = \<lparr>psi_min = - 1, psi_max = 0, psi_sum = 0\<rparr>"

record ReadoutParserCounters =
  internalBufferLoss :: u32
  buffersProcessed :: u32
  bytesProcessed :: u64
  unusedBytes :: u64
  ethPacketsProcessed :: u32
  ethPacketLoss :: u32
  systemEvents :: "u8 \<Rightarrow> u32"
  parseResults :: "ParseResult \<Rightarrow> u32"
  parserExceptions :: u32
  emptyStackFrames :: u32
  eventHits :: "int \<Rightarrow> u64"
  groupHits :: "int \<times> nat \<Rightarrow> u64"
  groupSizes :: "int \<times> nat \<Rightarrow> PartSizeInfo"

definition ReadoutParserCounters_init :: ReadoutParserCounters where
  "ReadoutParserCounters_init =
     \<lparr>internalBufferLoss = 0, buffersProcessed = 0, bytesProcessed = 0, unusedBytes = 0,
      ethPacketsProcessed = 0, ethPacketLoss = 0, systemEvents = (\<lambda>_. 0), parseResults = (\<lambda>_. 0),
      parserExceptions = 0, emptyStackFrames = 0, eventHits = (\<lambda>_. 0), groupHits = (\<lambda>_. 0),
      groupSizes = (\<lambda>_. PartSizeInfo_init)\<rparr>"

record FrameParseState =
  fps_header :: u32
  fps_wordsLeft :: u16

definition FrameParseState_of :: "u32 \<Rightarrow> FrameParseState" where
  "FrameParseState_of frameHeader =
     \<lparr>fps_header = frameHeader, fps_wordsLeft = fi_len (extract_frame_info frameHeader)\<rparr>"

abbreviation (input) FrameParseState_none :: FrameParseState where
  "FrameParseState_none \<equiv> FrameParseState_of 0"

definition consumeWord :: "FrameParseState \<Rightarrow> FrameParseState result" where
  "consumeWord f =
     (if fps_wordsLeft f = 0 then Inl EndOfFrame
      else Inr (f\<lparr>fps_wordsLeft := fps_wordsLeft f - 1\<rparr>))"

definition consumeWords :: "nat \<Rightarrow> FrameParseState \<Rightarrow> FrameParseState result" where
  "consumeWords count f =
     (if unat (fps_wordsLeft f) < count then Inl EndOfFrame
      else Inr (f\<lparr>fps_wordsLeft := fps_wordsLeft f - of_nat count\<rparr>))"

record WorkBuffer =
  wb_allocated :: nat
  wb_words :: "u32 list"

record ReadoutParserState =
  lastBufferNumber :: u32
  workBuffer :: WorkBuffer
  readoutDataSpans :: "ModuleReadoutSpans list"
  moduleDataBuffer :: "ModuleData list"
  readoutStructure :: ReadoutStructure
  eventIndex :: int
  moduleIndex :: int
  groupParseState :: GroupParseState
  curStackFrame :: FrameParseState
  curBlockFrame :: FrameParseState
  lastPacketNumber :: int

text \<open>The calls of the two callbacks, with the data they are given.\<close>

datatype callback =
    EventData u8 int "ModuleData list"
  | SystemEvent u8 "u32 list"

text \<open>What a parser function can read and change.\<close>

record parser_ctx =
  ctx_state :: ReadoutParserState
  ctx_counters :: ReadoutParserCounters
  ctx_log :: "callback list"
  ctx_input :: "u32 list"

definition upd_state :: "(ReadoutParserState \<Rightarrow> ReadoutParserState) \<Rightarrow> parser_ctx \<Rightarrow> parser_ctx" where
  "upd_state f c = c\<lparr>ctx_state := f (ctx_state c)\<rparr>"

definition upd_counters ::
  "(ReadoutParserCounters \<Rightarrow> ReadoutParserCounters) \<Rightarrow> parser_ctx \<Rightarrow> parser_ctx" where
  "upd_counters f c = c\<lparr>ctx_counters := f (ctx_counters c)\<rparr>"

definition set_input :: "u32 list \<Rightarrow> parser_ctx \<Rightarrow> parser_ctx" where
  "set_input xs c = c\<lparr>ctx_input := xs\<rparr>"

definition call_back :: "callback \<Rightarrow> parser_ctx \<Rightarrow> parser_ctx" where
  "call_back e c = c\<lparr>ctx_log := ctx_log c @ [e]\<rparr>"

datatype outcome = Next | Continue | Return ParseResult | Throw failure

definition and_then :: "parser_ctx \<times> outcome \<Rightarrow> (parser_ctx \<Rightarrow> parser_ctx \<times> outcome) \<Rightarrow>
    parser_ctx \<times> outcome" where
  "and_then r f = (case r of (c, o1) \<Rightarrow> if o1 = Next then f c else (c, o1))"

section \<open>The work buffer\<close>

definition wb_free :: "WorkBuffer \<Rightarrow> nat" where
  "wb_free wb = wb_allocated wb - length (wb_words wb)"

definition ensure_free_space :: "WorkBuffer \<Rightarrow> nat \<Rightarrow> WorkBuffer" where
  "ensure_free_space wb freeWords =
     (if wb_free wb < freeWords then wb\<lparr>wb_allocated := wb_allocated wb + freeWords\<rparr> else wb)"

text \<open>
  The copy writes behind the used words: memory behind the allocation must not
  be touched. The words left in the stack frame are a 16-bit number that wraps.
\<close>

definition copy_to_workbuffer :: "nat \<Rightarrow> parser_ctx \<Rightarrow> parser_ctx result" where
  "copy_to_workbuffer wordsToCopy c =
     (if length (ctx_input c) < wordsToCopy then Inl EndOfBuffer
      else let dest = ensure_free_space (workBuffer (ctx_state c)) wordsToCopy
        in if wb_allocated dest < length (wb_words dest) + wordsToCopy then Inl UndefinedBehaviour
           else Inr (set_input (drop wordsToCopy (ctx_input c))
             (upd_state (\<lambda>st. st
               \<lparr>workBuffer := dest\<lparr>wb_words := wb_words dest @ take wordsToCopy (ctx_input c)\<rparr>,
                curStackFrame := (curStackFrame st)
                  \<lparr>fps_wordsLeft := fps_wordsLeft (curStackFrame st) - of_nat wordsToCopy\<rparr>\<rparr>) c)))"

definition copy_words :: "nat \<Rightarrow> parser_ctx \<Rightarrow> parser_ctx \<times> outcome" where
  "copy_words n c = (case copy_to_workbuffer n c of Inl e \<Rightarrow> (c, Throw e) | Inr c' \<Rightarrow> (c', Next))"

section \<open>Creation and event state\<close>

abbreviation (input) InitialWorkerBufferSize :: nat where "InitialWorkerBufferSize \<equiv> 262144"

definition make_readout_parser :: "StackCommandBuilder list \<Rightarrow> ReadoutParserState result" where
  "make_readout_parser readoutStacks =
     result_map
       (\<lambda>structure.
          let maxGroupCount = foldl (\<lambda>n g. max n (length g)) 0 structure
          in \<lparr>lastBufferNumber = 0,
              workBuffer = ensure_free_space \<lparr>wb_allocated = 0, wb_words = []\<rparr> InitialWorkerBufferSize,
              readoutDataSpans = replicate maxGroupCount ModuleReadoutSpans_init,
              moduleDataBuffer = replicate maxGroupCount ModuleData_init,
              readoutStructure = structure, eventIndex = - 1, moduleIndex = - 1,
              groupParseState = Prefix, curStackFrame = FrameParseState_none,
              curBlockFrame = FrameParseState_none, lastPacketNumber = - 1\<rparr>)
       (build_readout_structure readoutStacks)"

definition is_event_in_progress :: "ReadoutParserState \<Rightarrow> bool" where
  "is_event_in_progress st \<longleftrightarrow> 0 \<le> eventIndex st"

definition clear_readout_data_spans :: "ModuleReadoutSpans list \<Rightarrow> ModuleReadoutSpans list" where
  "clear_readout_data_spans spans = map (\<lambda>_. ModuleReadoutSpans_init) spans"

definition parser_clear_event_state :: "ReadoutParserState \<Rightarrow> ReadoutParserState" where
  "parser_clear_event_state st =
     st\<lparr>eventIndex := - 1, moduleIndex := - 1, curStackFrame := FrameParseState_none,
        curBlockFrame := FrameParseState_none, groupParseState := Prefix\<rparr>"

definition parser_begin_event :: "u32 \<Rightarrow> ReadoutParserState \<Rightarrow> ReadoutParserState \<times> ParseResult" where
  "parser_begin_event frameHeader st =
     (let frameInfo = extract_frame_info frameHeader;
          idx = uint (fi_stack frameInfo) - 1
      in if fi_type frameInfo \<noteq> FT_StackFrame then (st, NotAStackFrame)
         else if idx < 0 \<or> int (length (readoutStructure st)) \<le> idx then (st, StackIndexOutOfRange)
         else (st\<lparr>workBuffer := (workBuffer st)\<lparr>wb_words := []\<rparr>,
                  readoutDataSpans := clear_readout_data_spans (readoutDataSpans st),
                  eventIndex := idx, moduleIndex := 0, groupParseState := Prefix,
                  curStackFrame := FrameParseState_of frameHeader,
                  curBlockFrame := FrameParseState_none\<rparr>, Ok))"

section \<open>System events and the search for a stack frame\<close>

definition try_handle_system_event :: "parser_ctx \<Rightarrow> (bool \<times> parser_ctx) result" where
  "try_handle_system_event c =
     (case ctx_input c of
        [] \<Rightarrow> Inr (False, c)
      | frameHeader # _ \<Rightarrow>
        if get_frame_type frameHeader \<noteq> FT_SystemEvent then Inr (False, c)
        else let frameInfo = extract_frame_info frameHeader; len = unat (fi_len frameInfo)
          in if length (ctx_input c) \<le> len then Inl EndOfBuffer
             else let subtype = extract_subtype frameHeader
               in Inr (True,
                    set_input (drop (len + 1) (ctx_input c))
                     (call_back (SystemEvent (fi_ctrl frameInfo) (take (len + 1) (ctx_input c)))
                      (upd_counters (\<lambda>cn. cn\<lparr>systemEvents :=
                         (systemEvents cn)(subtype := systemEvents cn subtype + 1)\<rparr>) c))))"

definition is_accepted_frame_type :: "u8 \<Rightarrow> bool" where
  "is_accepted_frame_type frameType \<longleftrightarrow>
     frameType = FT_StackFrame \<or> frameType = FT_StackContinuation"

function find_stack_frame_header :: "u8 \<Rightarrow> u32 list \<Rightarrow> bool \<times> u32 list" where
  "find_stack_frame_header wantedFrameType input =
     (case input of
        [] \<Rightarrow> (False, [])
      | h # _ \<Rightarrow>
        let frameInfo = extract_frame_info h; len = unat (fi_len frameInfo)
        in if fi_type frameInfo = wantedFrameType then (True, input)
           else if \<not> is_accepted_frame_type (fi_type frameInfo) then (False, input)
           else if length input \<le> len then (False, input)
           else find_stack_frame_header wantedFrameType (drop (len + 1) input))"
  by pat_completeness auto
termination
  by (relation "measure (\<lambda>(t, input). length input)") auto

declare find_stack_frame_header.simps [simp del]

section \<open>One iteration of parse\_readout\_contents\<close>

text \<open>An event is in progress: the next frame must be a continuation of its stack.\<close>

definition open_continuation :: "parser_ctx \<Rightarrow> parser_ctx \<times> outcome" where
  "open_continuation c =
     (case ctx_input c of
        [] \<Rightarrow> (c, Throw EndOfBuffer)
      | h # rest \<Rightarrow>
        let frameInfo = extract_frame_info h
        in if fi_type frameInfo \<noteq> FT_StackContinuation then (c, Return NotAStackContinuation)
           else if uint (fi_stack frameInfo) - 1 \<noteq> eventIndex (ctx_state c)
           then (c, Return StackIndexChanged)
           else let c = set_input rest
                      (upd_state (\<lambda>st. st\<lparr>curStackFrame := FrameParseState_of h\<rparr>) c)
             in if fps_wordsLeft (curStackFrame (ctx_state c)) = 0
                then (upd_counters (\<lambda>cn. cn\<lparr>emptyStackFrames := emptyStackFrames cn + 1\<rparr>)
                       (upd_state (\<lambda>st. st\<lparr>curBlockFrame := FrameParseState_none\<rparr>) c), Next)
                else (c, Next))"

text \<open>No event is in progress: search the next stack frame and begin an event.\<close>

definition open_event :: "parser_ctx \<Rightarrow> parser_ctx \<times> outcome" where
  "open_event c =
     (let (found, input) = find_stack_frame_header FT_StackFrame (ctx_input c)
      in if \<not> found then (set_input input c, Return NoStackFrameFound)
         else let unusedWords = length (ctx_input c) - length input;
                  c = set_input input (upd_counters (\<lambda>cn. cn
                        \<lparr>unusedBytes := unusedBytes cn + of_nat (unusedWords * 4)\<rparr>) c);
                  (st, pr) = parser_begin_event (hd input) (ctx_state c)
           in if pr \<noteq> Ok then (c, Return pr)
              else (set_input (tl input) (upd_state (\<lambda>_. st) c), Next))"

definition open_stack_frame :: "bool \<Rightarrow> parser_ctx \<Rightarrow> parser_ctx \<times> outcome" where
  "open_stack_frame is_eth c =
     (let st = ctx_state c
      in if fps_wordsLeft (curStackFrame st) \<noteq> 0 then (c, Next)
         else if fps_wordsLeft (curBlockFrame st) \<noteq> 0 then (c, Return UnexpectedOpenBlockFrame)
         else case (if is_eth then Inr (False, c) else try_handle_system_event c) of
           Inl e \<Rightarrow> (c, Throw e)
         | Inr (True, c') \<Rightarrow> (c', Continue)
         | Inr (False, _) \<Rightarrow>
             if is_event_in_progress st then open_continuation c else open_event c)"

text \<open>The module readout infos of the current event.\<close>

definition moduleReadoutInfos :: "ReadoutParserState \<Rightarrow> ModuleReadoutStructure list" where
  "moduleReadoutInfos st = readoutStructure st ! nat (eventIndex st)"

definition crateId :: "ReadoutParserState \<Rightarrow> u8" where
  "crateId st = fi_ctrl (extract_frame_info (fps_header (curStackFrame st)))"

text \<open>A stack frame of length 0: the event is delivered without data.\<close>

definition handle_empty_frame :: "parser_ctx \<Rightarrow> parser_ctx \<times> outcome" where
  "handle_empty_frame c =
     (let st = ctx_state c; moduleCount = length (moduleReadoutInfos st)
      in if length (moduleDataBuffer st) < moduleCount then (c, Throw UndefinedBehaviour)
         else let buf = replicate moduleCount ModuleData_init @ drop moduleCount (moduleDataBuffer st)
           in (upd_state parser_clear_event_state
                (call_back (EventData (crateId st) (eventIndex st) (take moduleCount buf))
                  (upd_state (\<lambda>st. st\<lparr>moduleDataBuffer := buf\<rparr>)
                    (upd_counters (\<lambda>cn. cn\<lparr>emptyStackFrames := emptyStackFrames cn + 1\<rparr>) c))),
               Continue))"

definition check_event :: "parser_ctx \<Rightarrow> parser_ctx \<times> outcome" where
  "check_event c =
     (let st = ctx_state c
      in if eventIndex st < 0 \<or> int (length (readoutStructure st)) \<le> eventIndex st
         then (c, Throw UndefinedBehaviour)
         else if get_frame_length (fps_header (curStackFrame st)) = 0 then handle_empty_frame c
         else if moduleReadoutInfos st = []
         then if fi_len (extract_frame_info (fps_header (curStackFrame st))) \<noteq> 0
              then (upd_state parser_clear_event_state c, Return UnexpectedNonEmptyStackFrame)
              else (upd_state parser_clear_event_state c, Return Ok)
         else if moduleIndex st < 0 \<or> int (length (moduleReadoutInfos st)) \<le> moduleIndex st
         then (c, Return GroupIndexOutOfRange)
         else (c, Next))"

text \<open>The spans of the current module.\<close>

definition cur_spans :: "ReadoutParserState \<Rightarrow> ModuleReadoutSpans" where
  "cur_spans st = readoutDataSpans st ! nat (moduleIndex st)"

definition upd_spans ::
  "(ModuleReadoutSpans \<Rightarrow> ModuleReadoutSpans) \<Rightarrow> ReadoutParserState \<Rightarrow> ReadoutParserState" where
  "upd_spans f st =
     st\<lparr>readoutDataSpans :=
          (readoutDataSpans st)[nat (moduleIndex st) := f (cur_spans st)]\<rparr>"

definition cur_parts :: "ReadoutParserState \<Rightarrow> ModuleReadoutStructure" where
  "cur_parts st = moduleReadoutInfos st ! nat (moduleIndex st)"

definition module_done :: "ReadoutParserState \<Rightarrow> ReadoutParserState" where
  "module_done st = st\<lparr>moduleIndex := moduleIndex st + 1, groupParseState := Prefix\<rparr>"

text \<open>\<open>if (span.size == 0) span.offset = state.workBuffer.used\<close>, then \<open>span.size += n\<close>.\<close>

definition begin_span :: "nat \<Rightarrow> Span \<Rightarrow> Span" where
  "begin_span used sp = (if sp_size sp = 0 then sp\<lparr>sp_offset := used\<rparr> else sp)"

definition grow_span :: "nat \<Rightarrow> Span \<Rightarrow> Span" where
  "grow_span n sp = sp\<lparr>sp_size := sp_size sp + n\<rparr>"

definition wb_used :: "ReadoutParserState \<Rightarrow> nat" where
  "wb_used st = length (wb_words (workBuffer st))"

text \<open>
  The copy of data words into one of the three spans of the current module:
  record the offset of its first word, copy, and account for the words.
\<close>

definition copy_part ::
  "((Span \<Rightarrow> Span) \<Rightarrow> ModuleReadoutSpans \<Rightarrow> ModuleReadoutSpans) \<Rightarrow> nat \<Rightarrow> parser_ctx \<Rightarrow>
   parser_ctx \<times> outcome" where
  "copy_part update_span wordsToCopy c =
     and_then
       (copy_words wordsToCopy
         (upd_state (upd_spans (update_span (begin_span (wb_used (ctx_state c))))) c))
       (\<lambda>c. (upd_state (upd_spans (update_span (grow_span wordsToCopy))) c, Next))"

definition copy_prefix :: "parser_ctx \<Rightarrow> parser_ctx \<times> outcome" where
  "copy_prefix c =
     (let st = ctx_state c;
          size = sp_size (prefixSpan (cur_spans st));
          len = unat (prefixLen (cur_parts st))
      in if size < len
         then copy_part prefixSpan_update
                (min (len - size)
                  (min (unat (fps_wordsLeft (curStackFrame st))) (length (ctx_input c)))) c
         else (c, Next))"

definition parse_prefix :: "parser_ctx \<Rightarrow> parser_ctx \<times> outcome" where
  "parse_prefix c =
     and_then (copy_prefix c)
       (\<lambda>c. let st = ctx_state c; parts = cur_parts st
            in if sp_size (prefixSpan (cur_spans st)) = unat (prefixLen parts)
               then if hasDynamic parts
                    then (upd_state (\<lambda>st. st\<lparr>groupParseState := Dynamic\<rparr>) c, Continue)
                    else if suffixLen parts \<noteq> 0
                    then (upd_state (\<lambda>st. st\<lparr>groupParseState := Suffix\<rparr>) c, Continue)
                    else (upd_state module_done c, Next)
               else (c, Next))"

text \<open>Read a block frame header where one is expected.\<close>

definition open_block_frame :: "parser_ctx \<Rightarrow> parser_ctx \<times> outcome" where
  "open_block_frame c =
     (let st = ctx_state c
      in if fps_wordsLeft (curStackFrame st) \<noteq> 0 \<and> fps_wordsLeft (curBlockFrame st) = 0
         then case ctx_input c of
             [] \<Rightarrow> (c, Return Ok)
           | h # rest \<Rightarrow>
             if fi_type (extract_frame_info h) \<noteq> FT_BlockRead
             then (upd_state parser_clear_event_state c, Return NotABlockFrame)
             else let c = set_input rest
                        (upd_state (\<lambda>st. st\<lparr>curBlockFrame := FrameParseState_of h\<rparr>) c)
               in (case consumeWord (curStackFrame st) of
                     Inl e \<Rightarrow> (c, Throw e)
                   | Inr f \<Rightarrow> (upd_state (\<lambda>st. st\<lparr>curStackFrame := f\<rparr>) c, Next))
         else (c, Next))"

definition copy_dynamic :: "parser_ctx \<Rightarrow> parser_ctx \<times> outcome" where
  "copy_dynamic c =
     (let wordsToCopy =
            min (unat (fps_wordsLeft (curBlockFrame (ctx_state c)))) (length (ctx_input c))
      in and_then (copy_part dynamicSpan_update wordsToCopy c)
           (\<lambda>c. (upd_state (\<lambda>st. st\<lparr>curBlockFrame := (curBlockFrame st)
                      \<lparr>fps_wordsLeft := fps_wordsLeft (curBlockFrame st) - of_nat wordsToCopy\<rparr>\<rparr>) c,
                 Next)))"

text \<open>
  Modules without the \<open>retry\<close> line: two trailing \<open>0xffffffff\<close> words are taken
  off the span.
\<close>

definition span_words :: "ReadoutParserState \<Rightarrow> Span \<Rightarrow> u32 list" where
  "span_words st sp = take (sp_size sp) (drop (sp_offset sp) (wb_words (workBuffer st)))"

definition ends_with_fill :: "u32 list \<Rightarrow> bool" where
  "ends_with_fill ws \<longleftrightarrow>
     2 \<le> length ws \<and> length ws mod 4 = 0 \<and> last ws = 0xFFFFFFFF \<and> last (butlast ws) = 0xFFFFFFFF"

definition trim_2eSST :: "parser_ctx \<Rightarrow> parser_ctx \<times> outcome" where
  "trim_2eSST c =
     (let st = ctx_state c; sp = dynamicSpan (cur_spans st)
      in if \<not> isMesytecAndUsing2eSST (cur_parts st) then (c, Next)
         else if wb_used st < sp_offset sp + sp_size sp then (c, Throw UndefinedBehaviour)
         else if ends_with_fill (span_words st sp)
         then (upd_state (upd_spans (\<lambda>sps. sps
                 \<lparr>dynamicSpan := (dynamicSpan sps)\<lparr>sp_size := sp_size (dynamicSpan sps) - 2\<rparr>\<rparr>)) c, Next)
         else (c, Next))"

definition block_frame_done :: "ReadoutParserState \<Rightarrow> bool" where
  "block_frame_done st \<longleftrightarrow>
     fps_wordsLeft (curBlockFrame st) = 0
     \<and> fi_flags (extract_frame_info (fps_header (curBlockFrame st))) AND FF_Continue = 0"

definition parse_dynamic :: "parser_ctx \<Rightarrow> parser_ctx \<times> outcome" where
  "parse_dynamic c =
     and_then (and_then (open_block_frame c) copy_dynamic)
       (\<lambda>c. if block_frame_done (ctx_state c)
            then and_then (trim_2eSST c)
              (\<lambda>c. if suffixLen (cur_parts (ctx_state c)) = 0 then (upd_state module_done c, Next)
                   else (upd_state (\<lambda>st. st\<lparr>groupParseState := Suffix\<rparr>) c, Continue))
            else (c, Next))"

definition copy_suffix :: "parser_ctx \<Rightarrow> parser_ctx \<times> outcome" where
  "copy_suffix c =
     (let st = ctx_state c;
          size = sp_size (suffixSpan (cur_spans st));
          len = unat (suffixLen (cur_parts st))
      in if size < len
         then copy_part suffixSpan_update
                (min (len - size)
                  (min (unat (fps_wordsLeft (curStackFrame st))) (length (ctx_input c)))) c
         else (c, Next))"

definition parse_suffix :: "parser_ctx \<Rightarrow> parser_ctx \<times> outcome" where
  "parse_suffix c =
     and_then (copy_suffix c)
       (\<lambda>c. if unat (suffixLen (cur_parts (ctx_state c))) \<le> sp_size (suffixSpan (cur_spans (ctx_state c)))
            then (upd_state module_done c, Next) else (c, Next))"

definition parse_module :: "parser_ctx \<Rightarrow> parser_ctx \<times> outcome" where
  "parse_module c =
     (let st = ctx_state c
      in if mrs_is_empty (cur_parts st)
         then (upd_state (\<lambda>st. st\<lparr>moduleIndex := moduleIndex st + 1\<rparr>) c, Next)
         else if int (length (readoutDataSpans st)) \<le> moduleIndex st then (c, Throw UndefinedBehaviour)
         else case groupParseState st of
             Prefix \<Rightarrow> parse_prefix c
           | Dynamic \<Rightarrow> parse_dynamic c
           | Suffix \<Rightarrow> parse_suffix c)"

function skip_empty_modules :: "ModuleReadoutStructure list \<Rightarrow> int \<Rightarrow> int" where
  "skip_empty_modules infos mi =
     (if mi < int (length infos) \<and> mrs_is_empty (infos ! nat mi)
      then skip_empty_modules infos (mi + 1) else mi)"
  by pat_completeness auto
termination
  by (relation "measure (\<lambda>(infos, mi). nat (int (length infos) - mi))") auto

declare skip_empty_modules.simps [simp del]

definition module_data :: "u32 list \<Rightarrow> ModuleReadoutSpans \<Rightarrow> ModuleReadoutStructure \<Rightarrow> ModuleData result" where
  "module_data buf spans parts =
     (let startOffset =
            (if sp_size (prefixSpan spans) \<noteq> 0 then sp_offset (prefixSpan spans)
             else if sp_size (dynamicSpan spans) \<noteq> 0 then sp_offset (dynamicSpan spans)
             else if sp_size (suffixSpan spans) \<noteq> 0 then sp_offset (suffixSpan spans)
             else 0);
          dataSize = sp_size (prefixSpan spans) + sp_size (dynamicSpan spans) + sp_size (suffixSpan spans)
      in if length buf < startOffset + dataSize then Inl UndefinedBehaviour
         else Inr \<lparr>md_data = take dataSize (drop startOffset buf),
                   md_prefixSize = sp_size (prefixSpan spans),
                   md_dynamicSize = sp_size (dynamicSpan spans),
                   md_suffixSize = sp_size (suffixSpan spans),
                   md_hasDynamic = hasDynamic parts\<rparr>)"

definition update_part_size_info :: "nat \<Rightarrow> PartSizeInfo \<Rightarrow> PartSizeInfo" where
  "update_part_size_info n info =
     \<lparr>psi_min = min (psi_min info) (of_nat n), psi_max = max (psi_max info) (of_nat n),
      psi_sum = psi_sum info + of_nat n\<rparr>"

definition count_part :: "int \<Rightarrow> nat \<times> ModuleData \<Rightarrow> ReadoutParserCounters \<Rightarrow> ReadoutParserCounters" where
  "count_part ev p cn =
     (case p of (mi, md) \<Rightarrow>
      if md_data md = [] then cn
      else cn\<lparr>groupHits := (groupHits cn)((ev, mi) := groupHits cn (ev, mi) + 1),
              groupSizes := (groupSizes cn)
                ((ev, mi) := update_part_size_info (length (md_data md)) (groupSizes cn (ev, mi)))\<rparr>)"

definition flush_event :: "parser_ctx \<Rightarrow> parser_ctx \<times> outcome" where
  "flush_event c =
     (let st = ctx_state c; infos = moduleReadoutInfos st; moduleCount = length infos
      in if moduleIndex st < int moduleCount then (c, Next)
         else if length (readoutDataSpans st) < moduleCount \<or> length (moduleDataBuffer st) < moduleCount
         then (c, Throw UndefinedBehaviour)
         else case result_mapM (\<lambda>(spans, parts). module_data (wb_words (workBuffer st)) spans parts)
                     (zip (readoutDataSpans st) infos) of
             Inl e \<Rightarrow> (c, Throw e)
           | Inr mds \<Rightarrow>
               (upd_state parser_clear_event_state
                 (upd_counters (\<lambda>cn. cn\<lparr>eventHits :=
                      (eventHits cn)(eventIndex st := eventHits cn (eventIndex st) + 1)\<rparr>)
                 (call_back (EventData (crateId st) (eventIndex st) mds)
                 (upd_counters (fold (count_part (eventIndex st)) (zip [0..<moduleCount] mds))
                 (upd_state (\<lambda>st. st\<lparr>moduleDataBuffer := mds @ drop moduleCount (moduleDataBuffer st)\<rparr>) c)))),
                Next))"

definition check_advance :: "nat \<Rightarrow> parser_ctx \<Rightarrow> parser_ctx \<times> outcome" where
  "check_advance lastLength c =
     (if length (ctx_input c) = lastLength then (c, Return ParseReadoutContentsNotAdvancing)
      else (c, Continue))"

definition finish_iteration :: "nat \<Rightarrow> parser_ctx \<Rightarrow> parser_ctx \<times> outcome" where
  "finish_iteration lastLength c =
     and_then
       (flush_event (upd_state (\<lambda>st. st
          \<lparr>moduleIndex := skip_empty_modules (moduleReadoutInfos st) (moduleIndex st)\<rparr>) c))
       (check_advance lastLength)"

definition event_part :: "nat \<Rightarrow> parser_ctx \<Rightarrow> parser_ctx \<times> outcome" where
  "event_part lastLength c =
     and_then (and_then (check_event c) parse_module) (finish_iteration lastLength)"

definition iteration :: "bool \<Rightarrow> parser_ctx \<Rightarrow> parser_ctx \<times> outcome" where
  "iteration is_eth c = and_then (open_stack_frame is_eth c) (event_part (length (ctx_input c)))"

end
