(* ===== verification/Readout_Parser.thy ===== *)
theory Readout_Parser
  imports Readout_Parser_Step Mvlc_Buffers
begin

text \<open>
  The loops of the readout parser: \<open>parse_readout_contents\<close>, which repeats the
  iteration of \<open>Readout_Parser_Step\<close> until the input is used up, and the functions
  that feed it with UDP packets and USB and ETH buffers. The loop terminates
  because every continued iteration consumes input or moves on to the next part
  of a module.
\<close>

section \<open>Every continued iteration makes progress\<close>

lemma upd_simps [simp]:
  "ctx_state (upd_state f c) = f (ctx_state c)" "ctx_counters (upd_state f c) = ctx_counters c"
  "ctx_log (upd_state f c) = ctx_log c" "ctx_input (upd_state f c) = ctx_input c"
  "ctx_state (upd_counters g c) = ctx_state c" "ctx_counters (upd_counters g c) = g (ctx_counters c)"
  "ctx_log (upd_counters g c) = ctx_log c" "ctx_input (upd_counters g c) = ctx_input c"
  "ctx_state (set_input xs c) = ctx_state c" "ctx_counters (set_input xs c) = ctx_counters c"
  "ctx_log (set_input xs c) = ctx_log c" "ctx_input (set_input xs c) = xs"
  "ctx_state (call_back e c) = ctx_state c" "ctx_counters (call_back e c) = ctx_counters c"
  "ctx_log (call_back e c) = ctx_log c @ [e]" "ctx_input (call_back e c) = ctx_input c"
  by (simp_all add: upd_state_def upd_counters_def set_input_def call_back_def)

lemma and_then_simps [simp]:
  "and_then (c, Next) f = f c" "and_then (c, Continue) f = (c, Continue)"
  "and_then (c, Return r) f = (c, Return r)" "and_then (c, Throw e) f = (c, Throw e)"
  by (simp_all add: and_then_def)

lemma and_then_cases:
  assumes "and_then r f = (c', out)"
  obtains (go) c where "r = (c, Next)" "f c = (c', out)" | (stop) "r = (c', out)" "out \<noteq> Next"
  using assms by (cases r) (auto simp: and_then_def split: if_splits)

text \<open>The stages never lengthen the input.\<close>

definition shrinks :: "(parser_ctx \<Rightarrow> parser_ctx \<times> outcome) \<Rightarrow> bool" where
  "shrinks f \<longleftrightarrow> (\<forall>c. length (ctx_input (fst (f c))) \<le> length (ctx_input c))"

lemma shrinksD: "shrinks f \<Longrightarrow> f c = (c', out) \<Longrightarrow> length (ctx_input c') \<le> length (ctx_input c)"
  by (metis shrinks_def fst_conv)

lemma shrinksI:
  "(\<And>c c' out. f c = (c', out) \<Longrightarrow> length (ctx_input c') \<le> length (ctx_input c)) \<Longrightarrow> shrinks f"
  unfolding shrinks_def by (metis prod.collapse)

lemma shrinks_and_then: "shrinks f \<Longrightarrow> shrinks g \<Longrightarrow> shrinks (\<lambda>c. and_then (f c) g)"
  unfolding shrinks_def and_then_def
  by (auto split: prod.splits if_splits) (metis fst_conv le_trans)+

lemma find_stack_frame_header_length:
  "find_stack_frame_header t xs = (b, ys) \<Longrightarrow> length ys \<le> length xs"
proof (induction t xs arbitrary: b ys rule: find_stack_frame_header.induct)
  case (1 t xs)
  then show ?case
    by (subst (asm) (2) find_stack_frame_header.simps)
      (fastforce simp: Let_def split: list.splits if_splits)
qed

lemma find_stack_frame_header_found:
  "find_stack_frame_header t xs = (True, ys) \<Longrightarrow> ys \<noteq> []"
proof (induction t xs arbitrary: ys rule: find_stack_frame_header.induct)
  case (1 t xs)
  then show ?case
    by (subst (asm) (2) find_stack_frame_header.simps)
      (auto simp: Let_def split: list.splits if_splits)
qed

text \<open>The context after a successful copy.\<close>

definition copied :: "nat \<Rightarrow> parser_ctx \<Rightarrow> parser_ctx" where
  "copied n c =
     set_input (drop n (ctx_input c))
       (upd_state (\<lambda>st. st
         \<lparr>workBuffer := (ensure_free_space (workBuffer st) n)
            \<lparr>wb_words := wb_words (workBuffer st) @ take n (ctx_input c)\<rparr>,
          curStackFrame := (curStackFrame st)
            \<lparr>fps_wordsLeft := fps_wordsLeft (curStackFrame st) - of_nat n\<rparr>\<rparr>) c)"

lemma wb_words_ensure [simp]: "wb_words (ensure_free_space wb n) = wb_words wb"
  by (simp add: ensure_free_space_def)

lemma copy_words_cases:
  assumes "copy_words n c = (c', out)"
  obtains (ok) "out = Next" "n \<le> length (ctx_input c)" "c' = copied n c"
    | (fail) e where "out = Throw e" "c' = c"
proof (cases "copy_to_workbuffer n c")
  case (Inl e)
  with assms show ?thesis by (intro fail [of e]) (simp_all add: copy_words_def)
next
  case (Inr d)
  then have "n \<le> length (ctx_input c)" "d = copied n c"
    by (simp_all add: copy_to_workbuffer_def copied_def Let_def upd_state_def split: if_splits)
  with Inr assms show ?thesis by (intro ok) (simp_all add: copy_words_def)
qed

lemma shrinks_copy_words: "shrinks (copy_words n)"
  by (rule shrinksI, erule copy_words_cases) (simp_all add: copied_def)

text \<open>The context after a successful copy into a span.\<close>

definition part_copied ::
  "((Span \<Rightarrow> Span) \<Rightarrow> ModuleReadoutSpans \<Rightarrow> ModuleReadoutSpans) \<Rightarrow> nat \<Rightarrow> parser_ctx \<Rightarrow> parser_ctx" where
  "part_copied upd n c =
     upd_state (upd_spans (upd (grow_span n)))
       (copied n (upd_state (upd_spans (upd (begin_span (wb_used (ctx_state c))))) c))"

lemma copy_part_cases:
  assumes "copy_part upd n c = (c', out)"
  obtains (ok) "out = Next" "n \<le> length (ctx_input c)" "c' = part_copied upd n c"
    | (fail) e where "out = Throw e" "ctx_input c' = ctx_input c"
  using assms unfolding copy_part_def
proof (cases rule: and_then_cases)
  case (go d)
  then show ?thesis
    by (cases rule: copy_words_cases) (auto simp: part_copied_def intro: ok)
next
  case stop
  from stop(1) show ?thesis
    using stop(2) by (cases rule: copy_words_cases) (auto intro: fail)
qed

lemma shrinks_copy_part: "shrinks (copy_part upd n)"
  by (rule shrinksI, erule copy_part_cases) (simp_all add: part_copied_def copied_def)

lemma shrinks_upd: "shrinks f \<Longrightarrow> shrinks (\<lambda>c. and_then (f c) (\<lambda>c. (upd_state (g c) c, h c)))"
  by (rule shrinks_and_then) (simp_all add: shrinks_def)

lemma length_copy_part: "length (ctx_input (fst (copy_part upd n c))) \<le> length (ctx_input c)"
  using shrinks_copy_part by (simp add: shrinks_def)

lemma shrinks_parts: "shrinks copy_prefix" "shrinks copy_suffix" "shrinks copy_dynamic"
  unfolding copy_prefix_def copy_suffix_def copy_dynamic_def shrinks_def
  by (auto simp: Let_def length_copy_part and_then_def split: prod.splits)
    (metis fst_conv length_copy_part)+

lemma shrinks_parse: "shrinks parse_prefix" "shrinks parse_suffix"
  unfolding parse_prefix_def parse_suffix_def
  by (rule shrinks_and_then, rule shrinks_parts, simp add: shrinks_def Let_def)+

lemma shrinks_open_block_frame: "shrinks open_block_frame"
  by (rule shrinksI)
    (auto simp: open_block_frame_def consumeWord_def Let_def split: if_splits list.splits)

lemma shrinks_trim_2eSST: "shrinks trim_2eSST"
  by (rule shrinksI) (auto simp: trim_2eSST_def Let_def split: if_splits)

lemma shrinks_parse_dynamic: "shrinks parse_dynamic"
proof -
  have "shrinks (\<lambda>c. and_then (trim_2eSST c)
      (\<lambda>c. if suffixLen (cur_parts (ctx_state c)) = 0 then (upd_state module_done c, Next)
           else (upd_state (\<lambda>st. st\<lparr>groupParseState := Suffix\<rparr>) c, Continue)))"
    by (rule shrinks_and_then [OF shrinks_trim_2eSST]) (simp add: shrinks_def)
  then have "shrinks (\<lambda>c. if block_frame_done (ctx_state c)
      then and_then (trim_2eSST c)
        (\<lambda>c. if suffixLen (cur_parts (ctx_state c)) = 0 then (upd_state module_done c, Next)
             else (upd_state (\<lambda>st. st\<lparr>groupParseState := Suffix\<rparr>) c, Continue))
      else (c, Next))"
    unfolding shrinks_def by simp
  then show ?thesis
    unfolding parse_dynamic_def
    by (intro shrinks_and_then shrinks_open_block_frame shrinks_parts)
qed

lemma shrinks_parse_module: "shrinks parse_module"
  using shrinks_parse shrinks_parse_dynamic
  by (auto simp: shrinks_def parse_module_def Let_def split: GroupParseState.splits)

lemma shrinks_check_event: "shrinks check_event"
  by (rule shrinksI) (auto simp: check_event_def handle_empty_frame_def Let_def split: if_splits)

lemma shrinks_flush_event: "shrinks flush_event"
  by (rule shrinksI) (auto simp: flush_event_def Let_def split: if_splits sum.splits)

lemma shrinks_finish_iteration: "shrinks (finish_iteration n)"
proof -
  have "shrinks (\<lambda>c. flush_event (upd_state (\<lambda>st. st
      \<lparr>moduleIndex := skip_empty_modules (moduleReadoutInfos st) (moduleIndex st)\<rparr>) c))"
    using shrinks_flush_event unfolding shrinks_def by (metis upd_simps(4))
  then show ?thesis
    unfolding finish_iteration_def
    by (rule shrinks_and_then) (simp add: shrinks_def check_advance_def)
qed

lemma event_part_shrinks: "shrinks (event_part n)"
  unfolding event_part_def
  by (intro shrinks_and_then shrinks_check_event shrinks_parse_module shrinks_finish_iteration)

text \<open>Opening a frame consumes input, unless a frame is open already.\<close>

lemma try_handle_system_event_consumes:
  "try_handle_system_event c = Inr (True, c') \<Longrightarrow> length (ctx_input c') < length (ctx_input c)"
  by (auto simp: try_handle_system_event_def Let_def split: list.splits if_splits)

lemma open_event_consumes:
  assumes "open_event c = (c', Next)"
  shows "length (ctx_input c') < length (ctx_input c)"
proof -
  obtain found ys where f: "find_stack_frame_header FT_StackFrame (ctx_input c) = (found, ys)"
    by (cases "find_stack_frame_header FT_StackFrame (ctx_input c)")
  with assms have found and "ctx_input c' = tl ys"
    by (auto simp: open_event_def Let_def split: prod.splits if_splits)
  with find_stack_frame_header_length [OF f] find_stack_frame_header_found [of FT_StackFrame _ ys] f
  show ?thesis by (cases ys) auto
qed

lemma open_continuation_consumes:
  "open_continuation c = (c', Next) \<Longrightarrow> length (ctx_input c') < length (ctx_input c)"
  by (auto simp: open_continuation_def Let_def split: list.splits if_splits)

lemma open_stack_frame_Next:
  assumes "open_stack_frame e c = (c', Next)"
  shows "c' = c \<and> fps_wordsLeft (curStackFrame (ctx_state c)) \<noteq> 0 \<or>
         length (ctx_input c') < length (ctx_input c)"
  using assms open_event_consumes [of c c'] open_continuation_consumes [of c c']
  by (auto simp: open_stack_frame_def Let_def split: if_splits sum.splits bool.splits)

lemma open_stack_frame_Continue:
  assumes "open_stack_frame e c = (c', Continue)"
  shows "length (ctx_input c') < length (ctx_input c)"
proof -
  have "open_continuation c \<noteq> (c', Continue)" "open_event c \<noteq> (c', Continue)"
    by (auto simp: open_continuation_def open_event_def Let_def split: list.splits prod.splits if_splits)
  with assms show ?thesis
    using try_handle_system_event_consumes [of c c']
    by (auto simp: open_stack_frame_def Let_def split: if_splits sum.splits bool.splits)
qed

fun phase :: "GroupParseState \<Rightarrow> nat" where
  "phase Prefix = 2" | "phase Dynamic = 1" | "phase Suffix = 0"

definition rank :: "parser_ctx \<Rightarrow> nat" where
  "rank c = (if fps_wordsLeft (curStackFrame (ctx_state c)) = 0 then 0 else 3) +
            phase (groupParseState (ctx_state c))"

definition progress :: "parser_ctx \<Rightarrow> parser_ctx \<Rightarrow> bool" where
  "progress c c' \<longleftrightarrow> length (ctx_input c') < length (ctx_input c) \<or>
     length (ctx_input c') = length (ctx_input c) \<and> rank c' < rank c"

lemma check_event_Continue:
  assumes "check_event c = (c', Continue)"
  shows "ctx_input c' = ctx_input c \<and> rank c' = 2"
proof -
  have "fi_len (extract_frame_info 0) = 0" by code_simp
  with assms show ?thesis
    by (auto simp: check_event_def handle_empty_frame_def parser_clear_event_state_def
        FrameParseState_of_def rank_def Let_def split: if_splits)
qed

lemma check_event_Next: "check_event c = (c', Next) \<Longrightarrow> c' = c"
  by (auto simp: check_event_def handle_empty_frame_def Let_def split: if_splits)

text \<open>A copy that moves no word changes neither the stack frame nor the phase.\<close>

lemma upd_spans_simps [simp]:
  "workBuffer (upd_spans f st) = workBuffer st" "groupParseState (upd_spans f st) = groupParseState st"
  "curStackFrame (upd_spans f st) = curStackFrame st" "curBlockFrame (upd_spans f st) = curBlockFrame st"
  "eventIndex (upd_spans f st) = eventIndex st" "moduleIndex (upd_spans f st) = moduleIndex st"
  "readoutStructure (upd_spans f st) = readoutStructure st"
  "moduleDataBuffer (upd_spans f st) = moduleDataBuffer st"
  "lastPacketNumber (upd_spans f st) = lastPacketNumber st"
  "lastBufferNumber (upd_spans f st) = lastBufferNumber st"
  "length (readoutDataSpans (upd_spans f st)) = length (readoutDataSpans st)"
  by (simp_all add: upd_spans_def)

lemma copied_simps [simp]:
  "ctx_input (copied n c) = drop n (ctx_input c)" "ctx_log (copied n c) = ctx_log c"
  "ctx_counters (copied n c) = ctx_counters c"
  "wb_words (workBuffer (ctx_state (copied n c))) =
     wb_words (workBuffer (ctx_state c)) @ take n (ctx_input c)"
  "fps_wordsLeft (curStackFrame (ctx_state (copied n c))) =
     fps_wordsLeft (curStackFrame (ctx_state c)) - of_nat n"
  "fps_header (curStackFrame (ctx_state (copied n c))) = fps_header (curStackFrame (ctx_state c))"
  "curBlockFrame (ctx_state (copied n c)) = curBlockFrame (ctx_state c)"
  "groupParseState (ctx_state (copied n c)) = groupParseState (ctx_state c)"
  "eventIndex (ctx_state (copied n c)) = eventIndex (ctx_state c)"
  "moduleIndex (ctx_state (copied n c)) = moduleIndex (ctx_state c)"
  "readoutStructure (ctx_state (copied n c)) = readoutStructure (ctx_state c)"
  "moduleDataBuffer (ctx_state (copied n c)) = moduleDataBuffer (ctx_state c)"
  "readoutDataSpans (ctx_state (copied n c)) = readoutDataSpans (ctx_state c)"
  "lastPacketNumber (ctx_state (copied n c)) = lastPacketNumber (ctx_state c)"
  "lastBufferNumber (ctx_state (copied n c)) = lastBufferNumber (ctx_state c)"
  by (simp_all add: copied_def)

lemma part_copied_simps [simp]:
  "ctx_input (part_copied u n c) = drop n (ctx_input c)" "ctx_log (part_copied u n c) = ctx_log c"
  "ctx_counters (part_copied u n c) = ctx_counters c"
  "wb_words (workBuffer (ctx_state (part_copied u n c))) =
     wb_words (workBuffer (ctx_state c)) @ take n (ctx_input c)"
  "fps_wordsLeft (curStackFrame (ctx_state (part_copied u n c))) =
     fps_wordsLeft (curStackFrame (ctx_state c)) - of_nat n"
  "fps_header (curStackFrame (ctx_state (part_copied u n c))) = fps_header (curStackFrame (ctx_state c))"
  "curBlockFrame (ctx_state (part_copied u n c)) = curBlockFrame (ctx_state c)"
  "groupParseState (ctx_state (part_copied u n c)) = groupParseState (ctx_state c)"
  "eventIndex (ctx_state (part_copied u n c)) = eventIndex (ctx_state c)"
  "moduleIndex (ctx_state (part_copied u n c)) = moduleIndex (ctx_state c)"
  "readoutStructure (ctx_state (part_copied u n c)) = readoutStructure (ctx_state c)"
  "moduleDataBuffer (ctx_state (part_copied u n c)) = moduleDataBuffer (ctx_state c)"
  "length (readoutDataSpans (ctx_state (part_copied u n c))) = length (readoutDataSpans (ctx_state c))"
  "lastPacketNumber (ctx_state (part_copied u n c)) = lastPacketNumber (ctx_state c)"
  "lastBufferNumber (ctx_state (part_copied u n c)) = lastBufferNumber (ctx_state c)"
  by (simp_all add: part_copied_def)

definition same_rank :: "parser_ctx \<Rightarrow> parser_ctx \<Rightarrow> bool" where
  "same_rank c c' \<longleftrightarrow> length (ctx_input c') < length (ctx_input c) \<or>
     ctx_input c' = ctx_input c \<and>
     fps_wordsLeft (curStackFrame (ctx_state c')) = fps_wordsLeft (curStackFrame (ctx_state c)) \<and>
     groupParseState (ctx_state c') = groupParseState (ctx_state c)"

lemma same_rank_refl: "same_rank c c"
  by (simp add: same_rank_def)

lemma copy_part_same_rank: "copy_part u n c = (c', Next) \<Longrightarrow> same_rank c c'"
proof (erule copy_part_cases)
  assume "n \<le> length (ctx_input c)" "c' = part_copied u n c"
  then show "same_rank c c'" by (cases "n = 0") (auto simp: same_rank_def)
qed simp

lemma copy_same_rank:
  "copy_prefix c = (c', Next) \<Longrightarrow> same_rank c c'" "copy_suffix c = (c', Next) \<Longrightarrow> same_rank c c'"
  by (auto simp: copy_prefix_def copy_suffix_def Let_def same_rank_refl
      dest: copy_part_same_rank split: if_splits)

lemma copy_dynamic_same_rank: "copy_dynamic c = (c', Next) \<Longrightarrow> same_rank c c'"
  unfolding copy_dynamic_def Let_def
  by (erule and_then_cases) (auto dest!: copy_part_same_rank simp: same_rank_def)

lemma open_block_frame_same_rank: "open_block_frame c = (c', Next) \<Longrightarrow> same_rank c c'"
  by (auto simp: open_block_frame_def consumeWord_def same_rank_def Let_def
      split: if_splits list.splits)

lemma same_rank_trans: "same_rank a b \<Longrightarrow> same_rank b c \<Longrightarrow> same_rank a c"
  by (auto simp: same_rank_def)

lemma parse_prefix_Continue: "parse_prefix c = (c', Continue) \<Longrightarrow>
   groupParseState (ctx_state c) = Prefix \<Longrightarrow> progress c c'"
  unfolding parse_prefix_def
proof (erule and_then_cases)
  fix d assume "copy_prefix c = (d, Next)" "groupParseState (ctx_state c) = Prefix"
    and d: "(let st = ctx_state d; parts = cur_parts st
            in if sp_size (prefixSpan (cur_spans st)) = unat (prefixLen parts)
               then if hasDynamic parts
                    then (upd_state (\<lambda>st. st\<lparr>groupParseState := Dynamic\<rparr>) d, Continue)
                    else if suffixLen parts \<noteq> 0
                    then (upd_state (\<lambda>st. st\<lparr>groupParseState := Suffix\<rparr>) d, Continue)
                    else (upd_state module_done d, Next)
               else (d, Next)) = (c', Continue)"
  then show "progress c c'"
    using copy_same_rank(1) [of c d]
    by (auto simp: Let_def same_rank_def progress_def rank_def split: if_splits)
next
  assume "copy_prefix c = (c', Continue)"
  then show "progress c c'"
    by (auto simp: copy_prefix_def Let_def split: if_splits elim: copy_part_cases)
qed

lemma trim_2eSST_cases: "trim_2eSST c = (c', out) \<Longrightarrow>
   (out = Next \<and> same_rank c c') \<or> (\<exists>e. out = Throw e)"
  by (auto simp: trim_2eSST_def Let_def same_rank_def split: if_splits)

lemma parse_dynamic_Continue:
  assumes "parse_dynamic c = (c', Continue)" "groupParseState (ctx_state c) = Dynamic"
  shows "progress c c'"
proof -
  have no: "open_block_frame x \<noteq> (y, Continue)" "copy_dynamic x \<noteq> (y, Continue)" for x y
    by (auto simp: open_block_frame_def copy_dynamic_def consumeWord_def Let_def
        split: if_splits list.splits elim!: and_then_cases copy_part_cases)
  from assms(1) obtain d where d: "and_then (open_block_frame c) copy_dynamic = (d, Next)"
    and rest: "(if block_frame_done (ctx_state d)
            then and_then (trim_2eSST d)
              (\<lambda>c. if suffixLen (cur_parts (ctx_state c)) = 0 then (upd_state module_done c, Next)
                   else (upd_state (\<lambda>st. st\<lparr>groupParseState := Suffix\<rparr>) c, Continue))
            else (d, Next)) = (c', Continue)"
    unfolding parse_dynamic_def using no by (auto elim!: and_then_cases)
  from d obtain b where "open_block_frame c = (b, Next)" "copy_dynamic b = (d, Next)"
    by (auto elim: and_then_cases)
  then have "same_rank c d"
    using open_block_frame_same_rank copy_dynamic_same_rank same_rank_trans by blast
  moreover have "trim_2eSST d \<noteq> (y, Continue)" for y
    by (auto simp: trim_2eSST_def Let_def split: if_splits)
  with rest obtain t where "trim_2eSST d = (t, Next)"
    and "c' = upd_state (\<lambda>st. st\<lparr>groupParseState := Suffix\<rparr>) t"
    by (auto split: if_splits elim!: and_then_cases)
  ultimately show ?thesis
    using trim_2eSST_cases [of d t Next] assms(2)
    by (auto simp: same_rank_def progress_def rank_def)
qed

lemma parse_suffix_Continue: "parse_suffix c \<noteq> (c', Continue)"
  by (auto simp: parse_suffix_def copy_suffix_def Let_def split: if_splits
      elim!: and_then_cases copy_part_cases)

lemma parse_module_Continue: "parse_module c = (c', Continue) \<Longrightarrow> progress c c'"
  by (auto simp: parse_module_def Let_def parse_suffix_Continue
      dest: parse_prefix_Continue parse_dynamic_Continue
      split: if_splits GroupParseState.splits)

lemma progress_less: "progress c c' \<Longrightarrow> length (ctx_input c) \<le> length (ctx_input d) \<Longrightarrow>
   length (ctx_input c) < length (ctx_input d) \<or> c = d \<Longrightarrow> progress d c'"
  by (auto simp: progress_def)

lemma finish_iteration_Continue:
  assumes "finish_iteration n c = (c', Continue)" "length (ctx_input c) \<le> n"
  shows "length (ctx_input c') < n"
proof -
  have no: "flush_event x \<noteq> (y, Continue)" for x y
    by (auto simp: flush_event_def Let_def split: if_splits sum.splits)
  have "length (ctx_input c') \<le> n"
    using shrinksD [OF shrinks_finish_iteration assms(1)] assms(2) by linarith
  moreover have "length (ctx_input c') \<noteq> n"
    using assms(1) no unfolding finish_iteration_def
    by (auto elim!: and_then_cases simp: check_advance_def split: if_splits)
  ultimately show ?thesis by linarith
qed

lemma event_part_Continue:
  assumes "event_part n c = (c', Continue)" "length (ctx_input c) \<le> n"
  obtains (empty) "ctx_input c' = ctx_input c" "rank c' = 2" | (module) "progress c c'"
    | (advance) "length (ctx_input c') < n"
proof -
  from assms(1) consider
      d where "and_then (check_event c) parse_module = (d, Next)" "finish_iteration n d = (c', Continue)"
    | "and_then (check_event c) parse_module = (c', Continue)"
    unfolding event_part_def by (elim and_then_cases) auto
  then show thesis
  proof cases
    case 1
    have "length (ctx_input d) \<le> length (ctx_input c)"
      using 1(1) shrinksD [OF shrinks_and_then [OF shrinks_check_event shrinks_parse_module]] by blast
    then show thesis using finish_iteration_Continue [OF 1(2)] assms(2) by (intro advance) linarith
  next
    case 2
    then show thesis
    proof (cases rule: and_then_cases)
      case (go d)
      with check_event_Next [OF go(1)] parse_module_Continue show thesis by (intro module) auto
    next
      case stop
      with check_event_Continue [OF stop(1)] show thesis by (intro empty) auto
    qed
  qed
qed

lemma iteration_progress:
  assumes "iteration e c = (c', Continue)"
  shows "progress c c'"
proof -
  from assms consider
      d where "open_stack_frame e c = (d, Next)" "event_part (length (ctx_input c)) d = (c', Continue)"
    | "open_stack_frame e c = (c', Continue)"
    unfolding iteration_def by (elim and_then_cases) auto
  then show ?thesis
  proof cases
    case 1
    have d: "d = c \<and> 3 \<le> rank c \<or> length (ctx_input d) < length (ctx_input c)"
      using open_stack_frame_Next [OF 1(1)] by (auto simp: rank_def)
    then have "length (ctx_input d) \<le> length (ctx_input c)" by auto
    with 1(2) show ?thesis
      by (cases rule: event_part_Continue) (use d in \<open>auto simp: progress_def\<close>)
  next
    case 2
    then show ?thesis using open_stack_frame_Continue by (auto simp: progress_def)
  qed
qed

section \<open>parse\_readout\_contents\<close>

function parse_readout_contents :: "bool \<Rightarrow> parser_ctx \<Rightarrow> parser_ctx \<times> ParseResult result" where
  "parse_readout_contents is_eth c =
     (if ctx_input c = [] then (c, Inr Ok)
      else case iteration is_eth c of
        (c', Return r) \<Rightarrow> (c', Inr r)
      | (c', Throw e) \<Rightarrow> (c', Inl e)
      | (c', Continue) \<Rightarrow> parse_readout_contents is_eth c'
      | (c', Next) \<Rightarrow> (c', Inl UndefinedBehaviour))"
  by pat_completeness auto
termination
  by (relation "inv_image (less_than <*lex*> less_than) (\<lambda>(e, c). (length (ctx_input c), rank c))")
    (auto dest!: iteration_progress [OF sym] simp: progress_def)

declare parse_readout_contents.simps [simp del]

lemma iteration_shrinks: "shrinks (iteration e)"
proof (rule shrinksI)
  fix c c' out
  assume "iteration e c = (c', out)"
  then consider d where "open_stack_frame e c = (d, Next)" "event_part (length (ctx_input c)) d = (c', out)"
    | "open_stack_frame e c = (c', out)"
    unfolding iteration_def by (elim and_then_cases) auto
  moreover have "length (ctx_input d) \<le> length (ctx_input c)" if "open_stack_frame e c = (d, o1)" for d o1
  proof -
    have "length (ctx_input d) \<le> length (ctx_input c)" if "open_event c = (d, o1)"
      using that find_stack_frame_header_length [of FT_StackFrame "ctx_input c"]
      by (auto simp: open_event_def Let_def le_diff_conv split: prod.splits if_splits)
    with that show ?thesis
      by (auto simp: open_stack_frame_def open_continuation_def Let_def
          split: if_splits sum.splits bool.splits list.splits
          dest!: try_handle_system_event_consumes)
  qed
  ultimately show "length (ctx_input c') \<le> length (ctx_input c)"
    using shrinksD [OF event_part_shrinks] by (metis le_trans)
qed

lemma parse_readout_contents_shrinks:
  "parse_readout_contents e c = (c', r) \<Longrightarrow> length (ctx_input c') \<le> length (ctx_input c)"
proof (induction e c arbitrary: c' r rule: parse_readout_contents.induct)
  case (1 e c)
  show ?case
  proof (cases "ctx_input c = []")
    case True
    with "1.prems" show ?thesis by (simp add: parse_readout_contents.simps)
  next
    case False
    obtain d out where it: "iteration e c = (d, out)" by (cases "iteration e c")
    have "length (ctx_input d) \<le> length (ctx_input c)" using shrinksD [OF iteration_shrinks it] .
    with False it "1.prems" "1.IH" [OF False it [symmetric]] show ?thesis
      by (cases out) (auto simp: parse_readout_contents.simps [of e c] intro: le_trans)
  qed
qed

text \<open>\<open>Ok\<close> means that all of the input has been used.\<close>

lemma open_stack_frame_not_Ok: "open_stack_frame e c \<noteq> (c', Return Ok)"
  by (auto simp: open_stack_frame_def open_event_def open_continuation_def Let_def
      split: if_splits sum.splits bool.splits list.splits prod.splits)

lemma check_event_not_Ok: "check_event c \<noteq> (c', Return Ok)"
  by (auto simp: check_event_def handle_empty_frame_def get_frame_length_def Let_def split: if_splits)

lemma copy_not_Return:
  "copy_prefix c \<noteq> (c', Return r)" "copy_suffix c \<noteq> (c', Return r)" "copy_dynamic c \<noteq> (c', Return r)"
  by (auto simp: copy_prefix_def copy_suffix_def copy_dynamic_def Let_def
      split: if_splits elim!: and_then_cases copy_part_cases)

lemma open_block_frame_Ok: "open_block_frame c = (c', Return Ok) \<Longrightarrow> ctx_input c' = []"
  by (auto simp: open_block_frame_def consumeWord_def Let_def split: if_splits list.splits)

lemma parse_module_Ok:
  assumes "parse_module c = (c', Return Ok)"
  shows "ctx_input c' = []"
proof -
  have "trim_2eSST x \<noteq> (y, Return r)" for x y r
    by (auto simp: trim_2eSST_def Let_def split: if_splits)
  with assms show ?thesis
    by (auto simp: parse_module_def parse_prefix_def parse_suffix_def parse_dynamic_def Let_def
        copy_not_Return open_block_frame_Ok
        split: if_splits GroupParseState.splits elim!: and_then_cases)
qed

lemma finish_iteration_not_Ok: "finish_iteration n c \<noteq> (c', Return Ok)"
  by (auto simp: finish_iteration_def check_advance_def flush_event_def Let_def
      elim!: and_then_cases split: if_splits sum.splits)

lemma iteration_Ok: "iteration e c = (c', Return Ok) \<Longrightarrow> ctx_input c' = []"
  unfolding iteration_def event_part_def
  by (elim and_then_cases)
    (auto simp: open_stack_frame_not_Ok check_event_not_Ok finish_iteration_not_Ok parse_module_Ok)

lemma parse_readout_contents_Ok: "parse_readout_contents e c = (c', Inr Ok) \<Longrightarrow> ctx_input c' = []"
proof (induction e c arbitrary: c' rule: parse_readout_contents.induct)
  case (1 e c)
  show ?case
  proof (cases "ctx_input c = []")
    case True
    with "1.prems" show ?thesis by (simp add: parse_readout_contents.simps)
  next
    case False
    obtain d out where it: "iteration e c = (d, out)" by (cases "iteration e c")
    with False "1.prems" "1.IH" [OF False it [symmetric]] show ?thesis
      by (cases out) (auto simp: parse_readout_contents.simps [of e c] dest: iteration_Ok)
  qed
qed

section \<open>UDP packets\<close>

function eth_packet_loop :: "u32 \<Rightarrow> parser_ctx \<Rightarrow> parser_ctx \<times> ParseResult result" where
  "eth_packet_loop bufferNumber c =
     (if ctx_input c = [] then (c, Inr Ok)
      else case parse_readout_contents True c of
        (c', Inl e) \<Rightarrow> (c', Inl e)
      | (c', Inr pr) \<Rightarrow>
          if pr \<noteq> Ok then (c', Inr pr)
          else if length (ctx_input c') = length (ctx_input c) then (c', Inr ParseEthPacketNotAdvancing)
          else eth_packet_loop bufferNumber c')"
  by pat_completeness auto
termination
  by (relation "measure (\<lambda>(n, c). length (ctx_input c))")
    (auto dest!: parse_readout_contents_shrinks [OF sym])

declare eth_packet_loop.simps [simp del]

definition parse_eth_packet ::
  "u32 \<Rightarrow> u32 list \<Rightarrow> parser_ctx \<Rightarrow> parser_ctx \<times> ParseResult result" where
  "parse_eth_packet bufferNumber packet c =
     (if length packet < eth_HeaderWords then (c, Inl EndOfBuffer)
      else let ethHdrs = \<lparr>header0 = packet ! 0, header1 = packet ! 1\<rparr>;
               input = drop eth_HeaderWords packet;
               ptr = unat (nextHeaderPointer ethHdrs)
        in if \<not> is_event_in_progress (ctx_state c)
           then if \<not> isNextHeaderPointerPresent ethHdrs then (c, Inr NoHeaderPresent)
                else if length input < ptr then (c, Inl EndOfBuffer)
                else eth_packet_loop bufferNumber
                       (upd_counters (\<lambda>cn. cn\<lparr>unusedBytes := unusedBytes cn + of_nat (ptr * 4)\<rparr>)
                         (set_input (drop ptr input) c))
           else eth_packet_loop bufferNumber (set_input input c))"

definition count_parse_result :: "ParseResult \<Rightarrow> ReadoutParserCounters \<Rightarrow> ReadoutParserCounters" where
  "count_parse_result pr cn = cn\<lparr>parseResults := (parseResults cn)(pr := parseResults cn pr + 1)\<rparr>"

section \<open>Buffers\<close>

text \<open>The difference of two \<open>u32\<close> values is taken modulo \<open>2 ^ 32\<close> before it is widened.\<close>

definition calc_buffer_loss :: "u32 \<Rightarrow> u32 \<Rightarrow> int" where
  "calc_buffer_loss bufferNumber lastNumber =
     (let diff = uint (bufferNumber - lastNumber)
      in if diff < 1 then (2 ^ 32 - 1) + diff else diff - 1)"

definition note_packet_loss :: "u16 \<Rightarrow> parser_ctx \<Rightarrow> parser_ctx" where
  "note_packet_loss pktNumber c =
     (let lastNumber = lastPacketNumber (ctx_state c);
          loss = calc_packet_loss (word_of_int lastNumber) pktNumber
      in if 0 \<le> lastNumber \<and> loss \<noteq> 0
         then upd_counters (\<lambda>cn. cn\<lparr>ethPacketLoss := ethPacketLoss cn + word_of_int loss\<rparr>)
                (upd_state parser_clear_event_state c)
         else c)"

text \<open>An error or exception from a packet: drop the event in progress and skip the packet.\<close>

definition skip_packet :: "nat \<Rightarrow> bool \<Rightarrow> parser_ctx \<Rightarrow> parser_ctx" where
  "skip_packet packetWords exceptionSeen c =
     upd_counters (\<lambda>cn. cn
         \<lparr>ethPacketsProcessed := ethPacketsProcessed cn + 1,
          unusedBytes := unusedBytes cn + of_nat (packetWords * 4),
          parserExceptions := parserExceptions cn + (if exceptionSeen then 1 else 0)\<rparr>)
       (upd_state parser_clear_event_state c)"

function eth_buffer_loop ::
  "u32 \<Rightarrow> ParseResult \<Rightarrow> parser_ctx \<Rightarrow> parser_ctx \<times> ParseResult result" where
  "eth_buffer_loop bufferNumber result c =
     (if ctx_input c = [] then (c, Inr result)
      else case try_handle_system_event c of
        Inl e \<Rightarrow> (c, Inl e)
      | Inr (True, c') \<Rightarrow> eth_buffer_loop bufferNumber result c'
      | Inr (False, _) \<Rightarrow>
          let input = ctx_input c
          in if length input < eth_HeaderWords then (c, Inl EndOfBuffer)
             else let ethHdrs = \<lparr>header0 = input ! 0, header1 = input ! 1\<rparr>;
                      packetWords = eth_HeaderWords + unat (dataWordCount ethHdrs)
               in if length input < packetWords then (c, Inl EndOfBuffer)
                  else let c1 = upd_state (\<lambda>st. st\<lparr>lastPacketNumber := uint (packetNumber ethHdrs)\<rparr>)
                                  (note_packet_loss (packetNumber ethHdrs) c);
                           (c2, pr) = parse_eth_packet bufferNumber (take packetWords input) c1;
                           rest = drop packetWords input
                    in case pr of
                         Inl e \<Rightarrow>
                           if e = UndefinedBehaviour then (c2, Inl e)
                           else eth_buffer_loop bufferNumber
                                  (if result = Ok then UnhandledException else result)
                                  (set_input rest (skip_packet packetWords True c2))
                       | Inr r \<Rightarrow>
                           if r \<noteq> Ok
                           then eth_buffer_loop bufferNumber (if result = Ok then r else result)
                                  (set_input rest (skip_packet packetWords False
                                    (upd_counters (count_parse_result r) c2)))
                           else let c3 = set_input rest (upd_counters (\<lambda>cn. (count_parse_result Ok cn)
                                       \<lparr>ethPacketsProcessed := ethPacketsProcessed cn + 1\<rparr>) c2)
                             in if length rest = length input then (c3, Inr ParseEthBufferNotAdvancing)
                                else eth_buffer_loop bufferNumber result c3)"
  by pat_completeness auto
termination
  by (relation "measure (\<lambda>(n, r, c). length (ctx_input c))")
    (auto dest: try_handle_system_event_consumes simp: Let_def)

declare eth_buffer_loop.simps [simp del]

text \<open>The prologue shared by both buffer types: account for lost buffers.\<close>

definition note_buffer_loss :: "bool \<Rightarrow> u32 \<Rightarrow> parser_ctx \<Rightarrow> parser_ctx" where
  "note_buffer_loss is_eth bufferNumber c =
     (let bufferLoss = calc_buffer_loss bufferNumber (lastBufferNumber (ctx_state c));
          c = upd_state (\<lambda>st. st\<lparr>lastBufferNumber := bufferNumber\<rparr>) c
      in if bufferLoss \<noteq> 0
         then upd_state (\<lambda>st. if is_eth then st\<lparr>lastPacketNumber := - 1\<rparr> else st)
                (upd_counters (\<lambda>cn. cn\<lparr>internalBufferLoss := internalBufferLoss cn + word_of_int bufferLoss\<rparr>)
                  (upd_state parser_clear_event_state c))
         else c)"

text \<open>The \<open>catch\<close> clauses around the buffer loops, before the exception is rethrown.\<close>

definition buffer_exception :: "parser_ctx \<Rightarrow> parser_ctx" where
  "buffer_exception c =
     upd_counters (\<lambda>cn. cn
         \<lparr>unusedBytes := unusedBytes cn + of_nat (length (ctx_input c) * 4),
          parserExceptions := parserExceptions cn + 1\<rparr>)
       (upd_state parser_clear_event_state c)"

definition buffer_processed :: "nat \<Rightarrow> parser_ctx \<Rightarrow> parser_ctx" where
  "buffer_processed bufferWords c =
     upd_counters (\<lambda>cn. cn
         \<lparr>buffersProcessed := buffersProcessed cn + 1,
          unusedBytes := unusedBytes cn + of_nat (length (ctx_input c) * 4),
          bytesProcessed := bytesProcessed cn + of_nat (bufferWords * 4)\<rparr>) c"

definition parse_readout_buffer_eth ::
  "u32 \<Rightarrow> u32 list \<Rightarrow> parser_ctx \<Rightarrow> parser_ctx \<times> ParseResult result" where
  "parse_readout_buffer_eth bufferNumber buffer c =
     (case eth_buffer_loop bufferNumber Ok (set_input buffer (note_buffer_loss True bufferNumber c)) of
        (c', Inl e) \<Rightarrow>
          if e = UndefinedBehaviour then (c', Inl e) else (buffer_exception c', Inl e)
      | (c', Inr r) \<Rightarrow>
          if r = ParseEthBufferNotAdvancing then (c', Inr r)
          else (buffer_processed (length buffer) c', Inr r))"

text \<open>
  The USB loop has no check for progress: it ends because \<open>Ok\<close> implies that the
  input has been used up.
\<close>

function usb_buffer_loop :: "parser_ctx \<Rightarrow> parser_ctx \<times> ParseResult result" where
  "usb_buffer_loop c =
     (if ctx_input c = [] then (c, Inr Ok)
      else case parse_readout_contents False c of
        (c', Inl e) \<Rightarrow> (c', Inl e)
      | (c', Inr pr) \<Rightarrow>
          let c1 = upd_counters (count_parse_result pr) c'
          in if pr \<noteq> Ok
             then (upd_counters (\<lambda>cn. cn
                     \<lparr>unusedBytes := unusedBytes cn + of_nat (length (ctx_input c1) * 4)\<rparr>)
                   (upd_state parser_clear_event_state c1), Inr pr)
             else usb_buffer_loop c1)"
  by pat_completeness auto
termination
  by (relation "measure (\<lambda>c. length (ctx_input c))")
    (auto dest!: parse_readout_contents_Ok [OF sym])

declare usb_buffer_loop.simps [simp del]

definition parse_readout_buffer_usb ::
  "u32 \<Rightarrow> u32 list \<Rightarrow> parser_ctx \<Rightarrow> parser_ctx \<times> ParseResult result" where
  "parse_readout_buffer_usb bufferNumber buffer c =
     (case usb_buffer_loop (set_input buffer (note_buffer_loss False bufferNumber c)) of
        (c', Inl e) \<Rightarrow>
          if e = UndefinedBehaviour then (c', Inl e) else (buffer_exception c', Inl e)
      | (c', Inr pr) \<Rightarrow>
          if pr \<noteq> Ok then (c', Inr pr) else (buffer_processed (length buffer) c', Inr Ok))"

text \<open>Exceptions become parse results; undefined behaviour cannot be caught.\<close>

definition parse_readout_buffer ::
  "ConnectionType \<Rightarrow> u32 \<Rightarrow> u32 list \<Rightarrow> parser_ctx \<Rightarrow> parser_ctx \<times> ParseResult result" where
  "parse_readout_buffer bufferType bufferNumber buffer c =
     (case (case bufferType of
              ETH \<Rightarrow> parse_readout_buffer_eth bufferNumber buffer c
            | USB \<Rightarrow> parse_readout_buffer_usb bufferNumber buffer c) of
        (c', Inr r) \<Rightarrow> (c', Inr r)
      | (c', Inl e) \<Rightarrow>
          if e = UndefinedBehaviour then (c', Inl e)
          else if e = EndOfBuffer then (c', Inr UnexpectedEndOfBuffer)
          else (c', Inr UnhandledException))"

definition parse_readout_buffer_detect ::
  "u32 \<Rightarrow> u32 list \<Rightarrow> parser_ctx \<Rightarrow> parser_ctx \<times> ParseResult result" where
  "parse_readout_buffer_detect bufferNumber buffer c =
     (case detect_buffer_type buffer of
        None \<Rightarrow> (c, Inr UnknownBufferType)
      | Some bufferType \<Rightarrow> parse_readout_buffer bufferType bufferNumber buffer c)"

section \<open>Properties\<close>

lemma upd_state_upd_state: "upd_state f (upd_state g c) = upd_state (\<lambda>st. f (g st)) c"
  by (simp add: upd_state_def)

lemma upd_state_upd_counters: "upd_state f (upd_counters g c) = upd_counters g (upd_state f c)"
  by (simp add: upd_state_def upd_counters_def)

lemma calc_buffer_loss_zero: "calc_buffer_loss n l = 0 \<longleftrightarrow> n = l + 1"
proof -
  have "uint (n - l) = 1 \<longleftrightarrow> n = l + 1"
    by (metis add.commute diff_eq_eq unsigned_1 word_uint_eqI)
  moreover have ge: "0 \<le> uint (n - l)" by simp
  moreover have "4294967295 + uint (n - l) \<noteq> 0" using ge by linarith
  ultimately show ?thesis by (auto simp: calc_buffer_loss_def Let_def)
qed

text \<open>
  C23. \<open>calc_buffer_loss\<close> counts the buffers missing between two buffer numbers,
  also when the 32-bit number wraps around; it is zero exactly for consecutive
  numbers.
\<close>

theorem calc_buffer_loss_mod:
  "calc_buffer_loss n l = (uint n - uint l - 1) mod 2 ^ 32 \<and> (calc_buffer_loss n l = 0 \<longleftrightarrow> n = l + 1)"
proof -
  have d: "uint (n - l) = (uint n - uint l) mod 2 ^ 32"
    by (simp add: uint_word_arith_bintrs take_bit_eq_mod)
  have "(uint n - uint l - 1) mod 2 ^ 32 = (uint (n - l) - 1) mod 2 ^ 32"
    unfolding d by (simp add: mod_simps)
  also have "\<dots> = calc_buffer_loss n l"
  proof (cases "uint (n - l) = 0")
    case True
    then show ?thesis by (simp add: calc_buffer_loss_def)
  next
    case False
    moreover have "0 \<le> uint (n - l)" by simp
    ultimately have "1 \<le> uint (n - l)" "uint (n - l) < 2 ^ 32"
      using uint_bounded [of "n - l"] by (linarith, simp)
    then show ?thesis by (simp add: calc_buffer_loss_def Let_def)
  qed
  finally show ?thesis by (simp add: calc_buffer_loss_zero)
qed

text \<open>
  C22. A gap in the buffer numbers resynchronises the parser: the buffer after the
  gap is parsed as if no event were in progress, so that data from before and
  after the gap never end up in one event.
\<close>

theorem lost_buffer_resets:
  assumes "n \<noteq> lastBufferNumber (ctx_state c) + 1"
  shows "parse_readout_buffer t n buf c =
         parse_readout_buffer t n buf (upd_state parser_clear_event_state c)"
proof -
  have "note_buffer_loss e n c = note_buffer_loss e n (upd_state parser_clear_event_state c)" for e
    using assms
    by (simp add: note_buffer_loss_def Let_def calc_buffer_loss_zero upd_state_upd_state
        upd_state_upd_counters parser_clear_event_state_def)
  then show ?thesis
    unfolding parse_readout_buffer_def parse_readout_buffer_eth_def parse_readout_buffer_usb_def
    by metis
qed

theorem lost_buffer_resets_witness:
  "let c = \<lparr>ctx_state = \<lparr>lastBufferNumber = 4, workBuffer = \<lparr>wb_allocated = 0, wb_words = []\<rparr>,
              readoutDataSpans = [], moduleDataBuffer = [], readoutStructure = [[]],
              eventIndex = 0, moduleIndex = 0, groupParseState = Prefix,
              curStackFrame = FrameParseState_of 0xF3010002, curBlockFrame = FrameParseState_none,
              lastPacketNumber = - 1\<rparr>,
            ctx_counters = ReadoutParserCounters_init, ctx_log = [], ctx_input = []\<rparr>
   in is_event_in_progress (ctx_state c) \<and>
      parse_readout_buffer USB 6 [0xF3010000] c =
      parse_readout_buffer USB 6 [0xF3010000] (upd_state parser_clear_event_state c)"
  unfolding Let_def
  by (intro conjI lost_buffer_resets) (simp_all add: is_event_in_progress_def)

end
