(* ===== verification/Readout_Parser_Safety.thy ===== *)
theory Readout_Parser_Safety
  imports Readout_Parser
begin

text \<open>
  Safety of the readout parser on arbitrary input: an invariant of the parser
  state that every iteration, packet and buffer keeps, whatever the words of the
  buffer are. It bounds the indices and the work buffer, describes which parts of
  which modules have been recorded, and states what a delivered event looks like.
\<close>

section \<open>The recorded parts of a module\<close>

definition spans_start :: "ModuleReadoutSpans \<Rightarrow> nat" where
  "spans_start sps =
     (if sp_size (prefixSpan sps) \<noteq> 0 then sp_offset (prefixSpan sps)
      else if sp_size (dynamicSpan sps) \<noteq> 0 then sp_offset (dynamicSpan sps)
      else if sp_size (suffixSpan sps) \<noteq> 0 then sp_offset (suffixSpan sps) else 0)"

definition spans_total :: "ModuleReadoutSpans \<Rightarrow> nat" where
  "spans_total sps = sp_size (prefixSpan sps) + sp_size (dynamicSpan sps) + sp_size (suffixSpan sps)"

text \<open>The data of the module lies within the used part of the work buffer.\<close>

definition span_ok :: "nat \<Rightarrow> ModuleReadoutSpans \<Rightarrow> bool" where
  "span_ok used sps \<longleftrightarrow> spans_start sps + spans_total sps \<le> used \<and>
     sp_offset (dynamicSpan sps) + sp_size (dynamicSpan sps) \<le> used"

definition untouched :: "ModuleReadoutSpans \<Rightarrow> bool" where
  "untouched sps \<longleftrightarrow> sp_size (prefixSpan sps) = 0 \<and> sp_size (dynamicSpan sps) = 0 \<and>
     sp_size (suffixSpan sps) = 0"

definition module_complete :: "ModuleReadoutStructure \<Rightarrow> ModuleReadoutSpans \<Rightarrow> bool" where
  "module_complete parts sps \<longleftrightarrow>
     sp_size (prefixSpan sps) = unat (prefixLen parts) \<and>
     sp_size (suffixSpan sps) = unat (suffixLen parts) \<and>
     (sp_size (dynamicSpan sps) \<noteq> 0 \<longrightarrow> hasDynamic parts)"

text \<open>What has been recorded of the module that is being read, by parse state.\<close>

definition current_ok :: "GroupParseState \<Rightarrow> ModuleReadoutStructure \<Rightarrow> ModuleReadoutSpans \<Rightarrow> bool" where
  "current_ok gps parts sps \<longleftrightarrow>
     (case gps of
        Prefix \<Rightarrow> sp_size (dynamicSpan sps) = 0 \<and> sp_size (suffixSpan sps) = 0 \<and>
          (sp_size (prefixSpan sps) < unat (prefixLen parts) \<or>
           sp_size (prefixSpan sps) = 0 \<and> prefixLen parts = 0)
      | Dynamic \<Rightarrow> sp_size (prefixSpan sps) = unat (prefixLen parts) \<and>
          sp_size (suffixSpan sps) = 0 \<and> hasDynamic parts
      | Suffix \<Rightarrow> sp_size (prefixSpan sps) = unat (prefixLen parts) \<and>
          sp_size (suffixSpan sps) < unat (suffixLen parts) \<and>
          (sp_size (dynamicSpan sps) \<noteq> 0 \<longrightarrow> hasDynamic parts))"

text \<open>All modules of an event but the one at \<open>mi\<close>: finished before it, untouched after it.\<close>

definition others_ok ::
  "ModuleReadoutStructure list \<Rightarrow> nat \<Rightarrow> ModuleReadoutSpans list \<Rightarrow> nat \<Rightarrow> bool" where
  "others_ok infos mi spans used \<longleftrightarrow>
     length infos \<le> length spans \<and>
     (\<forall>i < length infos. i \<noteq> mi \<longrightarrow> span_ok used (spans ! i)) \<and>
     (\<forall>i < length infos. i < mi \<longrightarrow> module_complete (infos ! i) (spans ! i)) \<and>
     (\<forall>i < length infos. mi < i \<longrightarrow> untouched (spans ! i))"

definition event_spans_ok ::
  "ModuleReadoutStructure list \<Rightarrow> nat \<Rightarrow> GroupParseState \<Rightarrow> ModuleReadoutSpans list \<Rightarrow> nat \<Rightarrow> bool" where
  "event_spans_ok infos mi gps spans used \<longleftrightarrow>
     others_ok infos mi spans used \<and> mi \<le> length infos \<and>
     (mi < length infos \<longrightarrow> span_ok used (spans ! mi) \<and> current_ok gps (infos ! mi) (spans ! mi))"

lemmas span_defs = span_ok_def spans_start_def spans_total_def begin_span_def grow_span_def

lemma span_ok_mono: "span_ok used sps \<Longrightarrow> used \<le> used' \<Longrightarrow> span_ok used' sps"
  by (auto simp: span_ok_def)

lemma span_ok_grow:
  "span_ok used sps \<Longrightarrow> sp_size (dynamicSpan sps) = 0 \<Longrightarrow> sp_size (suffixSpan sps) = 0 \<Longrightarrow>
     span_ok (used + n) (prefixSpan_update (grow_span n) (prefixSpan_update (begin_span used) sps))"
  "span_ok used sps \<Longrightarrow> sp_size (suffixSpan sps) = 0 \<Longrightarrow>
     span_ok (used + n) (dynamicSpan_update (grow_span n) (dynamicSpan_update (begin_span used) sps))"
  "span_ok used sps \<Longrightarrow>
     span_ok (used + n) (suffixSpan_update (grow_span n) (suffixSpan_update (begin_span used) sps))"
  by (auto simp: span_defs)

lemma begin_grow_size [simp]: "sp_size (grow_span n (begin_span used sp)) = sp_size sp + n"
  by (simp add: grow_span_def begin_span_def)

lemma others_ok_update [simp]:
  "others_ok infos mi (spans[mi := sps]) used = others_ok infos mi spans used"
  by (auto simp: others_ok_def nth_list_update)

lemma others_ok_mono: "others_ok infos mi spans used \<Longrightarrow> used \<le> used' \<Longrightarrow> others_ok infos mi spans used'"
  by (auto simp: others_ok_def intro: span_ok_mono)

lemma untouched_current: "untouched sps \<Longrightarrow> current_ok Prefix parts sps"
  by (auto simp: untouched_def current_ok_def unat_gt_0)

lemma event_spans_advance:
  assumes "others_ok infos mi spans used" "mi < length infos"
    and "span_ok used (spans ! mi)" "module_complete (infos ! mi) (spans ! mi)"
  shows "event_spans_ok infos (mi + 1) Prefix spans used"
  using assms unfolding event_spans_ok_def others_ok_def
  by (auto simp: less_Suc_eq intro: untouched_current)

lemma current_empty:
  "current_ok gps parts sps \<Longrightarrow> mrs_is_empty parts \<Longrightarrow> gps = Prefix \<and> module_complete parts sps"
  by (auto simp: current_ok_def mrs_is_empty_def module_complete_def split: GroupParseState.splits)

lemma event_spans_skip:
  "event_spans_ok infos (nat mi) gps spans used \<Longrightarrow> 0 \<le> mi \<Longrightarrow>
   event_spans_ok infos (nat (skip_empty_modules infos mi)) gps spans used \<and>
   0 \<le> skip_empty_modules infos mi \<and>
   (skip_empty_modules infos mi < int (length infos) \<longrightarrow>
      \<not> mrs_is_empty (infos ! nat (skip_empty_modules infos mi)))"
proof (induction infos mi rule: skip_empty_modules.induct)
  case (1 infos mi)
  show ?case
  proof (cases "mi < int (length infos) \<and> mrs_is_empty (infos ! nat mi)")
    case True
    have lt: "nat mi < length infos" using True 1(3) by linarith
    with 1(2) have *: "others_ok infos (nat mi) spans used" "span_ok used (spans ! nat mi)"
      "gps = Prefix" "module_complete (infos ! nat mi) (spans ! nat mi)"
      using current_empty True by (auto simp: event_spans_ok_def)
    have "event_spans_ok infos (nat (mi + 1)) gps spans used"
      using event_spans_advance [OF *(1) lt *(2,4)] *(3) 1(3) by (simp add: nat_add_distrib)
    with 1(1) [OF True] True 1(3) show ?thesis
      by (simp add: skip_empty_modules.simps [of infos mi])
  next
    case False
    with 1(2,3) show ?thesis by (auto simp: skip_empty_modules.simps [of infos mi])
  qed
qed

section \<open>What is delivered\<close>

text \<open>
  The data of a delivered event: one entry per module of the readout structure;
  either all entries are empty (a stack frame without contents) or every prefix
  and suffix has the length the structure asks for.
\<close>

definition module_data_ok :: "ModuleReadoutStructure \<Rightarrow> ModuleData \<Rightarrow> bool" where
  "module_data_ok parts md \<longleftrightarrow> size_consistency_check md \<and>
     md_prefixSize md = unat (prefixLen parts) \<and> md_suffixSize md = unat (suffixLen parts) \<and>
     md_hasDynamic md = hasDynamic parts"

definition event_ok :: "ReadoutStructure \<Rightarrow> callback \<Rightarrow> bool" where
  "event_ok S e \<longleftrightarrow>
     (case e of
        SystemEvent crate ws \<Rightarrow> ws \<noteq> [] \<and> get_frame_type (hd ws) = FT_SystemEvent \<and>
          length ws = unat (fi_len (extract_frame_info (hd ws))) + 1
      | EventData crate ev mds \<Rightarrow> 0 \<le> ev \<and> nat ev < length S \<and>
          (list_all2 module_data_ok (S ! nat ev) mds \<or>
           mds = replicate (length (S ! nat ev)) ModuleData_init))"

lemma module_data_complete:
  assumes "span_ok (length buf) sps" "module_complete parts sps"
  shows "\<exists>md. module_data buf sps parts = Inr md \<and> module_data_ok parts md"
  using assms
  by (auto simp: module_data_def module_data_ok_def size_consistency_check_def module_complete_def
      span_ok_def spans_start_def spans_total_def Let_def)

lemma result_mapM_ok:
  "(\<And>x. x \<in> set xs \<Longrightarrow> \<exists>y. f x = Inr y \<and> P x y) \<Longrightarrow>
   \<exists>ys. result_mapM f xs = Inr ys \<and> list_all2 P xs ys"
proof (induction xs)
  case (Cons x xs)
  then obtain y ys where "f x = Inr y" "P x y" "result_mapM f xs = Inr ys" "list_all2 P xs ys"
    by (metis list.set_intros)
  then show ?case by auto
qed simp

lemma event_data_complete:
  assumes "event_spans_ok infos mi gps spans (length buf)" "length infos \<le> mi"
  shows "\<exists>mds. result_mapM (\<lambda>(spans, parts). module_data buf spans parts) (zip spans infos) = Inr mds
               \<and> list_all2 module_data_ok infos mds"
proof -
  have len: "length infos \<le> length spans"
    using assms by (auto simp: event_spans_ok_def others_ok_def)
  have "\<exists>md. (\<lambda>(spans, parts). module_data buf spans parts) p = Inr md \<and> module_data_ok (snd p) md"
    if "p \<in> set (zip spans infos)" for p
  proof -
    from that obtain i where "i < length infos" "p = (spans ! i, infos ! i)"
      by (auto simp: in_set_zip)
    with assms show ?thesis
      using module_data_complete [of buf "spans ! i" "infos ! i"]
      by (auto simp: event_spans_ok_def others_ok_def)
  qed
  from result_mapM_ok [of "zip spans infos" _ "\<lambda>p. module_data_ok (snd p)", OF this]
  obtain mds where "result_mapM (\<lambda>(spans, parts). module_data buf spans parts) (zip spans infos) = Inr mds"
    and "list_all2 (\<lambda>p. module_data_ok (snd p)) (zip spans infos) mds" by auto
  moreover from this(2) len have "list_all2 module_data_ok infos mds"
    by (auto simp: list_all2_conv_all_nth)
  ultimately show ?thesis by blast
qed

section \<open>The invariant of the parser\<close>

text \<open>What holds at any time: room for every event, and a sound log.\<close>

definition base_ok :: "ReadoutStructure \<Rightarrow> parser_ctx \<Rightarrow> bool" where
  "base_ok S c \<longleftrightarrow>
     (let st = ctx_state c
      in readoutStructure st = S \<and>
         list_all (\<lambda>g. length g \<le> length (readoutDataSpans st) \<and>
                       length g \<le> length (moduleDataBuffer st)) S \<and>
         wb_used st \<le> wb_allocated (workBuffer st) \<and>
         list_all (event_ok S) (ctx_log c))"

text \<open>An event is in progress.\<close>

definition in_event :: "ReadoutStructure \<Rightarrow> parser_ctx \<Rightarrow> bool" where
  "in_event S c \<longleftrightarrow> base_ok S c \<and>
     (let st = ctx_state c
      in 0 \<le> eventIndex st \<and> nat (eventIndex st) < length S \<and> 0 \<le> moduleIndex st \<and>
         event_spans_ok (S ! nat (eventIndex st)) (nat (moduleIndex st)) (groupParseState st)
           (readoutDataSpans st) (wb_used st) \<and>
         (fps_wordsLeft (curStackFrame st) \<noteq> 0 \<longrightarrow> get_frame_length (fps_header (curStackFrame st)) \<noteq> 0))"

text \<open>The current module exists and has data.\<close>

definition at_module :: "ReadoutStructure \<Rightarrow> parser_ctx \<Rightarrow> bool" where
  "at_module S c \<longleftrightarrow>
     (let st = ctx_state c; infos = S ! nat (eventIndex st)
      in nat (moduleIndex st) < length infos \<and> \<not> mrs_is_empty (infos ! nat (moduleIndex st)))"

definition idle :: "parser_ctx \<Rightarrow> bool" where
  "idle c \<longleftrightarrow> eventIndex (ctx_state c) = - 1 \<and> fps_wordsLeft (curStackFrame (ctx_state c)) = 0"

text \<open>The invariant at the head of the loop and between buffers.\<close>

definition head_ok :: "ReadoutStructure \<Rightarrow> parser_ctx \<Rightarrow> bool" where
  "head_ok S c \<longleftrightarrow> base_ok S c \<and> (idle c \<or> in_event S c \<and> at_module S c)"

text \<open>The results that report a loop that does not advance.\<close>

definition not_advancing :: "ParseResult set" where
  "not_advancing =
     {ParseReadoutContentsNotAdvancing, ParseEthBufferNotAdvancing, ParseEthPacketNotAdvancing}"

definition sound :: "ReadoutStructure \<Rightarrow> parser_ctx \<times> outcome \<Rightarrow> bool" where
  "sound S r \<longleftrightarrow> base_ok S (fst r) \<and>
     (snd r = Continue \<or> snd r = Return Ok \<longrightarrow> head_ok S (fst r)) \<and>
     snd r \<noteq> Throw UndefinedBehaviour \<and> (\<forall>x \<in> not_advancing. snd r \<noteq> Return x)"

lemma sound_simps [simp]:
  "sound S (c, Continue) \<longleftrightarrow> head_ok S c"
  "sound S (c, Return r) \<longleftrightarrow> base_ok S c \<and> (r = Ok \<longrightarrow> head_ok S c) \<and> r \<notin> not_advancing"
  "sound S (c, Throw e) \<longleftrightarrow> base_ok S c \<and> e \<noteq> UndefinedBehaviour"
  by (auto simp: sound_def head_ok_def)

lemma sound_and_then:
  "(\<And>d. r = (d, Next) \<Longrightarrow> sound S (f d)) \<Longrightarrow> (snd r \<noteq> Next \<Longrightarrow> sound S r) \<Longrightarrow>
   sound S (and_then r f)"
  by (cases r) (auto simp: and_then_def)

lemma not_advancing_simps [simp]:
  "Ok \<notin> not_advancing" "NoStackFrameFound \<notin> not_advancing" "NotAStackFrame \<notin> not_advancing"
  "NotABlockFrame \<notin> not_advancing" "NotAStackContinuation \<notin> not_advancing"
  "StackIndexChanged \<notin> not_advancing" "StackIndexOutOfRange \<notin> not_advancing"
  "GroupIndexOutOfRange \<notin> not_advancing" "UnexpectedOpenBlockFrame \<notin> not_advancing"
  "UnexpectedNonEmptyStackFrame \<notin> not_advancing" "NoHeaderPresent \<notin> not_advancing"
  "UnhandledException \<notin> not_advancing" "UnexpectedEndOfBuffer \<notin> not_advancing"
  "UnknownBufferType \<notin> not_advancing"
  by (simp_all add: not_advancing_def)

lemma base_ok_simps [simp]:
  "base_ok S (upd_counters f c) = base_ok S c" "base_ok S (set_input xs c) = base_ok S c"
  "base_ok S (upd_state parser_clear_event_state c) = base_ok S c"
  by (simp_all add: base_ok_def parser_clear_event_state_def wb_used_def Let_def)

lemma frame_none [simp]: "fps_wordsLeft (FrameParseState_of 0) = 0"
proof -
  have "fi_len (extract_frame_info 0) = 0" by code_simp
  then show ?thesis by (simp add: FrameParseState_of_def)
qed

lemma idle_clear [simp]: "idle (upd_state parser_clear_event_state c)"
  by (simp add: idle_def parser_clear_event_state_def)

lemma idle_simps [simp]:
  "idle (upd_counters f c) = idle c" "idle (set_input xs c) = idle c"
  by (simp_all add: idle_def)

lemma head_ok_clear [simp]: "head_ok S (upd_state parser_clear_event_state c) = base_ok S c"
  by (simp add: head_ok_def)

lemma in_event_simps [simp]:
  "in_event S (upd_counters f c) = in_event S c" "in_event S (set_input xs c) = in_event S c"
  "at_module S (upd_counters f c) = at_module S c" "at_module S (set_input xs c) = at_module S c"
  "head_ok S (upd_counters f c) = head_ok S c" "head_ok S (set_input xs c) = head_ok S c"
  by (simp_all add: in_event_def at_module_def head_ok_def)

lemma in_event_base: "in_event S c \<Longrightarrow> base_ok S c"
  by (simp add: in_event_def)

section \<open>Opening a stack frame\<close>

lemma wordsLeft_frame: "fps_wordsLeft (FrameParseState_of h) = fi_len (extract_frame_info h)"
  "fps_header (FrameParseState_of h) = h"
  by (simp_all add: FrameParseState_of_def)

text \<open>The frame the parser has opened at this point of the iteration, and what it has consumed for it.\<close>

definition opened :: "ReadoutStructure \<Rightarrow> nat \<Rightarrow> parser_ctx \<Rightarrow> bool" where
  "opened S n c \<longleftrightarrow> in_event S c \<and>
     (fps_wordsLeft (curStackFrame (ctx_state c)) = 0 \<longrightarrow>
        get_frame_length (fps_header (curStackFrame (ctx_state c))) = 0) \<and>
     (length (ctx_input c) < n \<or> length (ctx_input c) = n \<and> 0 < n \<and> at_module S c)"

lemma get_frame_length_zero: "get_frame_length h = 0 \<longleftrightarrow> fi_len (extract_frame_info h) = 0"
  by (simp add: get_frame_length_def word_unat_eq_iff unsigned_ucast_eq take_bit_nat_eq_self
      less_le_trans [OF unsigned_less])

lemma try_handle_system_event_sound:
  assumes "try_handle_system_event c = Inr (True, c')" "head_ok S c"
  shows "head_ok S c'"
proof -
  from assms(1) have st: "ctx_state c' = ctx_state c"
    and log: "\<exists>e. ctx_log c' = ctx_log c @ [e] \<and> event_ok S e"
    by (auto simp: try_handle_system_event_def event_ok_def Let_def split: list.splits if_splits)
  with assms(2) show ?thesis
    by (auto simp: head_ok_def base_ok_def in_event_def at_module_def idle_def Let_def)
qed

lemma try_handle_system_event_exc:
  "try_handle_system_event c = Inl e \<Longrightarrow> e = EndOfBuffer"
  by (auto simp: try_handle_system_event_def Let_def split: list.splits if_splits)

lemma open_continuation_sound:
  assumes "in_event S c" "ctx_input c \<noteq> []"
  shows "snd (open_continuation c) \<noteq> Next \<Longrightarrow> sound S (open_continuation c)"
    and "open_continuation c = (c', Next) \<Longrightarrow> opened S (length (ctx_input c)) c'"
proof -
  obtain h rest where i: "ctx_input c = h # rest" using assms(2) by (cases "ctx_input c") auto
  show "snd (open_continuation c) \<noteq> Next \<Longrightarrow> sound S (open_continuation c)"
    using assms(1) by (auto simp: open_continuation_def i Let_def in_event_base split: if_splits)
  show "open_continuation c = (c', Next) \<Longrightarrow> opened S (length (ctx_input c)) c'"
    using assms(1)
    by (auto simp: open_continuation_def i opened_def in_event_def base_ok_def wb_used_def
        get_frame_length_zero wordsLeft_frame Let_def split: if_splits)
qed

text \<open>A new event starts with cleared spans and an empty work buffer.\<close>

lemma clear_nth: "i < length spans \<Longrightarrow> clear_readout_data_spans spans ! i = ModuleReadoutSpans_init"
  by (simp add: clear_readout_data_spans_def)

lemma init_spans:
  "span_ok used ModuleReadoutSpans_init" "untouched ModuleReadoutSpans_init"
  by (simp_all add: span_ok_def spans_start_def spans_total_def untouched_def
      ModuleReadoutSpans_init_def Span_init_def)

lemma event_spans_fresh:
  "length infos \<le> length spans \<Longrightarrow>
   event_spans_ok infos 0 Prefix (clear_readout_data_spans spans) 0"
  using untouched_current [OF init_spans(2)] init_spans
  by (cases infos; cases spans)
     (auto simp: event_spans_ok_def others_ok_def clear_readout_data_spans_def)

lemma parser_begin_event_sound:
  assumes "parser_begin_event h (ctx_state c) = (st, Ok)" "base_ok S c"
  shows "in_event S (upd_state (\<lambda>_. st) c)"
    and "fps_wordsLeft (curStackFrame st) = 0 \<longrightarrow> get_frame_length (fps_header (curStackFrame st)) = 0"
proof -
  let ?idx = "uint (fi_stack (extract_frame_info h)) - 1"
  from assms(1) have idx: "0 \<le> ?idx" "?idx < int (length (readoutStructure (ctx_state c)))"
    and st: "st = (ctx_state c)\<lparr>workBuffer := (workBuffer (ctx_state c))\<lparr>wb_words := []\<rparr>,
                  readoutDataSpans := clear_readout_data_spans (readoutDataSpans (ctx_state c)),
                  eventIndex := ?idx, moduleIndex := 0, groupParseState := Prefix,
                  curStackFrame := FrameParseState_of h,
                  curBlockFrame := FrameParseState_none\<rparr>"
    by (auto simp: parser_begin_event_def Let_def split: if_splits)
  from idx assms(2) have "nat ?idx < length S" by (simp add: base_ok_def Let_def)
  moreover from this assms(2) have "length (S ! nat ?idx) \<le> length (readoutDataSpans (ctx_state c))"
    by (simp add: base_ok_def Let_def list_all_length)
  ultimately show "in_event S (upd_state (\<lambda>_. st) c)"
    using idx(1) assms(2) unfolding st
    by (simp add: in_event_def base_ok_def wb_used_def event_spans_fresh Let_def
        get_frame_length_zero wordsLeft_frame clear_readout_data_spans_def)
       (simp add: clear_readout_data_spans_def [symmetric] event_spans_fresh)
  show "fps_wordsLeft (curStackFrame st) = 0 \<longrightarrow> get_frame_length (fps_header (curStackFrame st)) = 0"
    unfolding st by (simp add: get_frame_length_zero wordsLeft_frame)
qed

lemma open_event_sound:
  assumes "base_ok S c"
  shows "snd (open_event c) \<noteq> Next \<Longrightarrow> sound S (open_event c)"
    and "open_event c = (c', Next) \<Longrightarrow> opened S (length (ctx_input c)) c'"
proof -
  obtain found ys where f: "find_stack_frame_header FT_StackFrame (ctx_input c) = (found, ys)"
    by (cases "find_stack_frame_header FT_StackFrame (ctx_input c)")
  have pr: "parser_begin_event h st = (st', r) \<Longrightarrow> r \<notin> not_advancing"
    for h st st' r by (auto simp: parser_begin_event_def Let_def split: if_splits)
  show "snd (open_event c) \<noteq> Next \<Longrightarrow> sound S (open_event c)"
    using assms f pr by (auto simp: open_event_def Let_def split: if_splits prod.splits)
  assume o: "open_event c = (c', Next)"
  then obtain st where b: "parser_begin_event (hd ys) (ctx_state c) = (st, Ok)"
    and c': "ctx_state c' = st" "ctx_log c' = ctx_log c"
    using f by (auto simp: open_event_def Let_def split: if_splits prod.splits)
  have "in_event S c'" 
    using parser_begin_event_sound(1) [OF b assms] c'
    by (simp add: in_event_def base_ok_def Let_def)
  then show "opened S (length (ctx_input c)) c'"
    using parser_begin_event_sound(2) [OF b assms] open_event_consumes [OF o] c'
    by (simp add: opened_def)
qed

lemma open_stack_frame_sound:
  assumes "head_ok S c" "ctx_input c \<noteq> []"
  shows "snd (open_stack_frame e c) \<noteq> Next \<Longrightarrow> sound S (open_stack_frame e c)"
    and "open_stack_frame e c = (c', Next) \<Longrightarrow> opened S (length (ctx_input c)) c'"
proof -
  have base: "base_ok S c" using assms(1) by (simp add: head_ok_def)
  have ev: "is_event_in_progress (ctx_state c) \<Longrightarrow> in_event S c"
    using assms(1) by (auto simp: head_ok_def idle_def is_event_in_progress_def)
  show "snd (open_stack_frame e c) \<noteq> Next \<Longrightarrow> sound S (open_stack_frame e c)"
    using base open_continuation_sound(1) [OF ev assms(2)] open_event_sound(1) [OF base] assms(1)
    by (auto simp: open_stack_frame_def Let_def
        split: if_splits sum.splits bool.splits
        dest: try_handle_system_event_exc intro: try_handle_system_event_sound)
  assume o: "open_stack_frame e c = (c', Next)"
  show "opened S (length (ctx_input c)) c'"
  proof (cases "fps_wordsLeft (curStackFrame (ctx_state c)) = 0")
    case False
    with o assms show ?thesis
      by (auto simp: open_stack_frame_def Let_def head_ok_def idle_def opened_def)
  next
    case True
    with o show ?thesis
      using open_continuation_sound(2) [OF ev assms(2)] open_event_sound(2) [OF base]
      by (auto simp: open_stack_frame_def Let_def split: if_splits sum.splits bool.splits)
  qed
qed

section \<open>Reading a module\<close>

text \<open>The stack frame holds words for the current module.\<close>

definition reading :: "ReadoutStructure \<Rightarrow> parser_ctx \<Rightarrow> bool" where
  "reading S c \<longleftrightarrow> in_event S c \<and>
     nat (moduleIndex (ctx_state c)) < length (S ! nat (eventIndex (ctx_state c))) \<and>
     fps_wordsLeft (curStackFrame (ctx_state c)) \<noteq> 0"

text \<open>In the middle of a module: everything but the state of the module itself.\<close>

definition module_ctx :: "ReadoutStructure \<Rightarrow> parser_ctx \<Rightarrow> bool" where
  "module_ctx S c \<longleftrightarrow> base_ok S c \<and>
     (let st = ctx_state c; infos = S ! nat (eventIndex st); mi = nat (moduleIndex st)
      in 0 \<le> eventIndex st \<and> nat (eventIndex st) < length S \<and> 0 \<le> moduleIndex st \<and>
         mi < length infos \<and> \<not> mrs_is_empty (infos ! mi) \<and>
         others_ok infos mi (readoutDataSpans st) (wb_used st) \<and>
         span_ok (wb_used st) (cur_spans st) \<and>
         get_frame_length (fps_header (curStackFrame st)) \<noteq> 0)"

lemma module_ctx_parts:
  assumes "module_ctx S c"
  shows "cur_parts (ctx_state c) = S ! nat (eventIndex (ctx_state c)) ! nat (moduleIndex (ctx_state c))"
    and "nat (moduleIndex (ctx_state c)) < length (readoutDataSpans (ctx_state c))"
    and "\<not> mrs_is_empty (cur_parts (ctx_state c))" and "base_ok S c"
    and "wb_used (ctx_state c) \<le> wb_allocated (workBuffer (ctx_state c))"
  using assms
  by (auto simp: module_ctx_def cur_parts_def moduleReadoutInfos_def base_ok_def others_ok_def Let_def)

lemma reading_module_ctx:
  assumes "reading S c" "\<not> mrs_is_empty (cur_parts (ctx_state c))"
  shows "module_ctx S c"
    and "current_ok (groupParseState (ctx_state c)) (cur_parts (ctx_state c)) (cur_spans (ctx_state c))"
  using assms
  by (auto simp: reading_def in_event_def module_ctx_def cur_parts_def moduleReadoutInfos_def
      base_ok_def event_spans_ok_def cur_spans_def Let_def)

lemma module_ctx_in_event:
  assumes "module_ctx S c"
    and "current_ok (groupParseState (ctx_state c)) (cur_parts (ctx_state c)) (cur_spans (ctx_state c))"
  shows "in_event S c" "at_module S c"
  using assms module_ctx_parts(1) [OF assms(1)]
  by (auto simp: module_ctx_def in_event_def at_module_def event_spans_ok_def cur_spans_def Let_def)

lemma module_ctx_head:
  assumes "module_ctx S c" "current_ok gps (cur_parts (ctx_state c)) (cur_spans (ctx_state c))"
  shows "head_ok S (upd_state (\<lambda>st. st\<lparr>groupParseState := gps\<rparr>) c)"
proof -
  let ?d = "upd_state (\<lambda>st. st\<lparr>groupParseState := gps\<rparr>) c"
  have "module_ctx S ?d" "current_ok (groupParseState (ctx_state ?d)) (cur_parts (ctx_state ?d)) (cur_spans (ctx_state ?d))"
    using assms
    by (simp_all add: module_ctx_def base_ok_def cur_parts_def cur_spans_def moduleReadoutInfos_def
        wb_used_def Let_def)
  from module_ctx_in_event [OF this] show ?thesis by (simp add: head_ok_def in_event_base)
qed

lemma module_ctx_done:
  assumes "module_ctx S c" "module_complete (cur_parts (ctx_state c)) (cur_spans (ctx_state c))"
  shows "in_event S (upd_state module_done c)"
proof -
  let ?st = "ctx_state c"
  let ?infos = "S ! nat (eventIndex ?st)"
  have "event_spans_ok ?infos (nat (moduleIndex ?st) + 1) Prefix (readoutDataSpans ?st) (wb_used ?st)"
    using assms module_ctx_parts(1) [OF assms(1)]
    by (intro event_spans_advance) (auto simp: module_ctx_def cur_spans_def Let_def)
  then show ?thesis
    using assms(1)
    by (auto simp: module_ctx_def in_event_def base_ok_def module_done_def wb_used_def
        nat_add_distrib Let_def)
qed

text \<open>Copying words into one of the spans.\<close>

lemma ensure_allocated:
  "length (wb_words wb) \<le> wb_allocated wb \<Longrightarrow>
   length (wb_words wb) + n \<le> wb_allocated (ensure_free_space wb n)"
  by (auto simp: ensure_free_space_def wb_free_def)

lemma copy_part_eq:
  assumes "wb_used (ctx_state c) \<le> wb_allocated (workBuffer (ctx_state c))" "n \<le> length (ctx_input c)"
  shows "copy_part u n c = (part_copied u n c, Next)"
proof -
  let ?d = "upd_state (upd_spans (u (begin_span (wb_used (ctx_state c))))) c"
  have "copy_to_workbuffer n ?d = Inr (copied n ?d)"
    using assms ensure_allocated [of "workBuffer (ctx_state c)" n]
    by (simp add: copy_to_workbuffer_def copied_def wb_used_def Let_def upd_state_def)
  then show ?thesis by (simp add: copy_part_def part_copied_def copy_words_def)
qed

lemma part_copied_allocated:
  "wb_allocated (workBuffer (ctx_state (part_copied u n c))) =
   wb_allocated (ensure_free_space (workBuffer (ctx_state c)) n)"
  by (simp add: part_copied_def copied_def)

lemma wb_used_part_copied [simp]:
  "wb_used (ctx_state (part_copied u n c)) = wb_used (ctx_state c) + min n (length (ctx_input c))"
  by (simp add: wb_used_def)

lemma spans_part_copied:
  assumes "nat (moduleIndex (ctx_state c)) < length (readoutDataSpans (ctx_state c))"
  shows "readoutDataSpans (ctx_state (part_copied u n c)) =
     (readoutDataSpans (ctx_state c))[nat (moduleIndex (ctx_state c)) :=
        u (grow_span n) (u (begin_span (wb_used (ctx_state c))) (cur_spans (ctx_state c)))]"
    and "cur_spans (ctx_state (part_copied u n c)) =
        u (grow_span n) (u (begin_span (wb_used (ctx_state c))) (cur_spans (ctx_state c)))"
  using assms by (simp_all add: part_copied_def copied_def upd_spans_def cur_spans_def)

lemma cur_parts_part_copied [simp]:
  "cur_parts (ctx_state (part_copied u n c)) = cur_parts (ctx_state c)"
  by (simp add: cur_parts_def moduleReadoutInfos_def)

lemma module_ctx_copied:
  assumes "module_ctx S c" "n \<le> length (ctx_input c)"
    and "span_ok (wb_used (ctx_state c) + n)
           (u (grow_span n) (u (begin_span (wb_used (ctx_state c))) (cur_spans (ctx_state c))))"
  shows "module_ctx S (part_copied u n c)"
proof -
  have "base_ok S (part_copied u n c)"
    using assms(1,2) ensure_allocated [of "workBuffer (ctx_state c)" n]
    by (simp add: module_ctx_def base_ok_def part_copied_allocated Let_def) (simp add: wb_used_def)
  then show ?thesis
    using assms module_ctx_parts(2) [OF assms(1)]
    by (auto simp: module_ctx_def spans_part_copied Let_def intro: others_ok_mono)
qed

text \<open>
  The result of a stage that reads the current module: if the iteration goes on
  then input has been consumed, provided there was some.
\<close>

definition module_post :: "ReadoutStructure \<Rightarrow> parser_ctx \<Rightarrow> parser_ctx \<times> outcome \<Rightarrow> bool" where
  "module_post S c r \<longleftrightarrow>
     (if snd r = Next
      then in_event S (fst r) \<and> (ctx_input c \<noteq> [] \<longrightarrow> length (ctx_input (fst r)) < length (ctx_input c))
      else sound S r)"

lemma module_post_simps [simp]:
  "module_post S c (d, Next) \<longleftrightarrow>
     in_event S d \<and> (ctx_input c \<noteq> [] \<longrightarrow> length (ctx_input d) < length (ctx_input c))"
  "module_post S c (d, Continue) \<longleftrightarrow> head_ok S d"
  "module_post S c (d, Return r) \<longleftrightarrow> base_ok S d \<and> (r = Ok \<longrightarrow> head_ok S d) \<and> r \<notin> not_advancing"
  "module_post S c (d, Throw e) \<longleftrightarrow> base_ok S d \<and> e \<noteq> UndefinedBehaviour"
  by (simp_all add: module_post_def)

lemma unat_pos: "(w :: 'a :: len word) \<noteq> 0 \<Longrightarrow> 0 < unat w"
  by (simp add: unat_gt_0)

lemma parse_prefix_sound:
  assumes "module_ctx S c" "groupParseState (ctx_state c) = Prefix"
    and cur: "current_ok Prefix (cur_parts (ctx_state c)) (cur_spans (ctx_state c))"
    and left: "fps_wordsLeft (curStackFrame (ctx_state c)) \<noteq> 0"
  shows "module_post S c (parse_prefix c)"
proof -
  note parts = module_ctx_parts [OF assms(1)]
  let ?parts = "cur_parts (ctx_state c)"
  let ?size = "sp_size (prefixSpan (cur_spans (ctx_state c)))"
  show ?thesis
  proof (cases "?size < unat (prefixLen ?parts)")
    case False
    then have z: "?size = 0" "prefixLen ?parts = 0" using cur by (auto simp: current_ok_def)
    then have "parse_prefix c =
        (upd_state (\<lambda>st. st\<lparr>groupParseState := if hasDynamic ?parts then Dynamic else Suffix\<rparr>) c, Continue)"
      using parts(3) by (simp add: parse_prefix_def copy_prefix_def mrs_is_empty_def Let_def)
    then show ?thesis
      using z cur parts(3)
      by (auto intro!: module_ctx_head [OF assms(1)] simp: current_ok_def mrs_is_empty_def unat_pos)
  next
    case True
    define n where "n = min (unat (prefixLen ?parts) - ?size)
        (min (unat (fps_wordsLeft (curStackFrame (ctx_state c)))) (length (ctx_input c)))"
    let ?d = "part_copied prefixSpan_update n c"
    have n: "n \<le> length (ctx_input c)" "?size + n \<le> unat (prefixLen ?parts)"
      "ctx_input c \<noteq> [] \<longrightarrow> 0 < n"
      using True left by (auto simp: n_def unat_pos)
    have copy: "copy_prefix c = (?d, Next)"
      using True copy_part_eq [OF parts(5) n(1)] by (simp add: copy_prefix_def n_def Let_def)
    have ctx: "module_ctx S ?d"
      using cur assms(1)
      by (intro module_ctx_copied assms(1) n(1) span_ok_grow(1))
        (auto simp: current_ok_def module_ctx_def Let_def)
    have spans: "sp_size (prefixSpan (cur_spans (ctx_state ?d))) = ?size + n"
      "sp_size (dynamicSpan (cur_spans (ctx_state ?d))) = 0"
      "sp_size (suffixSpan (cur_spans (ctx_state ?d))) = 0"
      using cur by (simp_all add: spans_part_copied [OF parts(2)] current_ok_def)
    have shorter: "ctx_input c \<noteq> [] \<longrightarrow> length (ctx_input ?d) < length (ctx_input c)"
      using n by auto
    have inev: "in_event S ?d" if "?size + n \<noteq> unat (prefixLen ?parts)"
      using that n(2) spans assms(2)
      by (intro module_ctx_in_event(1) ctx) (simp add: current_ok_def)
    show ?thesis
      using spans shorter inev module_ctx_head [OF ctx] module_ctx_done [OF ctx] parts(3)
      by (simp add: parse_prefix_def copy Let_def)
        (auto simp: current_ok_def module_complete_def unat_pos module_done_def)
  qed
qed

lemma parse_suffix_sound:
  assumes "module_ctx S c" "groupParseState (ctx_state c) = Suffix"
    and cur: "current_ok Suffix (cur_parts (ctx_state c)) (cur_spans (ctx_state c))"
    and left: "fps_wordsLeft (curStackFrame (ctx_state c)) \<noteq> 0"
  shows "module_post S c (parse_suffix c)"
proof -
  note parts = module_ctx_parts [OF assms(1)]
  let ?parts = "cur_parts (ctx_state c)"
  let ?size = "sp_size (suffixSpan (cur_spans (ctx_state c)))"
  define n where "n = min (unat (suffixLen ?parts) - ?size)
      (min (unat (fps_wordsLeft (curStackFrame (ctx_state c)))) (length (ctx_input c)))"
  let ?d = "part_copied suffixSpan_update n c"
  have lt: "?size < unat (suffixLen ?parts)" using cur by (simp add: current_ok_def)
  then have n: "n \<le> length (ctx_input c)" "?size + n \<le> unat (suffixLen ?parts)"
    "ctx_input c \<noteq> [] \<longrightarrow> 0 < n"
    using left by (auto simp: n_def unat_pos)
  have copy: "copy_suffix c = (?d, Next)"
    using lt copy_part_eq [OF parts(5) n(1)] by (simp add: copy_suffix_def n_def Let_def)
  have ctx: "module_ctx S ?d"
    using assms(1) by (intro module_ctx_copied assms(1) n(1) span_ok_grow(3)) (auto simp: module_ctx_def Let_def)
  have spans: "sp_size (suffixSpan (cur_spans (ctx_state ?d))) = ?size + n"
    "sp_size (dynamicSpan (cur_spans (ctx_state ?d))) = sp_size (dynamicSpan (cur_spans (ctx_state c)))"
    "sp_size (prefixSpan (cur_spans (ctx_state ?d))) = unat (prefixLen ?parts)"
    using cur by (simp_all add: spans_part_copied [OF parts(2)] current_ok_def)
  have shorter: "ctx_input c \<noteq> [] \<longrightarrow> length (ctx_input ?d) < length (ctx_input c)"
    using n by auto
  have inev: "in_event S ?d" if "\<not> unat (suffixLen ?parts) \<le> ?size + n"
    using that spans assms(2) cur
    by (intro module_ctx_in_event(1) ctx) (auto simp: current_ok_def)
  have "module_complete ?parts (cur_spans (ctx_state ?d))" if "unat (suffixLen ?parts) \<le> ?size + n"
    using that n(2) spans cur by (auto simp: module_complete_def current_ok_def)
  then show ?thesis
    using spans shorter inev module_ctx_done [OF ctx]
    by (simp add: parse_suffix_def copy Let_def)
qed

text \<open>The dynamic part. The block frame is not part of the description of the module.\<close>

lemma module_ctx_frames:
  assumes "module_ctx S c" "ctx_log d = ctx_log c"
    and "\<exists>f g. fps_header f = fps_header (curStackFrame (ctx_state c)) \<and>
             ctx_state d = (ctx_state c)\<lparr>curStackFrame := f, curBlockFrame := g\<rparr>"
  shows "module_ctx S d"
    and "cur_parts (ctx_state d) = cur_parts (ctx_state c)"
    and "cur_spans (ctx_state d) = cur_spans (ctx_state c)"
    and "groupParseState (ctx_state d) = groupParseState (ctx_state c)"
  using assms
  by (auto simp: module_ctx_def base_ok_def wb_used_def cur_spans_def cur_parts_def
      moduleReadoutInfos_def Let_def)

lemma open_block_frame_sound:
  assumes "module_ctx S c" "groupParseState (ctx_state c) = Dynamic"
    and cur: "current_ok Dynamic (cur_parts (ctx_state c)) (cur_spans (ctx_state c))"
    and left: "fps_wordsLeft (curStackFrame (ctx_state c)) \<noteq> 0"
  shows "snd (open_block_frame c) \<noteq> Next \<Longrightarrow> sound S (open_block_frame c)"
    and "open_block_frame c = (b, Next) \<Longrightarrow>
      module_ctx S b \<and> cur_parts (ctx_state b) = cur_parts (ctx_state c) \<and>
      cur_spans (ctx_state b) = cur_spans (ctx_state c) \<and>
      groupParseState (ctx_state b) = Dynamic \<and>
      (length (ctx_input b) < length (ctx_input c) \<or>
       ctx_input b = ctx_input c \<and> fps_wordsLeft (curBlockFrame (ctx_state b)) \<noteq> 0)"
proof -
  show "snd (open_block_frame c) \<noteq> Next \<Longrightarrow> sound S (open_block_frame c)"
    using left module_ctx_in_event [OF assms(1)] module_ctx_parts(4) [OF assms(1)] assms(2) cur
    by (auto simp: open_block_frame_def consumeWord_def head_ok_def Let_def split: if_splits list.splits)
  assume b: "open_block_frame c = (b, Next)"
  then have eq: "b = c \<and> fps_wordsLeft (curBlockFrame (ctx_state b)) \<noteq> 0 \<or>
      length (ctx_input b) < length (ctx_input c)"
    using left by (auto simp: open_block_frame_def consumeWord_def Let_def split: if_splits list.splits)
  have log: "ctx_log b = ctx_log c"
    using b by (auto simp: open_block_frame_def consumeWord_def Let_def split: if_splits list.splits)
  have frames: "\<exists>f g. fps_header f = fps_header (curStackFrame (ctx_state c)) \<and>
      ctx_state b = (ctx_state c)\<lparr>curStackFrame := f, curBlockFrame := g\<rparr>"
    using b
    by (intro exI [of _ "curStackFrame (ctx_state b)"] exI [of _ "curBlockFrame (ctx_state b)"])
      (auto simp: open_block_frame_def consumeWord_def Let_def split: if_splits list.splits)
  from module_ctx_frames [OF assms(1) log frames] eq assms(2)
  show "module_ctx S b \<and> cur_parts (ctx_state b) = cur_parts (ctx_state c) \<and>
      cur_spans (ctx_state b) = cur_spans (ctx_state c) \<and>
      groupParseState (ctx_state b) = Dynamic \<and>
      (length (ctx_input b) < length (ctx_input c) \<or>
       ctx_input b = ctx_input c \<and> fps_wordsLeft (curBlockFrame (ctx_state b)) \<noteq> 0)" by auto
qed

lemma copy_dynamic_sound:
  assumes "module_ctx S b" "current_ok Dynamic (cur_parts (ctx_state b)) (cur_spans (ctx_state b))"
    and "groupParseState (ctx_state b) = Dynamic"
  shows "\<exists>d. copy_dynamic b = (d, Next) \<and> module_ctx S d \<and>
      cur_parts (ctx_state d) = cur_parts (ctx_state b) \<and>
      current_ok Dynamic (cur_parts (ctx_state d)) (cur_spans (ctx_state d)) \<and>
      groupParseState (ctx_state d) = Dynamic \<and>
      ctx_input d = drop (unat (fps_wordsLeft (curBlockFrame (ctx_state b)))) (ctx_input b)"
proof -
  note parts = module_ctx_parts [OF assms(1)]
  define n where "n = min (unat (fps_wordsLeft (curBlockFrame (ctx_state b)))) (length (ctx_input b))"
  let ?d = "part_copied dynamicSpan_update n b"
  let ?e = "upd_state (\<lambda>st. st\<lparr>curBlockFrame := (curBlockFrame st)
      \<lparr>fps_wordsLeft := fps_wordsLeft (curBlockFrame st) - of_nat n\<rparr>\<rparr>) ?d"
  have n: "n \<le> length (ctx_input b)" by (simp add: n_def)
  have ctx: "module_ctx S ?d"
    using assms by (intro module_ctx_copied assms(1) n span_ok_grow(2))
      (auto simp: module_ctx_def current_ok_def Let_def)
  have "current_ok Dynamic (cur_parts (ctx_state ?d)) (cur_spans (ctx_state ?d))"
    using assms(2) by (simp add: spans_part_copied [OF parts(2)] current_ok_def)
  moreover have log: "ctx_log ?e = ctx_log ?d" by simp
  have "\<exists>f g. fps_header f = fps_header (curStackFrame (ctx_state ?d)) \<and>
             ctx_state ?e = (ctx_state ?d)\<lparr>curStackFrame := f, curBlockFrame := g\<rparr>"
    by (intro exI [of _ "curStackFrame (ctx_state ?d)"] exI [of _ "curBlockFrame (ctx_state ?e)"]) simp
  note frames = module_ctx_frames [OF ctx log this]
  moreover have "copy_dynamic b = (?e, Next)"
    using copy_part_eq [OF parts(5) n] by (simp add: copy_dynamic_def n_def Let_def)
  moreover have "ctx_input ?e = drop (unat (fps_wordsLeft (curBlockFrame (ctx_state b)))) (ctx_input b)"
    by (simp add: n_def min_def)
  ultimately show ?thesis using assms(3) by (intro exI [of _ ?e]) simp
qed

lemma trim_2eSST_sound:
  assumes "module_ctx S d" "current_ok Dynamic (cur_parts (ctx_state d)) (cur_spans (ctx_state d))"
  shows "\<exists>e. trim_2eSST d = (e, Next) \<and> module_ctx S e \<and>
      cur_parts (ctx_state e) = cur_parts (ctx_state d) \<and>
      current_ok Dynamic (cur_parts (ctx_state e)) (cur_spans (ctx_state e)) \<and>
      ctx_input e = ctx_input d"
proof -
  let ?sp = "dynamicSpan (cur_spans (ctx_state d))"
  let ?e = "upd_state (upd_spans (\<lambda>sps. sps
     \<lparr>dynamicSpan := (dynamicSpan sps)\<lparr>sp_size := sp_size (dynamicSpan sps) - 2\<rparr>\<rparr>)) d"
  note parts = module_ctx_parts [OF assms(1)]
  have le: "sp_offset ?sp + sp_size ?sp \<le> wb_used (ctx_state d)"
    using assms(1) by (simp add: module_ctx_def span_ok_def Let_def)
  have four: "4 \<le> sp_size ?sp" if "ends_with_fill (span_words (ctx_state d) ?sp)"
    using that le by (auto simp: ends_with_fill_def span_words_def wb_used_def min_def split: if_splits)
  have spans: "cur_spans (ctx_state ?e) = (cur_spans (ctx_state d))
      \<lparr>dynamicSpan := ?sp\<lparr>sp_size := sp_size ?sp - 2\<rparr>\<rparr>"
    using parts(2) by (simp add: cur_spans_def upd_spans_def)
  have used: "wb_used (ctx_state ?e) = wb_used (ctx_state d)" by (simp add: wb_used_def)
  have base: "base_ok S ?e" using parts(4) by (simp add: base_ok_def wb_used_def Let_def)
  have same: "cur_parts (ctx_state ?e) = cur_parts (ctx_state d)"
    by (simp add: cur_parts_def moduleReadoutInfos_def)
  have span: "span_ok (wb_used (ctx_state d)) (cur_spans (ctx_state ?e))"
    if "4 \<le> sp_size ?sp"
    using assms(1) that unfolding spans
    by (auto simp: module_ctx_def span_ok_def spans_start_def spans_total_def Let_def)
  have others: "others_ok infos (nat (moduleIndex (ctx_state d))) (readoutDataSpans (ctx_state ?e)) u =
      others_ok infos (nat (moduleIndex (ctx_state d))) (readoutDataSpans (ctx_state d)) u" for infos u
    by (simp add: upd_spans_def)
  have ctx: "module_ctx S ?e" if "4 \<le> sp_size ?sp"
    using assms(1) base span [OF that] others used by (simp add: module_ctx_def Let_def)
  have cur: "current_ok Dynamic (cur_parts (ctx_state ?e)) (cur_spans (ctx_state ?e))"
    using assms(2) unfolding same spans by (simp add: current_ok_def)
  show ?thesis
  proof (cases "isMesytecAndUsing2eSST (cur_parts (ctx_state d)) \<and>
      ends_with_fill (span_words (ctx_state d) ?sp)")
    case True
    then have "trim_2eSST d = (?e, Next)" using le by (simp add: trim_2eSST_def Let_def)
    with True ctx four cur same show ?thesis by (intro exI [of _ ?e]) simp
  next
    case False
    then have "trim_2eSST d = (d, Next)" using le by (auto simp: trim_2eSST_def Let_def)
    with assms show ?thesis by blast
  qed
qed

lemma parse_dynamic_sound:
  assumes "module_ctx S c" "groupParseState (ctx_state c) = Dynamic"
    and cur: "current_ok Dynamic (cur_parts (ctx_state c)) (cur_spans (ctx_state c))"
    and left: "fps_wordsLeft (curStackFrame (ctx_state c)) \<noteq> 0"
  shows "module_post S c (parse_dynamic c)"
proof (cases "snd (open_block_frame c) = Next")
  case False
  then have "parse_dynamic c = open_block_frame c"
    by (cases "open_block_frame c"; cases "snd (open_block_frame c)") (auto simp: parse_dynamic_def)
  with False open_block_frame_sound(1) [OF assms] show ?thesis by (simp add: module_post_def)
next
  case True
  then obtain b where b: "open_block_frame c = (b, Next)" by (metis prod.collapse)
  note ob = open_block_frame_sound(2) [OF assms b]
  then obtain d where d: "copy_dynamic b = (d, Next)" "module_ctx S d"
      "cur_parts (ctx_state d) = cur_parts (ctx_state b)" "groupParseState (ctx_state d) = Dynamic"
      "current_ok Dynamic (cur_parts (ctx_state d)) (cur_spans (ctx_state d))"
      "ctx_input d = drop (unat (fps_wordsLeft (curBlockFrame (ctx_state b)))) (ctx_input b)"
    using copy_dynamic_sound [of S b] cur by auto
  have shorter: "ctx_input c \<noteq> [] \<longrightarrow> length (ctx_input d) < length (ctx_input c)"
    using ob d(6) by (auto simp: unat_pos)
  obtain e where e: "trim_2eSST d = (e, Next)" "module_ctx S e"
      "cur_parts (ctx_state e) = cur_parts (ctx_state d)"
      "current_ok Dynamic (cur_parts (ctx_state e)) (cur_spans (ctx_state e))" "ctx_input e = ctx_input d"
    using trim_2eSST_sound [OF d(2,5)] by blast
  have fin: "in_event S (upd_state module_done e)" if "suffixLen (cur_parts (ctx_state e)) = 0"
    using that e(4) by (intro module_ctx_done e(2)) (auto simp: current_ok_def module_complete_def)
  have suffix: "head_ok S (upd_state (\<lambda>st. st\<lparr>groupParseState := Suffix\<rparr>) e)"
    if "suffixLen (cur_parts (ctx_state e)) \<noteq> 0"
    using that e(4) by (intro module_ctx_head e(2)) (auto simp: current_ok_def unat_pos)
  show ?thesis
    using shorter fin suffix e module_ctx_in_event(1) [OF d(2)] d(4,5)
    by (simp add: parse_dynamic_def b d(1) module_done_def)
qed

lemma parse_module_empty:
  assumes "reading S c" "mrs_is_empty (cur_parts (ctx_state c))"
  shows "snd (parse_module c) = Next \<and> in_event S (fst (parse_module c))"
proof -
  let ?st = "ctx_state c"
  let ?infos = "S ! nat (eventIndex ?st)" and ?mi = "nat (moduleIndex ?st)"
  have ev: "in_event S c" and lt: "?mi < length ?infos" using assms(1) by (simp_all add: reading_def)
  then have ok: "others_ok ?infos ?mi (readoutDataSpans ?st) (wb_used ?st)"
    "span_ok (wb_used ?st) (readoutDataSpans ?st ! ?mi)"
    "current_ok (groupParseState ?st) (?infos ! ?mi) (readoutDataSpans ?st ! ?mi)"
    by (simp_all add: in_event_def event_spans_ok_def Let_def)
  have e: "mrs_is_empty (?infos ! ?mi)"
    using assms(2) in_event_base [OF ev]
    by (simp add: cur_parts_def moduleReadoutInfos_def base_ok_def Let_def)
  note cur = current_empty [OF ok(3) e]
  have "event_spans_ok ?infos (?mi + 1) (groupParseState ?st) (readoutDataSpans ?st) (wb_used ?st)"
    using event_spans_advance [OF ok(1) lt ok(2)] cur by simp
  with ev assms(2) show ?thesis
    by (auto simp: parse_module_def in_event_def base_ok_def wb_used_def nat_add_distrib Let_def)
qed

lemma parse_module_sound:
  assumes "reading S c"
  shows "snd (parse_module c) \<noteq> Next \<Longrightarrow> sound S (parse_module c)"
    and "parse_module c = (c', Next) \<Longrightarrow> in_event S c'"
    and "parse_module c = (c', Next) \<Longrightarrow> at_module S c \<Longrightarrow> ctx_input c \<noteq> [] \<Longrightarrow>
         length (ctx_input c') < length (ctx_input c)"
proof -
  let ?st = "ctx_state c"
  have "module_post S c (parse_module c)" if ne: "\<not> mrs_is_empty (cur_parts ?st)"
  proof -
    note ctx = reading_module_ctx [OF assms ne]
    have idx: "\<not> int (length (readoutDataSpans ?st)) \<le> moduleIndex ?st"
      using module_ctx_parts(2) [OF ctx(1)] by linarith
    have left: "fps_wordsLeft (curStackFrame ?st) \<noteq> 0" using assms by (simp add: reading_def)
    show ?thesis
      using ctx left parse_prefix_sound [OF ctx(1)] parse_dynamic_sound [OF ctx(1)]
        parse_suffix_sound [OF ctx(1)] ne idx
      by (cases "groupParseState ?st") (simp_all add: parse_module_def Let_def)
  qed
  moreover have "snd (parse_module c) = Next \<and> in_event S (fst (parse_module c))"
    if "mrs_is_empty (cur_parts ?st)"
    using parse_module_empty [OF assms that] .
  moreover have "at_module S c \<Longrightarrow> \<not> mrs_is_empty (cur_parts ?st)"
    using assms by (auto simp: at_module_def cur_parts_def moduleReadoutInfos_def reading_def
        in_event_def base_ok_def Let_def)
  ultimately show "snd (parse_module c) \<noteq> Next \<Longrightarrow> sound S (parse_module c)"
    and "parse_module c = (c', Next) \<Longrightarrow> in_event S c'"
    and "parse_module c = (c', Next) \<Longrightarrow> at_module S c \<Longrightarrow> ctx_input c \<noteq> [] \<Longrightarrow>
         length (ctx_input c') < length (ctx_input c)"
    by (auto simp: module_post_def split: if_splits)
qed

section \<open>One iteration\<close>

lemma base_ok_deliver:
  assumes "base_ok S c" "event_ok S e" "length buf = length (moduleDataBuffer (ctx_state c))"
  shows "base_ok S (call_back e (upd_state (\<lambda>st. st\<lparr>moduleDataBuffer := buf\<rparr>) c))"
  using assms by (simp add: base_ok_def wb_used_def Let_def)

lemma in_event_infos:
  assumes "in_event S c"
  shows "moduleReadoutInfos (ctx_state c) = S ! nat (eventIndex (ctx_state c))"
    and "length (moduleReadoutInfos (ctx_state c)) \<le> length (readoutDataSpans (ctx_state c))"
    and "length (moduleReadoutInfos (ctx_state c)) \<le> length (moduleDataBuffer (ctx_state c))"
    and "0 \<le> eventIndex (ctx_state c)" "nat (eventIndex (ctx_state c)) < length S"
    and "readoutStructure (ctx_state c) = S" "0 \<le> moduleIndex (ctx_state c)"
  using assms
  by (auto simp: in_event_def base_ok_def moduleReadoutInfos_def list_all_length Let_def)

lemma handle_empty_frame_sound:
  assumes "in_event S c"
  shows "snd (handle_empty_frame c) = Continue" "head_ok S (fst (handle_empty_frame c))"
proof -
  note inf = in_event_infos [OF assms]
  let ?st = "ctx_state c"
  let ?n = "length (moduleReadoutInfos ?st)"
  let ?buf = "replicate ?n ModuleData_init @ drop ?n (moduleDataBuffer ?st)"
  let ?e = "EventData (crateId ?st) (eventIndex ?st) (take ?n ?buf)"
  have "event_ok S ?e" using inf by (simp add: event_ok_def)
  with inf(3) have "base_ok S (call_back ?e (upd_state (\<lambda>st. st\<lparr>moduleDataBuffer := ?buf\<rparr>) c))"
    by (intro base_ok_deliver in_event_base [OF assms]) simp_all
  then show "snd (handle_empty_frame c) = Continue" "head_ok S (fst (handle_empty_frame c))"
    using inf(3) by (simp_all add: handle_empty_frame_def Let_def base_ok_def)
qed

lemma check_event_sound:
  assumes "opened S n c"
  shows "snd (check_event c) \<noteq> Next \<Longrightarrow> sound S (check_event c)"
    and "check_event c = (c', Next) \<Longrightarrow> c' = c \<and> reading S c"
proof -
  have ev: "in_event S c" using assms by (simp add: opened_def)
  note inf = in_event_infos [OF ev] and base = in_event_base [OF ev]
  have range: "\<not> (eventIndex (ctx_state c) < 0 \<or>
      int (length (readoutStructure (ctx_state c))) \<le> eventIndex (ctx_state c))"
    using inf(4,5) unfolding inf(6) by linarith
  show "snd (check_event c) \<noteq> Next \<Longrightarrow> sound S (check_event c)"
    using range base handle_empty_frame_sound [OF ev]
    by (cases "handle_empty_frame c") (auto simp: check_event_def Let_def)
  assume nx: "check_event c = (c', Next)"
  then have "c' = c" by (rule check_event_Next)
  moreover have "get_frame_length (fps_header (curStackFrame (ctx_state c))) \<noteq> 0"
    "moduleIndex (ctx_state c) < int (length (moduleReadoutInfos (ctx_state c)))"
    using nx handle_empty_frame_sound(1) [OF ev]
    by (auto simp: check_event_def Let_def split: if_splits)
  ultimately show "c' = c \<and> reading S c"
    using assms inf(1,7) by (auto simp: opened_def reading_def)
qed

lemma flush_event_sound:
  assumes "in_event S c"
    and "nat (moduleIndex (ctx_state c)) < length (S ! nat (eventIndex (ctx_state c))) \<Longrightarrow> at_module S c"
  shows "\<exists>d. flush_event c = (d, Next) \<and> head_ok S d \<and> ctx_input d = ctx_input c"
proof (cases "moduleIndex (ctx_state c) < int (length (moduleReadoutInfos (ctx_state c)))")
  case True
  note inf = in_event_infos [OF assms(1)]
  with True have "at_module S c" using assms(2) by simp
  with True assms(1) show ?thesis
    by (intro exI [of _ c]) (simp add: flush_event_def Let_def head_ok_def in_event_base)
next
  case False
  note inf = in_event_infos [OF assms(1)]
  let ?st = "ctx_state c"
  let ?infos = "moduleReadoutInfos ?st"
  from False have "length ?infos \<le> nat (moduleIndex ?st)" by linarith
  moreover have "event_spans_ok ?infos (nat (moduleIndex ?st)) (groupParseState ?st) (readoutDataSpans ?st)
      (length (wb_words (workBuffer ?st)))"
    using assms(1) inf(1) by (simp add: in_event_def wb_used_def Let_def)
  ultimately obtain mds where m: "list_all2 module_data_ok ?infos mds"
    "result_mapM (\<lambda>(spans, parts). module_data (wb_words (workBuffer ?st)) spans parts)
        (zip (readoutDataSpans ?st) ?infos) = Inr mds"
    using event_data_complete by blast
  let ?buf = "mds @ drop (length ?infos) (moduleDataBuffer ?st)"
  let ?e = "EventData (crateId ?st) (eventIndex ?st) mds"
  have len: "length mds = length ?infos" using m(1) by (simp add: list_all2_lengthD)
  have "event_ok S ?e" using inf m(1) by (simp add: event_ok_def)
  with len inf(3) have "base_ok S (call_back ?e (upd_state (\<lambda>st. st\<lparr>moduleDataBuffer := ?buf\<rparr>) c))"
    by (intro base_ok_deliver in_event_base [OF assms(1)]) simp_all
  then show ?thesis
    using False m(2) inf(2,3) by (simp add: flush_event_def Let_def base_ok_def)
qed

lemma finish_iteration_sound:
  assumes "in_event S c" "length (ctx_input c) < n"
  shows "sound S (finish_iteration n c)"
proof -
  note inf = in_event_infos [OF assms(1)]
  let ?st = "ctx_state c"
  let ?mi = "skip_empty_modules (moduleReadoutInfos ?st) (moduleIndex ?st)"
  let ?d = "upd_state (\<lambda>st. st\<lparr>moduleIndex :=
      skip_empty_modules (moduleReadoutInfos st) (moduleIndex st)\<rparr>) c"
  have "event_spans_ok (moduleReadoutInfos ?st) (nat (moduleIndex ?st)) (groupParseState ?st)
      (readoutDataSpans ?st) (wb_used ?st)"
    using assms(1) inf(1) by (simp add: in_event_def Let_def)
  note skip = event_spans_skip [OF this inf(7)]
  then have "in_event S ?d"
    using assms(1) inf(1) by (simp add: in_event_def base_ok_def wb_used_def Let_def)
  moreover have "at_module S ?d"
    if "nat (moduleIndex (ctx_state ?d)) < length (S ! nat (eventIndex (ctx_state ?d)))"
    using that skip inf(1) by (simp add: at_module_def Let_def)
  ultimately obtain e where "flush_event ?d = (e, Next)" "head_ok S e" "ctx_input e = ctx_input ?d"
    using flush_event_sound by blast
  with assms(2) show ?thesis by (simp add: finish_iteration_def check_advance_def)
qed

lemma iteration_sound:
  assumes "head_ok S c" "ctx_input c \<noteq> []"
  shows "sound S (iteration e c)"
  unfolding iteration_def
proof (rule sound_and_then)
  fix d assume "open_stack_frame e c = (d, Next)"
  then have op: "opened S (length (ctx_input c)) d" by (rule open_stack_frame_sound(2) [OF assms])
  show "sound S (event_part (length (ctx_input c)) d)"
    unfolding event_part_def
  proof (rule sound_and_then)
    fix f assume "and_then (check_event d) parse_module = (f, Next)"
    then obtain g where "check_event d = (g, Next)" "parse_module g = (f, Next)"
      by (auto elim: and_then_cases)
    with check_event_sound(2) [OF op] have rd: "reading S d" and pm: "parse_module d = (f, Next)" by auto
    have "length (ctx_input f) \<le> length (ctx_input d)" using shrinksD [OF shrinks_parse_module pm] .
    moreover have "length (ctx_input f) < length (ctx_input c)" if "length (ctx_input d) = length (ctx_input c)"
      using parse_module_sound(3) [OF rd pm] op that by (cases "ctx_input d") (auto simp: opened_def)
    ultimately have "length (ctx_input f) < length (ctx_input c)"
      using op by (auto simp: opened_def)
    with parse_module_sound(2) [OF rd pm] show "sound S (finish_iteration (length (ctx_input c)) f)"
      by (rule finish_iteration_sound)
  next
    show "snd (and_then (check_event d) parse_module) \<noteq> Next \<Longrightarrow>
        sound S (and_then (check_event d) parse_module)"
      using check_event_sound [OF op] parse_module_sound(1)
      by (cases "check_event d") (auto simp: and_then_def)
  qed
next
  show "snd (open_stack_frame e c) \<noteq> Next \<Longrightarrow> sound S (open_stack_frame e c)"
    by (rule open_stack_frame_sound(1) [OF assms])
qed

section \<open>Packets and buffers\<close>

text \<open>The result of a parser function: no undefined behaviour, no loop that got stuck.\<close>

definition result_sound :: "ReadoutStructure \<Rightarrow> parser_ctx \<times> ParseResult result \<Rightarrow> bool" where
  "result_sound S p \<longleftrightarrow> base_ok S (fst p) \<and>
     (case snd p of
        Inl e \<Rightarrow> e \<noteq> UndefinedBehaviour
      | Inr r \<Rightarrow> r \<notin> not_advancing \<and> (r = Ok \<longrightarrow> head_ok S (fst p)))"

lemma result_sound_simps [simp]:
  "result_sound S (c, Inl e) \<longleftrightarrow> base_ok S c \<and> e \<noteq> UndefinedBehaviour"
  "result_sound S (c, Inr r) \<longleftrightarrow> base_ok S c \<and> r \<notin> not_advancing \<and> (r = Ok \<longrightarrow> head_ok S c)"
  by (simp_all add: result_sound_def)

lemma head_ok_base: "head_ok S c \<Longrightarrow> base_ok S c"
  by (simp add: head_ok_def)

lemma parse_readout_contents_sound:
  "head_ok S c \<Longrightarrow> result_sound S (parse_readout_contents e c)"
proof (induction e c rule: parse_readout_contents.induct)
  case (1 e c)
  show ?case
  proof (cases "ctx_input c = []")
    case True
    with "1.prems" show ?thesis by (simp add: parse_readout_contents.simps head_ok_base)
  next
    case False
    obtain d out where it: "iteration e c = (d, out)" by (cases "iteration e c")
    have "out \<noteq> Next"
      using it iteration_sound [OF "1.prems" False, of e]
      by (auto simp: iteration_def event_part_def finish_iteration_def check_advance_def
          elim!: and_then_cases split: if_splits)
    with it iteration_sound [OF "1.prems" False, of e] False "1.IH" [OF False it [symmetric]]
    show ?thesis
      by (cases out) (auto simp: parse_readout_contents.simps [of e c])
  qed
qed

lemma eth_packet_loop_sound: "head_ok S c \<Longrightarrow> result_sound S (eth_packet_loop n c)"
proof (induction n c rule: eth_packet_loop.induct)
  case (1 n c)
  obtain d r where p: "parse_readout_contents True c = (d, r)" by (cases "parse_readout_contents True c")
  show ?case
  proof (cases "ctx_input c = [] \<or> r \<noteq> Inr Ok")
    case True
    with p "1.prems" parse_readout_contents_sound [OF "1.prems", of True] show ?thesis
      by (subst eth_packet_loop.simps) (auto simp: head_ok_base split: sum.splits)
  next
    case False
    with p have "ctx_input d = []" using parse_readout_contents_Ok by blast
    with p False "1.prems" parse_readout_contents_sound [OF "1.prems", of True] show ?thesis
      by (subst eth_packet_loop.simps) (auto simp: eth_packet_loop.simps [of n d])
  qed
qed

lemma parse_eth_packet_sound: "head_ok S c \<Longrightarrow> result_sound S (parse_eth_packet n packet c)"
  by (auto simp: parse_eth_packet_def Let_def head_ok_base intro!: eth_packet_loop_sound)

lemma base_ok_numbers [simp]:
  "base_ok S (upd_state (\<lambda>st. st\<lparr>lastPacketNumber := f st\<rparr>) c) = base_ok S c"
  "base_ok S (upd_state (\<lambda>st. st\<lparr>lastBufferNumber := g st\<rparr>) c) = base_ok S c"
  by (simp_all add: base_ok_def wb_used_def Let_def)

lemma head_ok_numbers [simp]:
  "head_ok S (upd_state (\<lambda>st. st\<lparr>lastPacketNumber := f st\<rparr>) c) = head_ok S c"
  "head_ok S (upd_state (\<lambda>st. st\<lparr>lastBufferNumber := g st\<rparr>) c) = head_ok S c"
  by (simp_all add: head_ok_def in_event_def at_module_def idle_def wb_used_def Let_def)

lemma note_packet_loss_sound: "head_ok S c \<Longrightarrow> head_ok S (note_packet_loss n c)"
  by (simp add: note_packet_loss_def head_ok_base Let_def)

lemma upd_state_id [simp]: "upd_state (\<lambda>st. st) c = c"
  by (simp add: upd_state_def)

lemma note_buffer_loss_sound: "head_ok S c \<Longrightarrow> head_ok S (note_buffer_loss is_eth n c)"
proof -
  assume "head_ok S c"
  moreover have "head_ok S (upd_state (\<lambda>st. if is_eth then st\<lparr>lastPacketNumber := - 1\<rparr> else st) c') =
      head_ok S c'" for c'
    by (cases is_eth) simp_all
  ultimately show ?thesis by (simp add: note_buffer_loss_def head_ok_base Let_def)
qed

lemma skip_packet_sound: "base_ok S c \<Longrightarrow> head_ok S (skip_packet n b c)"
  by (simp add: skip_packet_def)

lemma buffer_exception_sound: "base_ok S c \<Longrightarrow> head_ok S (buffer_exception c)"
  by (simp add: buffer_exception_def)

lemma buffer_processed_sound: "head_ok S (buffer_processed n c) = head_ok S c"
  by (simp add: buffer_processed_def)

text \<open>The loop over the packets leaves the invariant intact whatever its result is.\<close>

definition loop_sound :: "ReadoutStructure \<Rightarrow> parser_ctx \<times> ParseResult result \<Rightarrow> bool" where
  "loop_sound S p \<longleftrightarrow>
     (case snd p of
        Inl e \<Rightarrow> base_ok S (fst p) \<and> e \<noteq> UndefinedBehaviour
      | Inr r \<Rightarrow> head_ok S (fst p) \<and> r \<notin> not_advancing)"

lemma loop_sound_simps [simp]:
  "loop_sound S (c, Inl e) \<longleftrightarrow> base_ok S c \<and> e \<noteq> UndefinedBehaviour"
  "loop_sound S (c, Inr r) \<longleftrightarrow> head_ok S c \<and> r \<notin> not_advancing"
  by (simp_all add: loop_sound_def)

text \<open>The steps of the loop.\<close>

lemma try_handle_system_event_False: "try_handle_system_event c = Inr (False, x) \<Longrightarrow> x = c"
  by (auto simp: try_handle_system_event_def Let_def split: list.splits if_splits)

lemma try_handle_system_event_cases:
  obtains (throw) e where "try_handle_system_event c = Inl e"
    | (system) d where "try_handle_system_event c = Inr (True, d)"
    | (packet) "try_handle_system_event c = Inr (False, c)"
proof (cases "try_handle_system_event c")
  case (Inr p)
  then show thesis
    using system packet try_handle_system_event_False [of c "snd p"]
    by (cases p; cases "fst p") auto
qed (rule throw)

lemma eth_loop_system:
  "ctx_input c \<noteq> [] \<Longrightarrow> try_handle_system_event c = Inr (True, d) \<Longrightarrow>
   eth_buffer_loop n result c = eth_buffer_loop n result d"
  by (subst eth_buffer_loop.simps) simp

lemma eth_loop_throw:
  "ctx_input c \<noteq> [] \<Longrightarrow> try_handle_system_event c = Inl e \<Longrightarrow> eth_buffer_loop n result c = (c, Inl e)"
  by (subst eth_buffer_loop.simps) simp

abbreviation (input) packet_headers :: "parser_ctx \<Rightarrow> PayloadHeaderInfo" where
  "packet_headers c \<equiv> \<lparr>header0 = ctx_input c ! 0, header1 = ctx_input c ! 1\<rparr>"

definition packet_words :: "parser_ctx \<Rightarrow> nat" where
  "packet_words c = eth_HeaderWords + unat (dataWordCount (packet_headers c))"

definition begin_packet :: "parser_ctx \<Rightarrow> parser_ctx" where
  "begin_packet c = upd_state (\<lambda>st. st\<lparr>lastPacketNumber := uint (packetNumber (packet_headers c))\<rparr>)
     (note_packet_loss (packetNumber (packet_headers c)) c)"

lemma eth_loop_short:
  "ctx_input c \<noteq> [] \<Longrightarrow> try_handle_system_event c = Inr (False, c) \<Longrightarrow>
   length (ctx_input c) < eth_HeaderWords \<or> length (ctx_input c) < packet_words c \<Longrightarrow>
   eth_buffer_loop n result c = (c, Inl EndOfBuffer)"
  by (subst eth_buffer_loop.simps) (auto simp: packet_words_def Let_def)

definition packet_done :: "parser_ctx \<Rightarrow> ParseResult \<Rightarrow> parser_ctx \<Rightarrow> ParseResult result \<Rightarrow>
    parser_ctx \<times> ParseResult" where
  "packet_done c result c2 pr =
     (let rest = drop (packet_words c) (ctx_input c)
      in case pr of
           Inl e \<Rightarrow> (set_input rest (skip_packet (packet_words c) True c2),
                     if result = Ok then UnhandledException else result)
         | Inr r \<Rightarrow>
             if r = Ok
             then (set_input rest (upd_counters (\<lambda>cn. (count_parse_result Ok cn)
                     \<lparr>ethPacketsProcessed := ethPacketsProcessed cn + 1\<rparr>) c2), result)
             else (set_input rest (skip_packet (packet_words c) False
                     (upd_counters (count_parse_result r) c2)),
                   if result = Ok then r else result))"

lemma eth_loop_packet:
  assumes "ctx_input c \<noteq> []" "try_handle_system_event c = Inr (False, c)"
    and "eth_HeaderWords \<le> length (ctx_input c)" "packet_words c \<le> length (ctx_input c)"
    and "parse_eth_packet n (take (packet_words c) (ctx_input c)) (begin_packet c) = (c2, pr)"
    and "pr \<noteq> Inl UndefinedBehaviour"
  shows "eth_buffer_loop n result c =
         (case packet_done c result c2 pr of (d, r) \<Rightarrow> eth_buffer_loop n r d)"
proof -
  have "length (drop (packet_words c) (ctx_input c)) \<noteq> length (ctx_input c)"
    using assms(1,4) by (cases "ctx_input c") (simp_all add: packet_words_def)
  with assms show ?thesis
    by (subst eth_buffer_loop.simps)
      (cases pr; simp add: packet_words_def begin_packet_def packet_done_def Let_def)
qed

lemma packet_done_sound:
  assumes "result_sound S (c2, pr)" "result \<notin> not_advancing"
  shows "head_ok S (fst (packet_done c result c2 pr))" "snd (packet_done c result c2 pr) \<notin> not_advancing"
  using assms by (cases pr; simp add: packet_done_def skip_packet_sound Let_def)+

lemma packet_done_input: "ctx_input (fst (packet_done c result c2 pr)) = drop (packet_words c) (ctx_input c)"
  by (cases pr) (simp_all add: packet_done_def Let_def)

lemma eth_buffer_loop_sound:
  "head_ok S c \<Longrightarrow> result \<notin> not_advancing \<Longrightarrow> loop_sound S (eth_buffer_loop n result c)"
proof (induction "length (ctx_input c)" arbitrary: c result rule: less_induct)
  case less
  let ?input = "ctx_input c"
  show ?case
  proof (cases "?input = []")
    case True
    with less.prems show ?thesis by (simp add: eth_buffer_loop.simps)
  next
    case ne: False
    show ?thesis
    proof (cases c rule: try_handle_system_event_cases)
      case throw
      with less.prems ne show ?thesis
        using try_handle_system_event_exc by (auto simp: eth_loop_throw head_ok_base)
    next
      case (system d)
      then show ?thesis
        using less.hyps [of d result] less.prems
        by (simp add: eth_loop_system [OF ne system] try_handle_system_event_consumes
            try_handle_system_event_sound)
    next
      case packet
      show ?thesis
      proof (cases "length ?input < eth_HeaderWords \<or> length ?input < packet_words c")
        case True
        with less.prems show ?thesis by (simp add: eth_loop_short [OF ne packet] head_ok_base)
      next
        case False
        obtain c2 pr where p: "parse_eth_packet n (take (packet_words c) ?input) (begin_packet c) = (c2, pr)"
          by fastforce
        have "head_ok S (begin_packet c)"
          using less.prems(1) by (simp add: begin_packet_def note_packet_loss_sound)
        from parse_eth_packet_sound [OF this, of n] p have pr: "result_sound S (c2, pr)" by metis
        obtain d r where d: "packet_done c result c2 pr = (d, r)" by fastforce
        have "length (ctx_input d) < length ?input"
          using packet_done_input [of c result c2 pr] d ne by (cases ?input) (simp_all add: packet_words_def)
        then show ?thesis
          using less.hyps [of d r] packet_done_sound [OF pr less.prems(2), of c] d pr False
          by (subst eth_loop_packet [OF ne packet _ _ p]) auto
      qed
    qed
  qed
qed

lemma usb_buffer_loop_sound: "head_ok S c \<Longrightarrow> loop_sound S (usb_buffer_loop c)"
proof -
  assume c: "head_ok S c"
  obtain d r where p: "parse_readout_contents False c = (d, r)" by (cases "parse_readout_contents False c")
  from parse_readout_contents_sound [OF c, of False] p have r: "result_sound S (d, r)" by simp
  have "ctx_input d = []" if "r = Inr Ok" using p that parse_readout_contents_Ok by blast
  with c p r show ?thesis
    by (subst usb_buffer_loop.simps)
      (auto simp: usb_buffer_loop.simps [of "upd_counters f d" for f] Let_def split: sum.splits)
qed

lemma parse_readout_buffer_sound:
  assumes "head_ok S c"
  shows "\<exists>c' pr. parse_readout_buffer t n buf c = (c', Inr pr) \<and> head_ok S c' \<and> pr \<notin> not_advancing"
proof -
  have "\<exists>c' r. parse_readout_buffer_eth n buf c = (c', r) \<and> head_ok S c' \<and>
      r \<noteq> Inl UndefinedBehaviour \<and> (\<forall>x \<in> not_advancing. r \<noteq> Inr x)"
    using eth_buffer_loop_sound [of S "set_input buf (note_buffer_loss True n c)" Ok n] assms
    by (auto simp: parse_readout_buffer_eth_def note_buffer_loss_sound buffer_exception_sound
        buffer_processed_sound not_advancing_def split: prod.splits sum.splits)
  moreover have "\<exists>c' r. parse_readout_buffer_usb n buf c = (c', r) \<and> head_ok S c' \<and>
      r \<noteq> Inl UndefinedBehaviour \<and> (\<forall>x \<in> not_advancing. r \<noteq> Inr x)"
    using usb_buffer_loop_sound [of S "set_input buf (note_buffer_loss False n c)"] assms
    by (auto simp: parse_readout_buffer_usb_def note_buffer_loss_sound buffer_exception_sound
        buffer_processed_sound not_advancing_def split: prod.splits sum.splits)
  ultimately show ?thesis
    by (cases t) (auto simp: parse_readout_buffer_def split: sum.splits)
qed

section \<open>Sequences of buffers\<close>

text \<open>Feeding a parser with one input after the other.\<close>

fun consume_all :: "('i \<Rightarrow> parser_ctx \<Rightarrow> parser_ctx \<times> ParseResult result) \<Rightarrow> 'i list \<Rightarrow> parser_ctx \<Rightarrow>
    (parser_ctx \<times> ParseResult list) result" where
  "consume_all consume [] c = Inr (c, [])"
| "consume_all consume (x # xs) c =
     (case consume x c of
        (c', Inl e) \<Rightarrow> Inl e
      | (c', Inr r) \<Rightarrow> result_map (\<lambda>(d, rs). (d, r # rs)) (consume_all consume xs c'))"

text \<open>
  The contract of a function that consumes one buffer: it always returns, the
  result is never a stuck loop, and an invariant is kept.
\<close>

locale buffer_consumer =
  fixes consume :: "'i \<Rightarrow> parser_ctx \<Rightarrow> parser_ctx \<times> ParseResult result"
    and inv :: "parser_ctx \<Rightarrow> bool"
  assumes consume_safe:
    "inv c \<Longrightarrow> \<exists>c' pr. consume x c = (c', Inr pr) \<and> inv c' \<and> pr \<notin> not_advancing"
begin

lemma consume_all_safe:
  "inv c \<Longrightarrow> \<exists>c' prs. consume_all consume xs c = Inr (c', prs) \<and> inv c' \<and>
     length prs = length xs \<and> set prs \<inter> not_advancing = {}"
proof (induction xs arbitrary: c)
  case (Cons x xs)
  from consume_safe [OF Cons.prems] obtain d r
    where d: "consume x c = (d, Inr r)" "inv d" "r \<notin> not_advancing" by blast
  from Cons.IH [OF d(2)] obtain c' prs
    where "consume_all consume xs d = Inr (c', prs)" "inv c'" "length prs = length xs"
      "set prs \<inter> not_advancing = {}" by blast
  with d show ?case by simp
qed simp

end

text \<open>Both entry points of the parser meet the contract.\<close>

definition consume_buffer ::
  "ConnectionType \<times> u32 \<times> u32 list \<Rightarrow> parser_ctx \<Rightarrow> parser_ctx \<times> ParseResult result" where
  "consume_buffer x c = (case x of (t, n, buf) \<Rightarrow> parse_readout_buffer t n buf c)"

definition consume_detect :: "u32 \<times> u32 list \<Rightarrow> parser_ctx \<Rightarrow> parser_ctx \<times> ParseResult result" where
  "consume_detect x c = (case x of (n, buf) \<Rightarrow> parse_readout_buffer_detect n buf c)"

interpretation typed_buffers: buffer_consumer consume_buffer "head_ok S" for S
  by unfold_locales (auto simp: consume_buffer_def parse_readout_buffer_sound split: prod.splits)

interpretation detected_buffers: buffer_consumer consume_detect "head_ok S" for S
  by unfold_locales
    (auto simp: consume_detect_def parse_readout_buffer_detect_def parse_readout_buffer_sound
      split: prod.splits option.splits)

text \<open>A new parser, before it has seen any data.\<close>

definition parser_start :: "ReadoutParserState \<Rightarrow> parser_ctx" where
  "parser_start st =
     \<lparr>ctx_state = st, ctx_counters = ReadoutParserCounters_init, ctx_log = [], ctx_input = []\<rparr>"

lemma foldl_max: "n \<le> foldl (\<lambda>n g. max n (length g)) n gs \<and>
   (\<forall>g \<in> set gs. length g \<le> foldl (\<lambda>n g. max n (length g)) n gs)"
proof (induction gs arbitrary: n)
  case (Cons g gs)
  show ?case using Cons [of "max n (length g)"] by auto
qed simp

lemma parser_start_ok:
  assumes "make_readout_parser stacks = Inr st"
  shows "head_ok (readoutStructure st) (parser_start st)"
proof -
  from assms obtain S where "st = \<lparr>lastBufferNumber = 0,
      workBuffer = ensure_free_space \<lparr>wb_allocated = 0, wb_words = []\<rparr> InitialWorkerBufferSize,
      readoutDataSpans = replicate (foldl (\<lambda>n g. max n (length g)) 0 S) ModuleReadoutSpans_init,
      moduleDataBuffer = replicate (foldl (\<lambda>n g. max n (length g)) 0 S) ModuleData_init,
      readoutStructure = S, eventIndex = - 1, moduleIndex = - 1,
      groupParseState = Prefix, curStackFrame = FrameParseState_none,
      curBlockFrame = FrameParseState_none, lastPacketNumber = - 1\<rparr>"
    by (cases "build_readout_structure stacks") (auto simp: make_readout_parser_def Let_def)
  then show ?thesis
    using foldl_max [of 0 S]
    by (simp add: head_ok_def base_ok_def idle_def parser_start_def wb_used_def list_all_iff)
qed

section \<open>Properties\<close>



end
