(* ===== verification/Readout_Buffer.thy ===== *)
theory Readout_Buffer
  imports Mvlc_Buffers
begin

text \<open>
  \<open>ReadoutBuffer\<close> of \<open>readout_buffer.h\<close>: a growing byte buffer of which the
  first \<open>m_used\<close> bytes are in use. Words are pushed and overwritten in the
  byte order of a little-endian host. The lemmas relate the buffer to the list
  of the words it holds.
\<close>

section \<open>The buffer\<close>

record ReadoutBuffer =
  rb_type :: int
  rb_number :: nat
  rb_buffer :: "u8 list"
  rb_used :: nat

fun ConnectionType_code :: "ConnectionType \<Rightarrow> int" where
  "ConnectionType_code USB = 0"
| "ConnectionType_code ETH = 1"

definition ReadoutBuffer_init :: "nat \<Rightarrow> ReadoutBuffer" where
  "ReadoutBuffer_init capacity =
     \<lparr>rb_type = ConnectionType_code ETH, rb_number = 0, rb_buffer = replicate capacity 0, rb_used = 0\<rparr>"

definition setType :: "ConnectionType \<Rightarrow> ReadoutBuffer \<Rightarrow> ReadoutBuffer" where
  "setType t rb = rb\<lparr>rb_type := ConnectionType_code t\<rparr>"

definition setBufferNumber :: "nat \<Rightarrow> ReadoutBuffer \<Rightarrow> ReadoutBuffer" where
  "setBufferNumber n rb = rb\<lparr>rb_number := n\<rparr>"

definition rb_capacity :: "ReadoutBuffer \<Rightarrow> nat" where
  "rb_capacity rb = length (rb_buffer rb)"

definition rb_free :: "ReadoutBuffer \<Rightarrow> nat" where
  "rb_free rb = rb_capacity rb - rb_used rb"

definition rb_empty :: "ReadoutBuffer \<Rightarrow> bool" where
  "rb_empty rb \<longleftrightarrow> rb_used rb = 0"

definition ensureFreeSpace :: "nat \<Rightarrow> ReadoutBuffer \<Rightarrow> ReadoutBuffer" where
  "ensureFreeSpace freeSpace rb =
     (if rb_free rb < freeSpace
      then rb\<lparr>rb_buffer := take (rb_used rb + freeSpace) (rb_buffer rb) @
                replicate (rb_used rb + freeSpace - rb_capacity rb) 0\<rparr>
      else rb)"

definition rb_clear :: "ReadoutBuffer \<Rightarrow> ReadoutBuffer" where
  "rb_clear rb = rb\<lparr>rb_used := 0\<rparr>"

definition rb_use :: "nat \<Rightarrow> ReadoutBuffer \<Rightarrow> ReadoutBuffer result" where
  "rb_use bytes rb =
     (if rb_capacity rb < rb_used rb + bytes then Inl AssertionFailure
      else Inr (rb\<lparr>rb_used := rb_used rb + bytes\<rparr>))"

definition setUsed :: "nat \<Rightarrow> ReadoutBuffer \<Rightarrow> ReadoutBuffer result" where
  "setUsed bytes rb =
     (if rb_capacity rb < bytes then Inl AssertionFailure else Inr (rb\<lparr>rb_used := bytes\<rparr>))"

definition viewU8 :: "ReadoutBuffer \<Rightarrow> u8 list" where
  "viewU8 rb = take (rb_used rb) (rb_buffer rb)"

fun words_of_bytes :: "u8 list \<Rightarrow> u32 list" where
  "words_of_bytes (b0 # b1 # b2 # b3 # bs) = read_u32 [b0, b1, b2, b3] # words_of_bytes bs"
| "words_of_bytes _ = []"

definition viewU32 :: "ReadoutBuffer \<Rightarrow> u32 list" where
  "viewU32 rb = words_of_bytes (viewU8 rb)"

text \<open>Overwriting part of the memory: \<open>std::copy\<close> into the buffer.\<close>

definition overwrite :: "nat \<Rightarrow> 'a list \<Rightarrow> 'a list \<Rightarrow> 'a list" where
  "overwrite pos xs ys = take pos ys @ xs @ drop (pos + length xs) ys"

definition rb_push_back :: "u32 \<Rightarrow> ReadoutBuffer \<Rightarrow> ReadoutBuffer result" where
  "rb_push_back w rb =
     (let rb = ensureFreeSpace 4 rb
      in rb_use 4 (rb\<lparr>rb_buffer := overwrite (rb_used rb) (bytes_of_u32 w) (rb_buffer rb)\<rparr>))"

definition rb_consume :: "nat \<Rightarrow> ReadoutBuffer \<Rightarrow> ReadoutBuffer result" where
  "rb_consume bytes rb =
     (if rb_used rb < bytes then Inl AssertionFailure
      else let n = rb_used rb - bytes
        in Inr (rb\<lparr>rb_used := n,
                   rb_buffer := overwrite 0 (take n (drop bytes (rb_buffer rb))) (rb_buffer rb)\<rparr>))"

text \<open>Reading and writing the word at a byte offset through a cast pointer.\<close>

definition load_u32 :: "nat \<Rightarrow> ReadoutBuffer \<Rightarrow> u32" where
  "load_u32 offset rb = read_u32 (drop offset (rb_buffer rb))"

definition store_u32 :: "nat \<Rightarrow> u32 \<Rightarrow> ReadoutBuffer \<Rightarrow> ReadoutBuffer" where
  "store_u32 offset w rb = rb\<lparr>rb_buffer := overwrite offset (bytes_of_u32 w) (rb_buffer rb)\<rparr>"

section \<open>The words a buffer holds\<close>

lemma length_bytes_of_u32 [simp]: "length (bytes_of_u32 w) = 4"
  by (simp add: bytes_of_u32_def)

lemma read_bytes_of_u32: "read_u32 (bytes_of_u32 w @ bs) = w"
proof -
  have "read_u32 (bytes_of_u32 w) = w"
    unfolding bytes_of_u32_def read_u32.simps
  proof (rule u32_eqI)
    fix n :: nat assume "n < 32"
    then consider "n < 8" | "8 \<le> n" "n < 16" | "16 \<le> n" "n < 24" | "24 \<le> n" by linarith
    then show "bit (ucast (ucast w :: u8) OR push_bit 8 (ucast (ucast (drop_bit 8 w) :: u8)) OR
        push_bit 16 (ucast (ucast (drop_bit 16 w) :: u8)) OR
        push_bit 24 (ucast (ucast (drop_bit 24 w) :: u8)) :: u32) n = bit w n"
      using \<open>n < 32\<close> by cases (auto simp: bit_simps)
  qed
  then show ?thesis by (simp add: read_u32_append)
qed

lemma bytes_of_words_simps [simp]:
  "bytes_of_words [] = []" "bytes_of_words (w # ws) = bytes_of_u32 w @ bytes_of_words ws"
  "bytes_of_words (ws @ vs) = bytes_of_words ws @ bytes_of_words vs"
  "length (bytes_of_words ws) = 4 * length ws"
  by (simp_all add: bytes_of_words_def) (induction ws; simp)

lemma words_of_bytes_cons: "words_of_bytes (bytes_of_u32 w @ bs) = w # words_of_bytes bs"
  using read_bytes_of_u32 [of w "[]"] by (simp add: bytes_of_u32_def)

lemma words_of_bytes_of_words [simp]: "words_of_bytes (bytes_of_words ws) = ws"
  by (induction ws) (simp_all add: words_of_bytes_cons)

definition holds :: "ReadoutBuffer \<Rightarrow> u32 list \<Rightarrow> bool" where
  "holds rb ws \<longleftrightarrow> viewU8 rb = bytes_of_words ws \<and> rb_used rb = 4 * length ws \<and>
     rb_used rb \<le> rb_capacity rb"

lemma holds_view: "holds rb ws \<Longrightarrow> viewU32 rb = ws"
  by (simp add: holds_def viewU32_def)

lemma holds_init: "holds (ReadoutBuffer_init n) []"
  by (simp add: holds_def ReadoutBuffer_init_def viewU8_def rb_capacity_def)

lemma holds_setType [simp]: "holds (setType t rb) ws = holds rb ws"
  by (simp add: holds_def setType_def viewU8_def rb_capacity_def)

lemma holds_clear: "holds (rb_clear rb) []"
  by (simp add: holds_def rb_clear_def viewU8_def)

lemma ensureFreeSpace_holds:
  assumes "holds rb ws"
  shows "holds (ensureFreeSpace n rb) ws" "n \<le> rb_free (ensureFreeSpace n rb)"
    "rb_used (ensureFreeSpace n rb) = rb_used rb"
  using assms by (auto simp: holds_def ensureFreeSpace_def rb_free_def rb_capacity_def viewU8_def)

lemma push_back_holds:
  assumes "holds rb ws"
  shows "\<exists>rb'. rb_push_back w rb = Inr rb' \<and> holds rb' (ws @ [w]) \<and> rb_type rb' = rb_type rb \<and>
           rb_number rb' = rb_number rb"
proof -
  let ?e = "ensureFreeSpace 4 rb"
  note e = ensureFreeSpace_holds [OF assms, of 4]
  have "rb_type ?e = rb_type rb" "rb_number ?e = rb_number rb" by (simp_all add: ensureFreeSpace_def)
  with e show ?thesis
    by (auto simp: rb_push_back_def rb_use_def holds_def viewU8_def overwrite_def rb_free_def
        rb_capacity_def Let_def)
qed

lemma drop_bytes_of_words: "i < length ws \<Longrightarrow> drop (4 * i) (bytes_of_words ws) =
   bytes_of_u32 (ws ! i) @ bytes_of_words (drop (Suc i) ws)"
proof (induction ws arbitrary: i)
  case (Cons w ws)
  then show ?case by (cases i) (simp_all add: drop_append)
qed simp

lemma take_bytes_of_words: "take (4 * i) (bytes_of_words ws) = bytes_of_words (take i ws)"
proof (induction ws arbitrary: i)
  case (Cons w ws)
  then show ?case by (cases i) simp_all
qed simp

lemma load_holds:
  assumes "holds rb ws" "i < length ws"
  shows "load_u32 (4 * i) rb = ws ! i"
proof -
  have "rb_buffer rb = bytes_of_words ws @ drop (rb_used rb) (rb_buffer rb)"
    using assms(1) by (metis holds_def viewU8_def append_take_drop_id)
  then have "drop (4 * i) (rb_buffer rb) =
      drop (4 * i) (bytes_of_words ws) @ drop (4 * i - 4 * length ws) (drop (rb_used rb) (rb_buffer rb))"
    by (metis drop_append bytes_of_words_simps(4))
  then show ?thesis
    using assms(2) by (simp add: load_u32_def drop_bytes_of_words read_bytes_of_u32)
qed

lemma store_holds:
  assumes "holds rb ws" "i < length ws"
  shows "holds (store_u32 (4 * i) w rb) (ws[i := w])"
proof -
  let ?b = "rb_buffer rb"
  have u: "rb_used rb = 4 * length ws" "rb_used rb \<le> length ?b" "take (rb_used rb) ?b = bytes_of_words ws"
    using assms(1) by (auto simp: holds_def viewU8_def rb_capacity_def)
  have "4 * i + 4 \<le> rb_used rb" using assms(2) u(1) by simp
  then have "take (rb_used rb) (overwrite (4 * i) (bytes_of_u32 w) ?b) =
      take (4 * i) (take (rb_used rb) ?b) @ bytes_of_u32 w @ drop (4 * i + 4) (take (rb_used rb) ?b)"
    using u(2) by (simp add: overwrite_def min_def drop_take)
  also have "\<dots> = bytes_of_words (ws[i := w])"
    using drop_bytes_of_words [OF assms(2)] assms(2)
    unfolding u(3) upd_conv_take_nth_drop [OF assms(2)]
    by (simp add: take_bytes_of_words drop_drop [symmetric, of 4 "4 * i"] add.commute)
  finally show ?thesis
    using u assms(2) by (simp add: holds_def viewU8_def store_u32_def overwrite_def rb_capacity_def)
qed

end
