(* ===== verification/Listfile_Gen.thy ===== *)
theory Listfile_Gen
  imports Readout_Buffer Readout_Parser_Step
begin

text \<open>
  Listfile generation of \<open>mvlc_listfile_gen.cc\<close>: parsed module data is written
  back into stack frames, continuation frames and block frames, system events
  into system event frames. A failed \<open>assert\<close> is \<open>AssertionFailure\<close>. The
  lemmas describe the words that are written: the frames hold the prefix words,
  block frames and suffix words of the modules in order.
\<close>

section \<open>Frames under construction\<close>

record FrameState =
  headerOffset :: int
  wordsWritten :: u32

definition FrameState_init :: FrameState where
  "FrameState_init = \<lparr>headerOffset = - 1, wordsWritten = 0\<rparr>"

definition is_frame_open :: "FrameState \<Rightarrow> bool" where
  "is_frame_open frameState \<longleftrightarrow> 0 \<le> headerOffset frameState"

text \<open>
  \<open>*get_frame_header(frameState, dest) = f(...)\<close>: the header pointer of a
  closed frame is null.
\<close>

definition update_frame_header ::
  "(u32 \<Rightarrow> u32) \<Rightarrow> FrameState \<Rightarrow> ReadoutBuffer \<Rightarrow> ReadoutBuffer result" where
  "update_frame_header f frameState dest =
     (let offset = nat (headerOffset frameState)
      in if \<not> is_frame_open frameState then Inl UndefinedBehaviour
         else if rb_capacity dest < offset + 4 then Inl AssertionFailure
         else Inr (store_u32 offset (f (load_u32 offset dest)) dest))"

definition close_frame :: "FrameState \<Rightarrow> ReadoutBuffer \<Rightarrow> (FrameState \<times> ReadoutBuffer) result" where
  "close_frame frameState dest =
     (if \<not> is_frame_open frameState then Inl AssertionFailure
      else result_map (\<lambda>dest. (FrameState_init, dest))
        (update_frame_header
          (\<lambda>hdr. (hdr AND NOT 0x1FFF) OR (wordsWritten frameState AND 0x1FFF)) frameState dest))"

definition push_frame_header ::
  "ReadoutBuffer \<Rightarrow> u32 \<Rightarrow> (FrameState \<times> ReadoutBuffer) result" where
  "push_frame_header dest frameHeader =
     result_map (\<lambda>dest. (\<lparr>headerOffset = int (rb_used dest) - 4, wordsWritten = 0\<rparr>, dest))
       (rb_push_back frameHeader dest)"

record GenState =
  gs_dest :: ReadoutBuffer
  frameMaxWords :: u32
  gs_crateIndex :: int
  gs_eventIndex :: int
  stackFrameState :: FrameState
  blockFrameState :: FrameState

definition close_cur_stack_frame :: "GenState \<Rightarrow> GenState result" where
  "close_cur_stack_frame gs =
     result_map (\<lambda>(fs, dest). gs\<lparr>stackFrameState := fs, gs_dest := dest\<rparr>)
       (close_frame (stackFrameState gs) (gs_dest gs))"

definition close_cur_block_frame :: "GenState \<Rightarrow> GenState result" where
  "close_cur_block_frame gs =
     result_map (\<lambda>(fs, dest). gs\<lparr>blockFrameState := fs, gs_dest := dest\<rparr>)
       (close_frame (blockFrameState gs) (gs_dest gs))"

definition has_open_stack_frame :: "GenState \<Rightarrow> bool" where
  "has_open_stack_frame gs \<longleftrightarrow> is_frame_open (stackFrameState gs)"

definition has_open_block_frame :: "GenState \<Rightarrow> bool" where
  "has_open_block_frame gs \<longleftrightarrow> is_frame_open (blockFrameState gs)"

definition gen_stack_header :: "u8 \<Rightarrow> GenState \<Rightarrow> u32" where
  "gen_stack_header frameType gs =
     push_bit 24 (ucast frameType) OR push_bit 16 (word_of_int (gs_eventIndex gs + 1)) OR
     push_bit 13 (word_of_int (gs_crateIndex gs))"

definition push_stack_header :: "u8 \<Rightarrow> GenState \<Rightarrow> GenState result" where
  "push_stack_header frameType gs =
     result_map (\<lambda>(fs, dest). gs\<lparr>stackFrameState := fs, gs_dest := dest\<rparr>)
       (push_frame_header (gs_dest gs) (gen_stack_header frameType gs))"

definition push_block_header :: "GenState \<Rightarrow> GenState result" where
  "push_block_header gs =
     result_map
       (\<lambda>(fs, dest). gs\<lparr>blockFrameState := fs, gs_dest := dest,
          stackFrameState := (stackFrameState gs)\<lparr>wordsWritten := wordsWritten (stackFrameState gs) + 1\<rparr>\<rparr>)
       (push_frame_header (gs_dest gs) (push_bit 24 (ucast FT_BlockRead)))"

text \<open>\<open>*header |= frame_flags::Continue << frame_headers::FrameFlagsShift\<close>\<close>

definition set_continue :: "FrameState \<Rightarrow> GenState \<Rightarrow> GenState result" where
  "set_continue frameState gs =
     result_map (\<lambda>dest. gs\<lparr>gs_dest := dest\<rparr>)
       (update_frame_header (\<lambda>hdr. hdr OR push_bit 20 (ucast FF_Continue)) frameState (gs_dest gs))"

section \<open>The operations of the generator\<close>

definition start_new_stack_frame :: "GenState \<Rightarrow> GenState result" where
  "start_new_stack_frame gs =
     (if has_open_stack_frame gs \<or> has_open_block_frame gs then Inl AssertionFailure
      else push_stack_header FT_StackFrame gs)"

text \<open>
  \<open>continue_stack_frame\<close> and \<open>start_new_block_frame\<close> call each other. The call of
  \<open>continue_stack_frame\<close> is made without an open block frame and then does not
  call back: this is its part without a block frame.
\<close>

definition continue_stack_frame_only :: "GenState \<Rightarrow> GenState result" where
  "continue_stack_frame_only gs =
     (if \<not> has_open_stack_frame gs \<or> has_open_block_frame gs then Inl AssertionFailure
      else result_bind (set_continue (stackFrameState gs) gs) (\<lambda>gs.
           result_bind (close_cur_stack_frame gs)
             (push_stack_header FT_StackContinuation)))"

definition start_new_block_frame :: "GenState \<Rightarrow> GenState result" where
  "start_new_block_frame gs =
     (if \<not> has_open_stack_frame gs \<or> has_open_block_frame gs then Inl AssertionFailure
      else result_bind
        (if frameMaxWords gs - 1 \<le> wordsWritten (stackFrameState gs)
         then continue_stack_frame_only gs else Inr gs)
        push_block_header)"

definition continue_stack_frame :: "GenState \<Rightarrow> GenState result" where
  "continue_stack_frame gs =
     (if \<not> has_open_stack_frame gs then Inl AssertionFailure
      else if has_open_block_frame gs
      then result_bind (set_continue (blockFrameState gs) gs) (\<lambda>gs.
           result_bind (close_cur_block_frame gs) (\<lambda>gs.
           result_bind (continue_stack_frame_only gs) start_new_block_frame))
      else continue_stack_frame_only gs)"

definition continue_block_frame :: "GenState \<Rightarrow> GenState result" where
  "continue_block_frame gs =
     (if \<not> has_open_stack_frame gs \<or> \<not> has_open_block_frame gs then Inl AssertionFailure
      else result_bind (set_continue (blockFrameState gs) gs) (\<lambda>gs.
           result_bind (close_cur_block_frame gs) push_block_header))"

definition push_data_word :: "GenState \<Rightarrow> u32 \<Rightarrow> GenState result" where
  "push_data_word gs dataWord =
     (if \<not> has_open_stack_frame gs \<or> \<not> wordsWritten (stackFrameState gs) < frameMaxWords gs \<or>
         (has_open_block_frame gs \<and> \<not> wordsWritten (blockFrameState gs) < frameMaxWords gs)
      then Inl AssertionFailure
      else result_map
        (\<lambda>dest. gs\<lparr>gs_dest := dest,
           blockFrameState :=
             (if has_open_block_frame gs
              then (blockFrameState gs)\<lparr>wordsWritten := wordsWritten (blockFrameState gs) + 1\<rparr>
              else blockFrameState gs),
           stackFrameState :=
             (stackFrameState gs)\<lparr>wordsWritten := wordsWritten (stackFrameState gs) + 1\<rparr>\<rparr>)
        (rb_push_back dataWord (gs_dest gs)))"

definition write_non_block_word :: "u32 \<Rightarrow> GenState \<Rightarrow> GenState result" where
  "write_non_block_word w gs =
     (if has_open_block_frame gs then Inl AssertionFailure
      else result_bind
        (if \<not> has_open_stack_frame gs then start_new_stack_frame gs
         else if frameMaxWords gs \<le> wordsWritten (stackFrameState gs) then continue_stack_frame gs
         else Inr gs)
        (\<lambda>gs. push_data_word gs w))"

definition write_block_word :: "u32 \<Rightarrow> GenState \<Rightarrow> GenState result" where
  "write_block_word w gs =
     result_bind
       (if \<not> has_open_stack_frame gs
        then (if has_open_block_frame gs then Inl AssertionFailure else start_new_stack_frame gs)
        else if frameMaxWords gs \<le> wordsWritten (stackFrameState gs) then continue_stack_frame gs
        else Inr gs) (\<lambda>gs.
     result_bind
       (if \<not> has_open_block_frame gs then start_new_block_frame gs
        else if frameMaxWords gs \<le> wordsWritten (blockFrameState gs) then continue_block_frame gs
        else Inr gs) (\<lambda>gs. push_data_word gs w))"

definition write_module_data :: "ModuleData \<Rightarrow> GenState \<Rightarrow> GenState result" where
  "write_module_data moduleData gs =
     (if \<not> size_consistency_check moduleData then Inl AssertionFailure
      else result_bind (result_foldM write_non_block_word (prefix_view moduleData) gs) (\<lambda>gs.
           result_bind
             (if md_hasDynamic moduleData
              then result_bind (start_new_block_frame gs) (\<lambda>gs.
                   result_bind (result_foldM write_block_word (dynamic_view moduleData) gs)
                     close_cur_block_frame)
              else Inr gs) (\<lambda>gs.
           result_bind (result_foldM write_non_block_word (suffix_view moduleData) gs) (\<lambda>gs.
           if has_open_block_frame gs then Inl AssertionFailure else Inr gs))))"

text \<open>The preconditions are asserted; the early return behind them cannot be reached.\<close>

definition GenState_of :: "ReadoutBuffer \<Rightarrow> int \<Rightarrow> int \<Rightarrow> u32 \<Rightarrow> GenState" where
  "GenState_of dest crateIndex evIndex maxWords =
     \<lparr>gs_dest = setType USB dest, frameMaxWords = maxWords, gs_crateIndex = crateIndex,
      gs_eventIndex = evIndex, stackFrameState = FrameState_init, blockFrameState = FrameState_init\<rparr>"

definition close_open_stack_frame :: "GenState \<Rightarrow> ReadoutBuffer result" where
  "close_open_stack_frame gs =
     result_map gs_dest (if has_open_stack_frame gs then close_cur_stack_frame gs else Inr gs)"

definition write_event_data ::
  "ReadoutBuffer \<Rightarrow> int \<Rightarrow> int \<Rightarrow> ModuleData list \<Rightarrow> u32 \<Rightarrow> ReadoutBuffer result" where
  "write_event_data dest crateIndex evIndex moduleDataList maxWords =
     (if moduleDataList = [] \<or> \<not> 1 < maxWords \<or> 7 < crateIndex \<or> 15 < evIndex + 1
      then Inl AssertionFailure
      else result_bind (start_new_stack_frame (GenState_of dest crateIndex evIndex maxWords)) (\<lambda>gs.
           result_bind (result_foldM write_module_data moduleDataList gs) (\<lambda>gs.
           if has_open_block_frame gs then Inl AssertionFailure else close_open_stack_frame gs)))"

definition write_event_data_raw ::
  "ReadoutBuffer \<Rightarrow> int \<Rightarrow> int \<Rightarrow> u32 list \<Rightarrow> u32 \<Rightarrow> ReadoutBuffer result" where
  "write_event_data_raw dest crateIndex evIndex data maxWords =
     (if \<not> 1 < maxWords \<or> 7 < crateIndex \<or> 15 < evIndex + 1 then Inl AssertionFailure
      else result_bind (start_new_stack_frame (GenState_of dest crateIndex evIndex maxWords)) (\<lambda>gs.
           result_bind (result_foldM (\<lambda>w gs. push_data_word gs w) data gs) close_open_stack_frame))"

section \<open>System events\<close>

text \<open>
  The two nested loops write the words one by one and start a new frame when
  the current one is full and there is another word.
\<close>

definition system_frame_header :: "int \<Rightarrow> u32 \<Rightarrow> u32" where
  "system_frame_header crateIndex systemEventHeader =
     systemEventHeader OR push_bit 20 (word_of_int crateIndex)"

definition write_system_word ::
  "u32 \<Rightarrow> u32 \<Rightarrow> u32 \<Rightarrow> FrameState \<times> ReadoutBuffer \<Rightarrow> (FrameState \<times> ReadoutBuffer) result" where
  "write_system_word header maxWords w st =
     result_bind
       (case st of (fs, dest) \<Rightarrow>
        if maxWords \<le> wordsWritten fs
        then result_bind (update_frame_header (\<lambda>hdr. hdr OR push_bit 23 1) fs dest) (\<lambda>dest.
             result_bind (close_frame fs dest) (\<lambda>(fs, dest). push_frame_header dest header))
        else Inr (fs, dest))
       (\<lambda>(fs, dest). result_map (\<lambda>dest. (fs\<lparr>wordsWritten := wordsWritten fs + 1\<rparr>, dest))
          (rb_push_back w dest))"

definition write_system_event ::
  "ReadoutBuffer \<Rightarrow> int \<Rightarrow> u32 list \<Rightarrow> u32 \<Rightarrow> ReadoutBuffer result" where
  "write_system_event dest crateIndex systemEvent maxWords =
     (case systemEvent of
        [] \<Rightarrow> Inl UndefinedBehaviour
      | hdr # ws \<Rightarrow>
        if \<not> 1 < maxWords \<or> \<not> crateIndex < 7 \<or> get_frame_type hdr \<noteq> FT_SystemEvent
        then Inl AssertionFailure
        else let header = system_frame_header crateIndex hdr
          in result_bind (push_frame_header dest header) (\<lambda>st.
             result_bind (result_foldM (write_system_word header maxWords) ws st) (\<lambda>(fs, dest).
             result_map snd (close_frame fs dest))))"

section \<open>Specification: frames of segments\<close>

text \<open>
  The contents of a stack frame: single words and block frames, a block frame
  with its \<open>Continue\<close> flag.
\<close>

datatype segment = Single u32 | BlockFrame bool "u32 list"

definition frame_header :: "u8 \<Rightarrow> bool \<Rightarrow> nat \<Rightarrow> nat \<Rightarrow> nat \<Rightarrow> u32" where
  "frame_header type cont stack ctrl len =
     push_bit 24 (ucast type) OR push_bit 23 (of_bool cont) OR push_bit 16 (of_nat stack) OR
     push_bit 13 (of_nat ctrl) OR of_nat len"

fun segment_words :: "segment \<Rightarrow> u32 list" where
  "segment_words (Single w) = [w]"
| "segment_words (BlockFrame cont ws) = frame_header FT_BlockRead cont 0 0 (length ws) # ws"

definition segments_words :: "segment list \<Rightarrow> u32 list" where
  "segments_words segs = concat (map segment_words segs)"

abbreviation seg_len :: "segment list \<Rightarrow> nat" where
  "seg_len segs \<equiv> length (segments_words segs)"

text \<open>The frame at position \<open>i\<close> of an event.\<close>

definition stack_frame_words :: "nat \<Rightarrow> nat \<Rightarrow> nat \<Rightarrow> bool \<Rightarrow> segment list \<Rightarrow> u32 list" where
  "stack_frame_words crate ev i cont segs =
     frame_header (if i = 0 then FT_StackFrame else FT_StackContinuation) cont (ev + 1) crate
       (seg_len segs) # segments_words segs"

definition closed_words :: "nat \<Rightarrow> nat \<Rightarrow> segment list list \<Rightarrow> u32 list" where
  "closed_words crate ev fs =
     concat (map (\<lambda>i. stack_frame_words crate ev i True (fs ! i)) [0..<length fs])"

definition event_words :: "nat \<Rightarrow> nat \<Rightarrow> segment list list \<Rightarrow> segment list \<Rightarrow> u32 list" where
  "event_words crate ev fs cur = closed_words crate ev fs @ stack_frame_words crate ev (length fs) False cur"

text \<open>The frames of a system event.\<close>

definition system_frame :: "u32 \<Rightarrow> bool \<Rightarrow> u32 list \<Rightarrow> u32 list" where
  "system_frame header cont ws =
     (((if cont then header OR push_bit 23 1 else header) AND NOT 0x1FFF) OR
       (of_nat (length ws) AND 0x1FFF)) # ws"

function system_frames :: "u32 \<Rightarrow> nat \<Rightarrow> u32 list \<Rightarrow> u32 list list" where
  "system_frames header n ws =
     (if n = 0 \<or> length ws \<le> n then [system_frame header False ws]
      else system_frame header True (take n ws) # system_frames header n (drop n ws))"
  by pat_completeness auto
termination
  by (relation "measure (\<lambda>(header, n, ws). length ws)") auto

declare system_frames.simps [simp del]

text \<open>The segments of a module.\<close>

definition block_segments :: "u32 list \<Rightarrow> segment list \<Rightarrow> bool" where
  "block_segments dyn segs \<longleftrightarrow>
     (\<exists>parts final. segs = map (BlockFrame True) parts @ [BlockFrame False final] \<and>
        concat parts @ final = dyn)"

definition module_segments :: "ModuleData \<Rightarrow> segment list \<Rightarrow> bool" where
  "module_segments md segs \<longleftrightarrow>
     (\<exists>blocks. segs = map Single (prefix_view md) @ blocks @ map Single (suffix_view md) \<and>
        (if md_hasDynamic md then block_segments (dynamic_view md) blocks else blocks = []))"

lemma segments_words_simps [simp]:
  "segments_words [] = []" "segments_words (x # xs) = segment_words x @ segments_words xs"
  "segments_words (xs @ ys) = segments_words xs @ segments_words ys"
  by (simp_all add: segments_words_def)

lemma segments_words_Single [simp]: "segments_words (map Single ws) = ws"
  by (induction ws) simp_all

lemma closed_words_snoc [simp]:
  "closed_words crate ev [] = []"
  "closed_words crate ev (fs @ [f]) =
     closed_words crate ev fs @ stack_frame_words crate ev (length fs) True f"
proof -
  have "map (\<lambda>i. stack_frame_words crate ev i True ((fs @ [f]) ! i)) [0..<length fs] =
      map (\<lambda>i. stack_frame_words crate ev i True (fs ! i)) [0..<length fs]"
    by (rule map_cong) (simp_all add: nth_append)
  note eq = arg_cong [OF this, of concat]
  show "closed_words crate ev (fs @ [f]) =
     closed_words crate ev fs @ stack_frame_words crate ev (length fs) True f"
    unfolding closed_words_def using eq by simp
qed (simp add: closed_words_def)

section \<open>Header arithmetic\<close>

lemma header_set_length:
  assumes "len < 2 ^ 13"
  shows "(frame_header type cont stack ctrl 0 AND NOT 0x1FFF) OR (of_nat len AND 0x1FFF) =
         frame_header type cont stack ctrl len"
proof (rule u32_eqI, goal_cases)
  case (1 n)
  have tb: "take_bit 13 (of_nat len :: u32) = of_nat len"
    using assms by (intro take_bit_word_self) (simp add: take_bit_nat_eq_self unat_of_nat)
  then have len: "(of_nat len :: u32) AND 0x1FFF = of_nat len" by (simp add: mask_simps)
  have high: "\<not> bit (of_nat len :: u32) n" if "13 \<le> n"
    using tb that by (metis bit_take_bit_iff not_less)
  have "bit (0x1FFF :: u32) n \<longleftrightarrow> n < 13"
    using 1 bit_mask_iff [of 13 n, where 'a = u32] by (simp add: mask_eq_exp_minus_1)
  then have mask: "bit (NOT (0x1FFF :: u32)) n \<longleftrightarrow> 13 \<le> n"
    using 1 by (simp only: bit_not_iff) (auto simp: possible_bit_word)
  show ?case
    unfolding len frame_header_def bit_or_iff bit_and_iff mask using 1 high
    by (auto simp: bit_simps)
qed

lemma header_set_continue:
  "frame_header type False stack ctrl 0 OR push_bit 20 (ucast (FF_Continue)) =
   frame_header type True stack ctrl 0"
  by (simp add: frame_header_def or.assoc or.commute or.left_commute)

lemmas header_continue_simp = header_set_continue [simplified]

lemma gen_stack_header_eq:
  assumes "gs_crateIndex gs = int crate" "gs_eventIndex gs = int ev"
  shows "gen_stack_header type gs = frame_header type False (ev + 1) crate 0"
  using assms by (simp add: gen_stack_header_def frame_header_def add.commute)

lemma block_header_eq: "push_bit 24 (ucast (FT_BlockRead)) = frame_header FT_BlockRead False 0 0 0"
  by (simp add: frame_header_def)

section \<open>The generator on word lists\<close>

lemma update_frame_header_holds:
  assumes "holds dest ws" "headerOffset fs = int (4 * i)" "i < length ws"
  shows "\<exists>dest'. update_frame_header f fs dest = Inr dest' \<and> holds dest' (ws[i := f (ws ! i)])"
proof -
  have "4 * i + 4 \<le> rb_capacity dest" using assms(1,3) by (simp add: holds_def)
  then show ?thesis
    using assms load_holds [OF assms(1,3)] store_holds [OF assms(1,3), of "f (ws ! i)"]
      nat_int [of "4 * i"]
    by (simp del: nat_int add: update_frame_header_def is_frame_open_def Let_def)
qed

lemma close_frame_holds:
  assumes "holds dest ws" "headerOffset fs = int (4 * i)" "i < length ws"
    and "ws ! i = frame_header t c s k 0" "wordsWritten fs = of_nat n" "n < 2 ^ 13"
  shows "\<exists>dest'. close_frame fs dest = Inr (FrameState_init, dest') \<and>
           holds dest' (ws[i := frame_header t c s k n])"
  using update_frame_header_holds [OF assms(1-3),
      of "\<lambda>hdr. (hdr AND NOT 0x1FFF) OR (wordsWritten fs AND 0x1FFF)"]
    header_set_length [OF assms(6), of t c s k] assms(2,4,5)
  by (auto simp: close_frame_def is_frame_open_def)

lemma push_frame_header_holds:
  assumes "holds dest ws"
  shows "\<exists>dest'. push_frame_header dest h =
           Inr (\<lparr>headerOffset = int (4 * length ws), wordsWritten = 0\<rparr>, dest') \<and> holds dest' (ws @ [h])"
  using push_back_holds [OF assms, of h] by (auto simp: push_frame_header_def holds_def)

text \<open>
  The state of the generator: \<open>fs\<close> are the finished frames of the event, \<open>cur\<close>
  the finished segments of the current frame and \<open>blk\<close> the words of the open
  block frame.
\<close>

definition open_block_words :: "u32 list option \<Rightarrow> u32 list" where
  "open_block_words blk =
     (case blk of None \<Rightarrow> [] | Some ws \<Rightarrow> frame_header FT_BlockRead False 0 0 0 # ws)"

definition open_frame_header :: "nat \<Rightarrow> nat \<Rightarrow> segment list list \<Rightarrow> bool \<Rightarrow> u32" where
  "open_frame_header crate ev fs cont =
     frame_header (if fs = [] then FT_StackFrame else FT_StackContinuation) cont (ev + 1) crate 0"

definition gen_rep :: "u32 list \<Rightarrow> nat \<Rightarrow> nat \<Rightarrow> u32 \<Rightarrow> segment list list \<Rightarrow> segment list \<Rightarrow>
    u32 list option \<Rightarrow> GenState \<Rightarrow> bool" where
  "gen_rep W crate ev maxWords fs cur blk gs \<longleftrightarrow>
     frameMaxWords gs = maxWords \<and> gs_crateIndex gs = int crate \<and> gs_eventIndex gs = int ev \<and>
     1 < unat maxWords \<and> unat maxWords < 2 ^ 13 \<and>
     holds (gs_dest gs) (W @ closed_words crate ev fs @ [open_frame_header crate ev fs False] @
       segments_words cur @ open_block_words blk) \<and>
     stackFrameState gs =
       \<lparr>headerOffset = int (4 * (length W + length (closed_words crate ev fs))),
        wordsWritten = of_nat (seg_len cur + length (open_block_words blk))\<rparr> \<and>
     blockFrameState gs =
       (case blk of None \<Rightarrow> FrameState_init
        | Some ws \<Rightarrow> \<lparr>headerOffset = int (4 * (length W + length (closed_words crate ev fs) + 1 + seg_len cur)),
                      wordsWritten = of_nat (length ws)\<rparr>) \<and>
     seg_len cur + length (open_block_words blk) \<le> unat maxWords \<and>
     (\<forall>f \<in> set fs. f \<noteq> [] \<and> seg_len f \<le> unat maxWords)"

lemma open_block_words_simps [simp]:
  "open_block_words None = []"
  "open_block_words (Some ws) = frame_header FT_BlockRead False 0 0 0 # ws"
  by (simp_all add: open_block_words_def)

lemma gen_rep_open:
  assumes "gen_rep W crate ev maxWords fs cur blk gs"
  shows "has_open_stack_frame gs" "has_open_block_frame gs \<longleftrightarrow> blk \<noteq> None"
    "unat (wordsWritten (stackFrameState gs)) = seg_len cur + length (open_block_words blk)"
    "frameMaxWords gs = maxWords"
proof -
  have "seg_len cur + length (open_block_words blk) < 2 ^ 32"
    using assms by (auto simp: gen_rep_def)
  then show "unat (wordsWritten (stackFrameState gs)) = seg_len cur + length (open_block_words blk)"
    using assms by (simp add: gen_rep_def unat_of_nat take_bit_nat_eq_self del: of_nat_add)
qed (use assms in \<open>auto simp: gen_rep_def has_open_stack_frame_def has_open_block_frame_def
    is_frame_open_def FrameState_init_def split: option.splits\<close>)

text \<open>Changing a header inside of the buffer.\<close>

lemma set_continue_words:
  assumes "holds (gs_dest gs) (A @ [frame_header t False s k 0] @ X)" "headerOffset fs = int (4 * length A)"
  shows "\<exists>dest. set_continue fs gs = Inr (gs\<lparr>gs_dest := dest\<rparr>) \<and>
     holds dest (A @ [frame_header t True s k 0] @ X)"
  using update_frame_header_holds [OF assms, of "\<lambda>hdr. hdr OR push_bit 20 (ucast (FF_Continue))"]
  by (auto simp: set_continue_def list_update_append nth_append header_continue_simp)

lemma close_frame_words:
  assumes "holds dest (A @ [frame_header t c s k 0] @ X)"
    and "fs = \<lparr>headerOffset = int (4 * length A), wordsWritten = of_nat n\<rparr>" "n < 2 ^ 13"
  shows "\<exists>dest'. close_frame fs dest = Inr (FrameState_init, dest') \<and>
     holds dest' (A @ [frame_header t c s k n] @ X)"
  using close_frame_holds [OF assms(1), of fs "length A" t c s k n] assms(2,3)
  by (auto simp: nth_append list_update_append)

lemma stack_frame_words_open:
  "stack_frame_words crate ev (length fs) cont segs =
   [frame_header (if fs = [] then FT_StackFrame else FT_StackContinuation) cont (ev + 1) crate (seg_len segs)] @
   segments_words segs"
  by (simp add: stack_frame_words_def)

lemma continue_only_rep:
  assumes rep: "gen_rep W crate ev maxWords fs cur None gs" and "cur \<noteq> []"
  shows "\<exists>gs'. continue_stack_frame_only gs = Inr gs' \<and> gen_rep W crate ev maxWords (fs @ [cur]) [] None gs'"
proof -
  let ?A = "W @ closed_words crate ev fs"
  let ?t = "if fs = [] then FT_StackFrame else FT_StackContinuation"
  let ?X = "segments_words cur"
  have h: "holds (gs_dest gs) (?A @ [frame_header ?t False (ev + 1) crate 0] @ ?X)"
    and off: "headerOffset (stackFrameState gs) = int (4 * length ?A)"
    and fs: "stackFrameState gs = \<lparr>headerOffset = int (4 * length ?A), wordsWritten = of_nat (length ?X)\<rparr>"
    and len: "length ?X < 2 ^ 13"
    using rep by (auto simp: gen_rep_def open_frame_header_def)
  obtain d1 where d1: "set_continue (stackFrameState gs) gs = Inr (gs\<lparr>gs_dest := d1\<rparr>)"
    "holds d1 (?A @ [frame_header ?t True (ev + 1) crate 0] @ ?X)"
    using set_continue_words [OF h off] by blast
  obtain d2 where d2: "close_frame (stackFrameState gs) d1 = Inr (FrameState_init, d2)"
    "holds d2 (?A @ [frame_header ?t True (ev + 1) crate (length ?X)] @ ?X)"
    using close_frame_words [OF d1(2) fs len] by blast
  then have "holds d2 (W @ closed_words crate ev (fs @ [cur]))"
    by (simp add: stack_frame_words_open)
  then obtain d3 where d3: "push_frame_header d2 (frame_header FT_StackContinuation False (ev + 1) crate 0) =
      Inr (\<lparr>headerOffset = int (4 * length (W @ closed_words crate ev (fs @ [cur]))), wordsWritten = 0\<rparr>, d3)"
    "holds d3 ((W @ closed_words crate ev (fs @ [cur])) @ [frame_header FT_StackContinuation False (ev + 1) crate 0])"
    using push_frame_header_holds by blast
  let ?gs' = "gs\<lparr>gs_dest := d3, stackFrameState :=
      \<lparr>headerOffset = int (4 * length (W @ closed_words crate ev (fs @ [cur]))), wordsWritten = 0\<rparr>\<rparr>"
  have "continue_stack_frame_only gs = Inr ?gs'"
    using gen_rep_open(1,2) [OF rep] d1(1) d2(1) d3(1) rep
    by (simp add: continue_stack_frame_only_def close_cur_stack_frame_def push_stack_header_def
        gen_stack_header_eq [of _ crate ev] gen_rep_def)
  moreover have "gen_rep W crate ev maxWords (fs @ [cur]) [] None ?gs'"
    using rep d3(2) \<open>cur \<noteq> []\<close> by (simp add: gen_rep_def open_frame_header_def)
  ultimately show ?thesis by blast
qed

lemma push_block_header_rep:
  assumes rep: "gen_rep W crate ev maxWords fs cur None gs" and "seg_len cur < unat maxWords"
  shows "\<exists>gs'. push_block_header gs = Inr gs' \<and> gen_rep W crate ev maxWords fs cur (Some []) gs'"
proof -
  let ?ws = "W @ closed_words crate ev fs @ [open_frame_header crate ev fs False] @ segments_words cur"
  have "holds (gs_dest gs) ?ws" using rep by (simp add: gen_rep_def)
  then obtain d where d: "push_frame_header (gs_dest gs) (frame_header FT_BlockRead False 0 0 0) =
      Inr (\<lparr>headerOffset = int (4 * length ?ws), wordsWritten = 0\<rparr>, d)"
    "holds d (?ws @ [frame_header FT_BlockRead False 0 0 0])"
    using push_frame_header_holds by blast
  let ?gs' = "gs\<lparr>blockFrameState := \<lparr>headerOffset = int (4 * length ?ws), wordsWritten = 0\<rparr>, gs_dest := d,
      stackFrameState := (stackFrameState gs)\<lparr>wordsWritten := wordsWritten (stackFrameState gs) + 1\<rparr>\<rparr>"
  have "push_block_header gs = Inr ?gs'"
    unfolding push_block_header_def block_header_eq d(1) by simp
  moreover have "stackFrameState ?gs' =
      \<lparr>headerOffset = int (4 * (length W + length (closed_words crate ev fs))), wordsWritten = of_nat (seg_len cur + 1)\<rparr>"
    using rep by (simp add: gen_rep_def add.commute)
  then have "gen_rep W crate ev maxWords fs cur (Some []) ?gs'"
    unfolding gen_rep_def using rep assms(2) d(2) by (simp add: gen_rep_def)
  ultimately show ?thesis by blast
qed

lemma start_block_rep:
  assumes rep: "gen_rep W crate ev maxWords fs cur None gs"
  shows "\<exists>gs' fs' cur'. start_new_block_frame gs = Inr gs' \<and>
     gen_rep W crate ev maxWords fs' cur' (Some []) gs' \<and> concat (fs' @ [cur']) = concat (fs @ [cur]) \<and>
     seg_len cur' + 1 < unat maxWords"
proof -
  have big: "1 < unat maxWords" using rep by (simp add: gen_rep_def)
  then have one: "unat (maxWords - 1) = unat maxWords - 1"
    by (simp add: unat_sub [of 1 maxWords] word_le_nat_alt)
  show ?thesis
  proof (cases "maxWords - 1 \<le> wordsWritten (stackFrameState gs)")
    case True
    then have "unat maxWords - 1 \<le> seg_len cur"
      using gen_rep_open(3) [OF rep] one by (simp add: word_le_nat_alt)
    with big have "cur \<noteq> []" by auto
    then obtain g1 where g1: "continue_stack_frame_only gs = Inr g1"
      "gen_rep W crate ev maxWords (fs @ [cur]) [] None g1"
      using continue_only_rep [OF rep] by blast
    obtain g2 where g2: "push_block_header g1 = Inr g2" "gen_rep W crate ev maxWords (fs @ [cur]) [] (Some []) g2"
      using push_block_header_rep [OF g1(2)] big by auto
    have "start_new_block_frame gs = Inr g2"
      using gen_rep_open [OF rep] True g1(1) g2(1) by (simp add: start_new_block_frame_def)
    with g2(2) big show ?thesis by (intro exI [of _ g2] exI [of _ "fs @ [cur]"] exI [of _ "[]"]) simp
  next
    case False
    then have small: "seg_len cur + 1 < unat maxWords"
      using gen_rep_open(3) [OF rep] one big by (simp add: word_le_nat_alt)
    then obtain g2 where g2: "push_block_header gs = Inr g2" "gen_rep W crate ev maxWords fs cur (Some []) g2"
      using push_block_header_rep [OF rep] by auto
    have "start_new_block_frame gs = Inr g2"
      using gen_rep_open [OF rep] False g2(1) by (simp add: start_new_block_frame_def)
    with g2(2) small show ?thesis by blast
  qed
qed

lemma close_block_rep:
  assumes dest: "holds (gs_dest gs) (W @ closed_words crate ev fs @ [open_frame_header crate ev fs False] @
       segments_words cur @ [frame_header FT_BlockRead c 0 0 0] @ ws)"
    and rep: "gen_rep W crate ev maxWords fs cur (Some ws) g0"
    and gs: "gs = g0\<lparr>gs_dest := gs_dest gs\<rparr>"
  shows "\<exists>gs'. close_cur_block_frame gs = Inr gs' \<and>
     gen_rep W crate ev maxWords fs (cur @ [BlockFrame c ws]) None gs'"
proof -
  let ?A = "W @ closed_words crate ev fs @ [open_frame_header crate ev fs False] @ segments_words cur"
  have len: "length ws < 2 ^ 13" using rep by (simp add: gen_rep_def)
  have blk: "blockFrameState gs = \<lparr>headerOffset = int (4 * length ?A), wordsWritten = of_nat (length ws)\<rparr>"
    using rep by (subst gs) (simp add: gen_rep_def)
  have "holds (gs_dest gs) (?A @ [frame_header FT_BlockRead c 0 0 0] @ ws)" using dest by simp
  from close_frame_words [OF this blk len] obtain d where d: "close_frame (blockFrameState gs) (gs_dest gs) =
      Inr (FrameState_init, d)" "holds d (?A @ [frame_header FT_BlockRead c 0 0 (length ws)] @ ws)"
    by blast
  let ?gs' = "gs\<lparr>blockFrameState := FrameState_init, gs_dest := d\<rparr>"
  have "close_cur_block_frame gs = Inr ?gs'" by (simp add: close_cur_block_frame_def d(1))
  moreover have "gen_rep W crate ev maxWords fs (cur @ [BlockFrame c ws]) None ?gs'"
    using rep d(2) by (subst gs) (simp add: gen_rep_def)
  ultimately show ?thesis by blast
qed

lemma close_cur_block_rep:
  assumes "gen_rep W crate ev maxWords fs cur (Some ws) gs"
  shows "\<exists>gs'. close_cur_block_frame gs = Inr gs' \<and>
     gen_rep W crate ev maxWords fs (cur @ [BlockFrame False ws]) None gs'"
  using assms by (intro close_block_rep [OF _ assms]) (simp_all add: gen_rep_def)

lemma continue_block_rep:
  assumes rep: "gen_rep W crate ev maxWords fs cur (Some ws) gs"
  shows "\<exists>gs'. continue_stack_frame gs = Inr gs' \<and>
     gen_rep W crate ev maxWords (fs @ [cur @ [BlockFrame True ws]]) [] (Some []) gs'"
proof -
  let ?A = "W @ closed_words crate ev fs @ [open_frame_header crate ev fs False] @ segments_words cur"
  have h: "holds (gs_dest gs) (?A @ [frame_header FT_BlockRead False 0 0 0] @ ws)"
    and off: "headerOffset (blockFrameState gs) = int (4 * length ?A)"
    using rep by (simp_all add: gen_rep_def)
  obtain d1 where d1: "set_continue (blockFrameState gs) gs = Inr (gs\<lparr>gs_dest := d1\<rparr>)"
    "holds d1 (?A @ [frame_header FT_BlockRead True 0 0 0] @ ws)"
    using set_continue_words [OF h off] by blast
  obtain g2 where g2: "close_cur_block_frame (gs\<lparr>gs_dest := d1\<rparr>) = Inr g2"
    "gen_rep W crate ev maxWords fs (cur @ [BlockFrame True ws]) None g2"
    using close_block_rep [of "gs\<lparr>gs_dest := d1\<rparr>", OF _ rep] d1(2) by auto
  obtain g3 where g3: "continue_stack_frame_only g2 = Inr g3"
    "gen_rep W crate ev maxWords (fs @ [cur @ [BlockFrame True ws]]) [] None g3"
    using continue_only_rep [OF g2(2)] by auto
  have big: "1 < unat maxWords" using rep by (simp add: gen_rep_def)
  then have "\<not> maxWords - 1 \<le> wordsWritten (stackFrameState g3)"
    using gen_rep_open(3) [OF g3(2)] by (simp add: word_le_nat_alt unat_sub [of 1 maxWords])
  moreover obtain g4 where g4: "push_block_header g3 = Inr g4"
    "gen_rep W crate ev maxWords (fs @ [cur @ [BlockFrame True ws]]) [] (Some []) g4"
    using push_block_header_rep [OF g3(2)] big by auto
  ultimately have "start_new_block_frame g3 = Inr g4"
    using gen_rep_open [OF g3(2)] by (simp add: start_new_block_frame_def)
  then show ?thesis
    using gen_rep_open(1,2) [OF rep] d1(1) g2(1) g3(1) g4(2) by (simp add: continue_stack_frame_def)
qed

fun push_blk :: "u32 \<Rightarrow> segment list \<Rightarrow> u32 list option \<Rightarrow> segment list \<times> u32 list option" where
  "push_blk w cur None = (cur @ [Single w], None)"
| "push_blk w cur (Some ws) = (cur, Some (ws @ [w]))"

lemma push_data_rep:
  assumes rep: "gen_rep W crate ev maxWords fs cur blk gs"
    and room: "seg_len cur + length (open_block_words blk) < unat maxWords"
  shows "\<exists>gs'. push_data_word gs w = Inr gs' \<and>
     gen_rep W crate ev maxWords fs (fst (push_blk w cur blk)) (snd (push_blk w cur blk)) gs'"
proof -
  have "holds (gs_dest gs) (W @ closed_words crate ev fs @ [open_frame_header crate ev fs False] @
       segments_words cur @ open_block_words blk)"
    using rep by (simp add: gen_rep_def)
  from push_back_holds [OF this, of w] obtain d where d: "rb_push_back w (gs_dest gs) = Inr d"
    "holds d ((W @ closed_words crate ev fs @ [open_frame_header crate ev fs False] @
       segments_words cur @ open_block_words blk) @ [w])" by blast
  have stack: "wordsWritten (stackFrameState gs) < frameMaxWords gs"
    using gen_rep_open(3,4) [OF rep] room by (simp add: word_less_nat_alt)
  show ?thesis
  proof (cases blk)
    case None
    with rep d stack room gen_rep_open(1,2) [OF rep] show ?thesis
      by (auto simp: push_data_word_def gen_rep_def add.commute)
  next
    case (Some ws)
    then have "wordsWritten (blockFrameState gs) = of_nat (length ws)" "length ws < unat maxWords"
      "unat maxWords < 2 ^ 13"
      using rep room by (simp_all add: gen_rep_def)
    then have "wordsWritten (blockFrameState gs) < frameMaxWords gs"
      using gen_rep_open(4) [OF rep] by (simp add: word_less_nat_alt unat_of_nat take_bit_nat_eq_self)
    with rep d stack room Some gen_rep_open(1,2) [OF rep] show ?thesis
      by (auto simp: push_data_word_def gen_rep_def add.commute)
  qed
qed

section \<open>The segments that are written\<close>

text \<open>The generator has written the segments \<open>segs\<close> of the event so far.\<close>

definition written :: "u32 list \<Rightarrow> nat \<Rightarrow> nat \<Rightarrow> u32 \<Rightarrow> segment list \<Rightarrow> u32 list option \<Rightarrow> GenState \<Rightarrow> bool" where
  "written W crate ev maxWords segs blk gs \<longleftrightarrow>
     (\<exists>fs cur. gen_rep W crate ev maxWords fs cur blk gs \<and> concat (fs @ [cur]) = segs \<and>
        (fs = [] \<or> cur \<noteq> [] \<or> blk \<noteq> None))"

lemma write_non_block_written:
  assumes "written W crate ev maxWords segs None gs"
  shows "\<exists>gs'. write_non_block_word w gs = Inr gs' \<and> written W crate ev maxWords (segs @ [Single w]) None gs'"
proof -
  obtain fs cur where rep: "gen_rep W crate ev maxWords fs cur None gs" and segs: "concat (fs @ [cur]) = segs"
    using assms by (auto simp: written_def)
  note op = gen_rep_open [OF rep]
  have big: "1 < unat maxWords" using rep by (simp add: gen_rep_def)
  have "\<exists>g fs' cur'. (if maxWords \<le> wordsWritten (stackFrameState gs) then continue_stack_frame gs else Inr gs) = Inr g \<and>
      gen_rep W crate ev maxWords fs' cur' None g \<and> concat (fs' @ [cur']) = segs \<and> seg_len cur' < unat maxWords"
  proof (cases "maxWords \<le> wordsWritten (stackFrameState gs)")
    case True
    then have "cur \<noteq> []" using op(3) big by (auto simp: word_le_nat_alt)
    then obtain g where "continue_stack_frame_only gs = Inr g"
      "gen_rep W crate ev maxWords (fs @ [cur]) [] None g"
      using continue_only_rep [OF rep] by blast
    with True segs big op(1,2) show ?thesis
      by (intro exI [of _ g] exI [of _ "fs @ [cur]"] exI [of _ "[]"]) (simp add: continue_stack_frame_def)
  next
    case False
    then have "seg_len cur < unat maxWords" using op(3) by (simp add: word_le_nat_alt)
    with False rep segs show ?thesis
      by (intro exI [of _ gs] exI [of _ fs] exI [of _ cur]) simp
  qed
  then obtain g fs' cur' where g: "gen_rep W crate ev maxWords fs' cur' None g" "concat (fs' @ [cur']) = segs"
    "seg_len cur' < unat maxWords"
    "(if maxWords \<le> wordsWritten (stackFrameState gs) then continue_stack_frame gs else Inr gs) = Inr g"
    by blast
  from push_data_rep [OF g(1), of w] g(3) obtain gs' where
    gs': "push_data_word g w = Inr gs'" "gen_rep W crate ev maxWords fs' (cur' @ [Single w]) None gs'" by auto
  have "write_non_block_word w gs = Inr gs'"
    using op g(4) gs'(1) by (simp add: write_non_block_word_def split del: if_split)
  moreover have "written W crate ev maxWords (segs @ [Single w]) None gs'"
    unfolding written_def using gs'(2) g(2)
    by (intro exI [of _ fs'] exI [of _ "cur' @ [Single w]"]) auto
  ultimately show ?thesis by blast
qed

lemma write_non_block_fold:
  "written W crate ev maxWords segs None gs \<Longrightarrow>
   \<exists>gs'. result_foldM write_non_block_word ws gs = Inr gs' \<and>
         written W crate ev maxWords (segs @ map Single ws) None gs'"
proof (induction ws arbitrary: segs gs)
  case (Cons w ws)
  from write_non_block_written [OF Cons.prems, of w] obtain g where
    g: "write_non_block_word w gs = Inr g" "written W crate ev maxWords (segs @ [Single w]) None g" by blast
  from Cons.IH [OF g(2)] g(1) show ?case by auto
qed auto

text \<open>Block frames: those continued so far, and the words of the open one.\<close>

lemma write_block_written:
  assumes "written W crate ev maxWords (base @ map (BlockFrame True) parts) (Some bs) gs"
  shows "\<exists>gs' parts' bs'. write_block_word w gs = Inr gs' \<and>
     written W crate ev maxWords (base @ map (BlockFrame True) parts') (Some bs') gs' \<and>
     concat parts' @ bs' = concat parts @ bs @ [w]"
proof -
  obtain fs cur where rep: "gen_rep W crate ev maxWords fs cur (Some bs) gs"
    and segs: "concat (fs @ [cur]) = base @ map (BlockFrame True) parts"
    using assms by (auto simp: written_def)
  note op = gen_rep_open [OF rep]
  have big: "1 < unat maxWords" "unat maxWords < 2 ^ 13" using rep by (simp_all add: gen_rep_def)
  show ?thesis
  proof (cases "maxWords \<le> wordsWritten (stackFrameState gs)")
    case True
    obtain g where g: "continue_stack_frame gs = Inr g"
      "gen_rep W crate ev maxWords (fs @ [cur @ [BlockFrame True bs]]) [] (Some []) g"
      using continue_block_rep [OF rep] by blast
    have "wordsWritten (blockFrameState g) = 0" using g(2) by (simp add: gen_rep_def)
    then have blk: "\<not> maxWords \<le> wordsWritten (blockFrameState g)" using big by (simp add: word_le_nat_alt)
    obtain gs' where "push_data_word g w = Inr gs'"
      "gen_rep W crate ev maxWords (fs @ [cur @ [BlockFrame True bs]]) [] (Some [w]) gs'"
      using push_data_rep [OF g(2), of w] big by auto
    with True g(1) op gen_rep_open [OF g(2)] blk segs show ?thesis
      by (intro exI [of _ gs'] exI [of _ "parts @ [bs]"] exI [of _ "[w]"])
        (auto simp: write_block_word_def written_def intro!: exI [of _ "fs @ [cur @ [BlockFrame True bs]]"])
  next
    case False
    then have room: "seg_len cur + length (open_block_words (Some bs)) < unat maxWords"
      using op(3) by (simp add: word_le_nat_alt)
    have "wordsWritten (blockFrameState gs) = of_nat (length bs)" using rep by (simp add: gen_rep_def)
    then have blk: "\<not> maxWords \<le> wordsWritten (blockFrameState gs)"
      using room big by (simp add: word_le_nat_alt unat_of_nat take_bit_nat_eq_self)
    obtain gs' where "push_data_word gs w = Inr gs'" "gen_rep W crate ev maxWords fs cur (Some (bs @ [w])) gs'"
      using push_data_rep [OF rep room, of w] by auto
    with False op blk segs show ?thesis
      by (intro exI [of _ gs'] exI [of _ parts] exI [of _ "bs @ [w]"])
        (auto simp: write_block_word_def written_def)
  qed
qed

lemma write_block_fold:
  "written W crate ev maxWords (base @ map (BlockFrame True) parts) (Some bs) gs \<Longrightarrow>
   \<exists>gs' parts' bs'. result_foldM write_block_word ws gs = Inr gs' \<and>
     written W crate ev maxWords (base @ map (BlockFrame True) parts') (Some bs') gs' \<and>
     concat parts' @ bs' = concat parts @ bs @ ws"
proof (induction ws arbitrary: parts bs gs)
  case (Cons w ws)
  from write_block_written [OF Cons.prems, of w] obtain g parts1 bs1 where
    g: "write_block_word w gs = Inr g" "written W crate ev maxWords (base @ map (BlockFrame True) parts1) (Some bs1) g"
    "concat parts1 @ bs1 = concat parts @ bs @ [w]" by blast
  from Cons.IH [OF g(2)] obtain gs' parts' bs' where
    "result_foldM write_block_word ws g = Inr gs'"
    "written W crate ev maxWords (base @ map (BlockFrame True) parts') (Some bs') gs'"
    "concat parts' @ bs' = concat parts1 @ bs1 @ ws" by blast
  moreover have "concat parts1 @ bs1 @ ws = concat parts @ bs @ w # ws"
    using arg_cong [OF g(3), of "\<lambda>xs. xs @ ws"] by simp
  ultimately show ?case using g(1) by auto
qed auto

lemma write_dynamic:
  assumes "written W crate ev maxWords segs None gs"
  shows "\<exists>gs' blocks. result_bind (start_new_block_frame gs) (\<lambda>gs.
       result_bind (result_foldM write_block_word ws gs) close_cur_block_frame) = Inr gs' \<and>
     written W crate ev maxWords (segs @ blocks) None gs' \<and> block_segments ws blocks"
proof -
  obtain fs cur where rep: "gen_rep W crate ev maxWords fs cur None gs" "concat (fs @ [cur]) = segs"
    using assms by (auto simp: written_def)
  from start_block_rep [OF rep(1)] rep(2) obtain g1 where
    g1: "start_new_block_frame gs = Inr g1" "written W crate ev maxWords (segs @ map (BlockFrame True) []) (Some []) g1"
    by (auto simp: written_def)
  from write_block_fold [OF g1(2), of ws] obtain g2 parts bs where
    g2: "result_foldM write_block_word ws g1 = Inr g2"
    "written W crate ev maxWords (segs @ map (BlockFrame True) parts) (Some bs) g2" "concat parts @ bs = ws" by auto
  then obtain fs2 cur2 where r2: "gen_rep W crate ev maxWords fs2 cur2 (Some bs) g2"
    "concat (fs2 @ [cur2]) = segs @ map (BlockFrame True) parts"
    by (auto simp: written_def)
  from close_cur_block_rep [OF r2(1)] obtain g3 where g3: "close_cur_block_frame g2 = Inr g3"
    "gen_rep W crate ev maxWords fs2 (cur2 @ [BlockFrame False bs]) None g3" by blast
  have "written W crate ev maxWords (segs @ map (BlockFrame True) parts @ [BlockFrame False bs]) None g3"
    unfolding written_def using g3(2) r2(2)
    by (intro exI [of _ fs2] exI [of _ "cur2 @ [BlockFrame False bs]"]) simp
  with g1(1) g2(1,3) g3(1) show ?thesis
    by (intro exI [of _ g3] exI [of _ "map (BlockFrame True) parts @ [BlockFrame False bs]"])
      (auto simp: block_segments_def)
qed

lemma write_module_written:
  assumes "written W crate ev maxWords segs None gs" "size_consistency_check md"
  shows "\<exists>gs' ms. write_module_data md gs = Inr gs' \<and> written W crate ev maxWords (segs @ ms) None gs' \<and>
     module_segments md ms"
proof -
  from write_non_block_fold [OF assms(1), of "prefix_view md"] obtain g1 where
    g1: "result_foldM write_non_block_word (prefix_view md) gs = Inr g1"
    "written W crate ev maxWords (segs @ map Single (prefix_view md)) None g1" by blast
  have "\<exists>g2 blocks. (if md_hasDynamic md
       then result_bind (start_new_block_frame g1) (\<lambda>gs.
            result_bind (result_foldM write_block_word (dynamic_view md) gs) close_cur_block_frame)
       else Inr g1) = Inr g2 \<and>
     written W crate ev maxWords ((segs @ map Single (prefix_view md)) @ blocks) None g2 \<and>
     (if md_hasDynamic md then block_segments (dynamic_view md) blocks else blocks = [])"
    using write_dynamic [OF g1(2), of "dynamic_view md"] g1(2) by (cases "md_hasDynamic md") auto
  then obtain g2 blocks where g2: "(if md_hasDynamic md
       then result_bind (start_new_block_frame g1) (\<lambda>gs.
            result_bind (result_foldM write_block_word (dynamic_view md) gs) close_cur_block_frame)
       else Inr g1) = Inr g2"
     "written W crate ev maxWords ((segs @ map Single (prefix_view md)) @ blocks) None g2"
     "if md_hasDynamic md then block_segments (dynamic_view md) blocks else blocks = []" by blast
  from write_non_block_fold [OF g2(2), of "suffix_view md"] obtain g3 where
    g3: "result_foldM write_non_block_word (suffix_view md) g2 = Inr g3"
    "written W crate ev maxWords (((segs @ map Single (prefix_view md)) @ blocks) @ map Single (suffix_view md)) None g3"
    by blast
  then have "\<not> has_open_block_frame g3" using gen_rep_open(2) by (auto simp: written_def)
  with g1(1) g2(1) g3(1) assms(2) have "write_module_data md gs = Inr g3"
    by (simp add: write_module_data_def split del: if_split)
  with g2(3) g3(2) show ?thesis
    by (intro exI [of _ g3] exI [of _ "map Single (prefix_view md) @ blocks @ map Single (suffix_view md)"])
      (auto simp: module_segments_def)
qed

lemma write_modules_fold:
  "written W crate ev maxWords segs None gs \<Longrightarrow> list_all size_consistency_check mds \<Longrightarrow>
   \<exists>gs' mss. result_foldM write_module_data mds gs = Inr gs' \<and>
     written W crate ev maxWords (segs @ concat mss) None gs' \<and> list_all2 module_segments mds mss"
proof (induction mds arbitrary: segs gs)
  case (Cons md mds)
  from write_module_written [OF Cons.prems(1), of md] Cons.prems(2) obtain g ms where
    g: "write_module_data md gs = Inr g" "written W crate ev maxWords (segs @ ms) None g" "module_segments md ms"
    by auto
  from Cons.IH [OF g(2)] Cons.prems(2) obtain gs' mss where
    "result_foldM write_module_data mds g = Inr gs'"
    "written W crate ev maxWords ((segs @ ms) @ concat mss) None gs'" "list_all2 module_segments mds mss"
    by auto
  with g show ?case by (intro exI [of _ gs'] exI [of _ "ms # mss"]) simp
qed auto

lemma start_event_rep:
  assumes "holds dest W" "1 < unat maxWords" "unat maxWords < 2 ^ 13"
  shows "\<exists>gs. start_new_stack_frame (GenState_of dest (int crate) (int ev) maxWords) = Inr gs \<and>
     written W crate ev maxWords [] None gs"
proof -
  let ?g0 = "GenState_of dest (int crate) (int ev) maxWords"
  have "holds (setType USB dest) W" using assms(1) by simp
  from push_frame_header_holds [OF this, of "frame_header FT_StackFrame False (ev + 1) crate 0"]
  obtain d where d: "push_frame_header (setType USB dest) (frame_header FT_StackFrame False (ev + 1) crate 0) =
      Inr (\<lparr>headerOffset = int (4 * length W), wordsWritten = 0\<rparr>, d)"
    "holds d (W @ [frame_header FT_StackFrame False (ev + 1) crate 0])" by blast
  let ?gs = "?g0\<lparr>gs_dest := d, stackFrameState := \<lparr>headerOffset = int (4 * length W), wordsWritten = 0\<rparr>\<rparr>"
  have hdr: "gen_stack_header FT_StackFrame ?g0 = frame_header FT_StackFrame False (ev + 1) crate 0"
    by (rule gen_stack_header_eq) (simp_all add: GenState_of_def)
  have "start_new_stack_frame ?g0 = Inr ?gs"
    using d(1) unfolding start_new_stack_frame_def push_stack_header_def hdr
    by (simp add: GenState_of_def has_open_stack_frame_def has_open_block_frame_def is_frame_open_def
        FrameState_init_def)
  moreover have "gen_rep W crate ev maxWords [] [] None ?gs"
    using d(2) assms(2,3) by (simp add: gen_rep_def GenState_of_def open_frame_header_def)
  ultimately show ?thesis by (auto simp: written_def)
qed

lemma close_open_rep:
  assumes "gen_rep W crate ev maxWords fs cur None gs"
  shows "\<exists>d. close_open_stack_frame gs = Inr d \<and> holds d (W @ event_words crate ev fs cur)"
proof -
  let ?t = "if fs = [] then FT_StackFrame else FT_StackContinuation"
  have h: "holds (gs_dest gs) ((W @ closed_words crate ev fs) @ [frame_header ?t False (ev + 1) crate 0] @ segments_words cur)"
    and st: "stackFrameState gs = \<lparr>headerOffset = int (4 * length (W @ closed_words crate ev fs)), wordsWritten = of_nat (seg_len cur)\<rparr>"
    and len: "seg_len cur < 2 ^ 13"
    using assms by (simp_all add: gen_rep_def open_frame_header_def)
  from close_frame_words [OF h st len] gen_rep_open(1) [OF assms] show ?thesis
    by (auto simp: event_words_def stack_frame_words_open close_open_stack_frame_def close_cur_stack_frame_def)
qed

text \<open>The frames that \<open>write_event_data\<close> produces for an event.\<close>

definition event_frames :: "nat \<Rightarrow> ModuleData list \<Rightarrow> segment list list \<Rightarrow> segment list \<Rightarrow> bool" where
  "event_frames maxLen mds fs cur \<longleftrightarrow>
     (\<exists>mss. list_all2 module_segments mds mss \<and> concat (fs @ [cur]) = concat mss) \<and>
     (\<forall>f \<in> set fs. f \<noteq> [] \<and> seg_len f \<le> maxLen) \<and> seg_len cur \<le> maxLen \<and> (fs = [] \<or> cur \<noteq> [])"

lemma write_event_data_words:
  assumes "holds dest W" "1 < unat maxWords" "unat maxWords < 2 ^ 13" "mds \<noteq> []"
    and "list_all size_consistency_check mds" "crate < 8" "ev < 15"
  shows "\<exists>dest' fs cur. write_event_data dest (int crate) (int ev) mds maxWords = Inr dest' \<and>
     holds dest' (W @ event_words crate ev fs cur) \<and> event_frames (unat maxWords) mds fs cur"
proof -
  obtain g1 where g1: "start_new_stack_frame (GenState_of dest (int crate) (int ev) maxWords) = Inr g1"
    "written W crate ev maxWords [] None g1"
    using start_event_rep [OF assms(1-3)] by blast
  obtain g2 mss where g2: "result_foldM write_module_data mds g1 = Inr g2"
    "written W crate ev maxWords (concat mss) None g2" "list_all2 module_segments mds mss"
    using write_modules_fold [OF g1(2) assms(5)] by auto
  then obtain fs cur where rep: "gen_rep W crate ev maxWords fs cur None g2" "concat (fs @ [cur]) = concat mss"
    "fs = [] \<or> cur \<noteq> []"
    by (auto simp: written_def)
  from close_open_rep [OF rep(1)] obtain d where
    d: "close_open_stack_frame g2 = Inr d" "holds d (W @ event_words crate ev fs cur)" by blast
  have "1 < maxWords" using assms(2) by (simp add: word_less_nat_alt)
  with g1(1) g2(1) d(1) gen_rep_open(1,2) [OF rep(1)] assms(4,6,7)
  have "write_event_data dest (int crate) (int ev) mds maxWords = Inr d"
    by (simp add: write_event_data_def)
  moreover have "event_frames (unat maxWords) mds fs cur"
    using g2(3) rep by (auto simp: event_frames_def gen_rep_def)
  ultimately show ?thesis using d(2) by blast
qed

section \<open>System events\<close>

lemma close_system_frame:
  assumes "holds dest (W @ [h] @ cur)" "fs = \<lparr>headerOffset = int (4 * length W), wordsWritten = of_nat (length cur)\<rparr>"
  shows "\<exists>dest'. close_frame fs dest = Inr (FrameState_init, dest') \<and>
     holds dest' (W @ [(h AND NOT 0x1FFF) OR (of_nat (length cur) AND 0x1FFF)] @ cur)"
  using update_frame_header_holds [OF assms(1), of fs "length W"
      "\<lambda>hdr. (hdr AND NOT 0x1FFF) OR (of_nat (length cur) AND 0x1FFF)"] assms(2)
  by (auto simp: close_frame_def is_frame_open_def nth_append list_update_append)

lemma write_system_fold:
  assumes "holds dest (W @ [header] @ cur)"
    and "fs = \<lparr>headerOffset = int (4 * length W), wordsWritten = of_nat (length cur)\<rparr>"
    and "length cur \<le> unat maxWords" "0 < unat maxWords"
  shows "\<exists>dest'. result_bind (result_foldM (write_system_word header maxWords) ws (fs, dest))
        (\<lambda>(fs, dest). result_map snd (close_frame fs dest)) = Inr dest' \<and>
     holds dest' (W @ concat (system_frames header (unat maxWords) (cur @ ws)))"
  using assms
proof (induction ws arbitrary: W cur fs dest)
  case Nil
  then show ?case
    using close_system_frame [OF Nil(1,2)] by (auto simp: system_frames.simps system_frame_def)
next
  case (Cons w ws)
  have len: "unat (of_nat (length cur) :: u32) = length cur"
  proof -
    have "unat maxWords < 2 ^ 32" using unsigned_less [of maxWords] by simp
    then show ?thesis using Cons.prems(3) by (simp add: unat_of_nat take_bit_nat_eq_self)
  qed
  show ?case
  proof (cases "maxWords \<le> wordsWritten fs")
    case True
    then have full: "length cur = unat maxWords"
      using Cons.prems(2,3) len by (simp add: word_le_nat_alt)
    from update_frame_header_holds [OF Cons.prems(1), of fs "length W" "\<lambda>hdr. hdr OR push_bit 23 1"] Cons.prems(2)
    obtain d1 where d1: "update_frame_header (\<lambda>hdr. hdr OR push_bit 23 1) fs dest = Inr d1"
      "holds d1 (W @ [header OR push_bit 23 1] @ cur)" by (auto simp: nth_append list_update_append)
    from close_system_frame [OF d1(2) Cons.prems(2)] obtain d2 where
      d2: "close_frame fs d1 = Inr (FrameState_init, d2)" "holds d2 (W @ system_frame header True cur)"
      by (auto simp: system_frame_def)
    let ?W = "W @ system_frame header True cur"
    let ?fs = "\<lparr>headerOffset = int (4 * length ?W), wordsWritten = 0\<rparr>"
    from push_frame_header_holds [OF d2(2), of header] obtain d3 where
      d3: "push_frame_header d2 header = Inr (?fs, d3)" "holds d3 (?W @ [header])" by auto
    from push_back_holds [OF d3(2), of w] obtain d4 where d4: "rb_push_back w d3 = Inr d4" "holds d4 (?W @ [header] @ [w])"
      by auto
    have step: "write_system_word header maxWords w (fs, dest) = Inr (?fs\<lparr>wordsWritten := 1\<rparr>, d4)"
      using True d1(1) d2(1) d3(1) d4(1) by (simp add: write_system_word_def)
    have "system_frames header (unat maxWords) (cur @ w # ws) =
        system_frame header True cur # system_frames header (unat maxWords) (w # ws)"
      using full Cons.prems(4) by (subst system_frames.simps) simp
    with Cons.IH [OF d4(2), of "?fs\<lparr>wordsWritten := 1\<rparr>"] Cons.prems(4) step show ?thesis by simp
  next
    case False
    then have less: "length cur < unat maxWords" using Cons.prems(2) len by (simp add: word_le_nat_alt not_le)
    from push_back_holds [OF Cons.prems(1), of w] obtain d where
      d: "rb_push_back w dest = Inr d" "holds d (W @ [header] @ cur @ [w])" by auto
    have "write_system_word header maxWords w (fs, dest) = Inr (fs\<lparr>wordsWritten := wordsWritten fs + 1\<rparr>, d)"
      using False d(1) by (simp add: write_system_word_def)
    with Cons.IH [OF d(2), of "fs\<lparr>wordsWritten := wordsWritten fs + 1\<rparr>"] Cons.prems(2,4) less show ?thesis
      by (simp add: add.commute)
  qed
qed

lemma write_system_event_words:
  assumes "holds dest W" "1 < unat maxWords" "crate < 7" "get_frame_type hdr = FT_SystemEvent"
  shows "\<exists>dest'. write_system_event dest (int crate) (hdr # ws) maxWords = Inr dest' \<and>
     holds dest' (W @ concat (system_frames (system_frame_header (int crate) hdr) (unat maxWords) ws))"
proof -
  let ?h = "system_frame_header (int crate) hdr"
  from push_frame_header_holds [OF assms(1), of ?h] obtain d where
    d: "push_frame_header dest ?h = Inr (\<lparr>headerOffset = int (4 * length W), wordsWritten = 0\<rparr>, d)"
    "holds d (W @ [?h] @ [])" by auto
  have "1 < maxWords" using assms(2) by (simp add: word_less_nat_alt)
  with write_system_fold [OF d(2) refl, of maxWords ws] assms d(1) show ?thesis
    by (simp add: write_system_event_def Let_def)
qed

section \<open>Raw event data\<close>

lemma push_data_fold:
  assumes "gen_rep W crate ev maxWords fs cur None gs"
  shows "if seg_len cur + length data \<le> unat maxWords
     then \<exists>gs'. result_foldM (\<lambda>w gs. push_data_word gs w) data gs = Inr gs' \<and>
            gen_rep W crate ev maxWords fs (cur @ map Single data) None gs'
     else result_foldM (\<lambda>w gs. push_data_word gs w) data gs = Inl AssertionFailure"
  using assms
proof (induction data arbitrary: cur gs)
  case Nil
  then show ?case by (simp add: gen_rep_def)
next
  case (Cons w data)
  show ?case
  proof (cases "seg_len cur < unat maxWords")
    case True
    with push_data_rep [OF Cons.prems, of w] obtain gs' where
      gs': "push_data_word gs w = Inr gs'" "gen_rep W crate ev maxWords fs (cur @ [Single w]) None gs'"
      by auto
    from Cons.IH [OF gs'(2)] gs'(1) show ?thesis
      by (cases "Suc (seg_len cur + length data) \<le> unat maxWords") simp_all
  next
    case False
    then have "\<not> wordsWritten (stackFrameState gs) < frameMaxWords gs"
      using gen_rep_open(3,4) [OF Cons.prems] by (simp add: word_less_nat_alt)
    then have "push_data_word gs w = Inl AssertionFailure" by (simp add: push_data_word_def)
    with False show ?thesis by simp
  qed
qed

section \<open>Properties\<close>

text \<open>
  C18. Writing an event never fails an assertion, and its frames are well formed:
  for consistent module data, a crate and an event number within their header
  fields and a frame limit below the 13-bit length field, \<open>write_event_data\<close>
  appends one stack frame and its continuation frames to the buffer. No frame is
  longer than the limit, no continuation frame is empty, the \<open>Continue\<close> flag is
  set in all but the last of them, and their contents are the prefix words, block
  frames and suffix words of the modules in order.
\<close>

theorem write_event_data_frames:
  assumes "holds dest W" "1 < unat maxWords" "unat maxWords < 2 ^ 13" "mds \<noteq> []"
    and "list_all size_consistency_check mds" "crate < 8" "ev < 15"
  shows "\<exists>dest' fs cur mss. write_event_data dest (int crate) (int ev) mds maxWords = Inr dest' \<and>
     viewU32 dest' = W @ event_words crate ev fs cur \<and>
     list_all2 module_segments mds mss \<and> concat (fs @ [cur]) = concat mss \<and>
     (\<forall>f \<in> set (fs @ [cur]). seg_len f \<le> unat maxWords) \<and> (fs \<noteq> [] \<longrightarrow> [] \<notin> set (fs @ [cur]))"
proof -
  from write_event_data_words [OF assms] obtain dest' fs cur where
    w: "write_event_data dest (int crate) (int ev) mds maxWords = Inr dest'"
    "holds dest' (W @ event_words crate ev fs cur)" "event_frames (unat maxWords) mds fs cur" by blast
  with holds_view [OF w(2)] show ?thesis unfolding event_frames_def by (intro exI [of _ dest']) fastforce
qed

theorem write_event_data_frames_witness:
  "let md = \<lparr>md_data = [1, 2, 3, 4], md_prefixSize = 1, md_dynamicSize = 2, md_suffixSize = 1, md_hasDynamic = True\<rparr>
   in \<exists>dest' fs cur mss. write_event_data (ReadoutBuffer_init 0) 1 2 [md] 3 = Inr dest' \<and>
     viewU32 dest' = event_words 1 2 fs cur \<and>
     list_all2 module_segments [md] mss \<and> concat (fs @ [cur]) = concat mss \<and>
     (\<forall>f \<in> set (fs @ [cur]). seg_len f \<le> 3) \<and> (fs \<noteq> [] \<longrightarrow> [] \<notin> set (fs @ [cur]))"
  using write_event_data_frames [OF holds_init, of 3
      "[\<lparr>md_data = [1, 2, 3, 4], md_prefixSize = 1, md_dynamicSize = 2, md_suffixSize = 1, md_hasDynamic = True\<rparr>]" 1 2 0]
  by (simp add: size_consistency_check_def)

text \<open>
  C34. The overload of \<open>write_event_data\<close> for raw words does not split frames: up to
  the frame limit it writes a single stack frame with the words, for more words
  it fails the assertion in \<open>push_data_word\<close>.
\<close>

theorem write_event_data_raw_result:
  assumes "holds dest W" "1 < unat maxWords" "unat maxWords < 2 ^ 13" "crate < 8" "ev < 15"
  shows "if length data \<le> unat maxWords
     then \<exists>dest'. write_event_data_raw dest (int crate) (int ev) data maxWords = Inr dest' \<and>
            viewU32 dest' = W @ frame_header FT_StackFrame False (ev + 1) crate (length data) # data
     else write_event_data_raw dest (int crate) (int ev) data maxWords = Inl AssertionFailure"
proof -
  obtain gs where gs: "start_new_stack_frame (GenState_of dest (int crate) (int ev) maxWords) = Inr gs"
    "gen_rep W crate ev maxWords [] [] None gs"
    using start_event_rep [OF assms(1-3)] by (auto simp: written_def)
  have "1 < maxWords" using assms(2) by (simp add: word_less_nat_alt)
  with gs(1) assms(4,5) have raw: "write_event_data_raw dest (int crate) (int ev) data maxWords =
      result_bind (result_foldM (\<lambda>w gs. push_data_word gs w) data gs) close_open_stack_frame"
    by (simp add: write_event_data_raw_def)
  show ?thesis
  proof (cases "length data \<le> unat maxWords")
    case True
    with push_data_fold [OF gs(2), of data] obtain g where
      g: "result_foldM (\<lambda>w gs. push_data_word gs w) data gs = Inr g"
      "gen_rep W crate ev maxWords [] (map Single data) None g" by auto
    from close_open_rep [OF g(2)] obtain d where "close_open_stack_frame g = Inr d"
      "holds d (W @ event_words crate ev [] (map Single data))" by blast
    with raw g(1) True holds_view [of d] show ?thesis
      by (auto simp: event_words_def stack_frame_words_def)
  next
    case False
    with push_data_fold [OF gs(2), of data] raw show ?thesis by simp
  qed
qed

theorem write_event_data_raw_result_witness:
  "let xs = [5, 6, 8] in
   (\<exists>dest'. write_event_data_raw (ReadoutBuffer_init 0) 0 1 xs 3 = Inr dest' \<and>
     viewU32 dest' = frame_header FT_StackFrame False (1 + 1) 0 (length xs) # xs) \<and>
   write_event_data_raw (ReadoutBuffer_init 0) 0 1 [5, 6, 7, 8] 3 = Inl AssertionFailure"
  using write_event_data_raw_result [OF holds_init, of 3 0 1 "[5, 6, 8]" 0]
    write_event_data_raw_result [OF holds_init, of 3 0 1 "[5, 6, 7, 8]" 0]
  by simp

end
