(* ===== verification/Readout_Roundtrip.thy ===== *)
theory Readout_Roundtrip
  imports Listfile_Gen Readout_Parser_Safety
begin

text \<open>
  The readout parser reads what the listfile generator writes: an event written
  by \<open>write_event_data\<close> is delivered by \<open>parse_readout_contents\<close> with the same
  crate, event and module data, a system event with the same words. The proof is
  a simulation: \<open>partway\<close> describes a parser in the middle of a generated event,
  and every iteration of the parser's loop leads from such a state to the next or
  to the delivery of the event.
\<close>

section \<open>The fields of a generated header\<close>

lemma bit_of_nat_less: "m < 2 ^ k \<Longrightarrow> k \<le> n \<Longrightarrow> \<not> bit (of_nat m :: 'a::len word) n"
proof -
  assume "m < 2 ^ k" "k \<le> n"
  have "unat (of_nat m :: 'a word) \<le> m" by (simp add: unat_of_nat take_bit_nat_less_eq_self)
  with \<open>m < 2 ^ k\<close> have "take_bit k (of_nat m :: 'a word) = of_nat m"
    by (intro take_bit_word_self) linarith
  then have "bit (of_nat m :: 'a word) n \<longleftrightarrow> n < k \<and> bit (of_nat m :: 'a word) n"
    using bit_take_bit_iff [of k "of_nat m :: 'a word" n] by simp
  with \<open>k \<le> n\<close> show ?thesis by simp
qed

definition header_ok :: "nat \<Rightarrow> nat \<Rightarrow> nat \<Rightarrow> bool" where
  "header_ok stack ctrl len \<longleftrightarrow> stack < 2 ^ 4 \<and> ctrl < 2 ^ 3 \<and> len < 2 ^ 13"

lemma bit_frame_header:
  assumes "header_ok stack ctrl len" "n < 32"
  shows "bit (frame_header t cont stack ctrl len) n \<longleftrightarrow>
     (if n < 13 then bit (of_nat len :: u32) n
      else if n < 16 then bit (of_nat ctrl :: u32) (n - 13)
      else if n < 20 then bit (of_nat stack :: u32) (n - 16)
      else if n < 24 then n = 23 \<and> cont
      else bit t (n - 24))"
proof -
  have len: "\<not> bit (of_nat len :: u32) n" if "13 \<le> n"
    using assms(1) that bit_of_nat_less unfolding header_ok_def by blast
  have ctrl: "\<not> bit (of_nat ctrl :: u32) (n - 13)" if "16 \<le> n"
    using assms(1) that by (intro bit_of_nat_less [of ctrl 3]) (simp_all add: header_ok_def)
  have stack: "\<not> bit (of_nat stack :: u32) (n - 16)" if "20 \<le> n"
    using assms(1) that by (intro bit_of_nat_less [of stack 4]) (simp_all add: header_ok_def)
  have cont: "bit (push_bit 23 (of_bool cont) :: u32) n \<longleftrightarrow> n = 23 \<and> cont"
    using assms(2) by (auto simp: bit_simps)
  show ?thesis
    using assms(2) unfolding frame_header_def bit_or_iff cont
    by (cases n rule: frame_field_cases)
      (use len ctrl stack in \<open>simp_all add: bit_push_bit_iff bit_ucast_iff possible_bit_word less_diff_conv2\<close>)
qed

lemma bit_fields:
  "bit (get_frame_type h) n \<longleftrightarrow> n < 8 \<and> bit h (24 + n)"
  "bit (ucast (take_bit 4 (drop_bit 20 h)) :: u8) n \<longleftrightarrow> n < 4 \<and> bit h (20 + n)"
  "bit (ucast (take_bit 4 (drop_bit 16 h)) :: u8) n \<longleftrightarrow> n < 4 \<and> bit h (16 + n)"
  "bit (ucast (take_bit 3 (drop_bit 13 h)) :: u8) n \<longleftrightarrow> n < 3 \<and> bit h (13 + n)"
  for h :: u32
  by (auto simp: get_frame_type_def mask_simps bit_ucast_iff bit_take_bit_iff bit_drop_bit_eq possible_bit_word)

lemma frame_header_type:
  assumes "header_ok stack ctrl len"
  shows "get_frame_type (frame_header t cont stack ctrl len) = t"
  by (rule bit_word_eqI) (simp add: bit_fields bit_frame_header [OF assms])

lemma frame_header_len:
  assumes "header_ok stack ctrl len"
  shows "fi_len (extract_frame_info (frame_header t cont stack ctrl len)) = of_nat len"
proof -
  have "take_bit 13 (frame_header t cont stack ctrl len) = take_bit 13 (of_nat len)"
    by (rule bit_word_eqI) (simp add: bit_take_bit_iff bit_frame_header [OF assms])
  also have "\<dots> = of_nat len"
    using assms by (intro take_bit_word_self) (simp add: header_ok_def unat_of_nat take_bit_nat_eq_self)
  finally have eq: "take_bit 13 (frame_header t cont stack ctrl len) = of_nat len" .
  show ?thesis unfolding fi_len_eq eq
    using assms by (simp add: word_unat_eq_iff unsigned_ucast_eq unat_of_nat take_bit_nat_eq_self header_ok_def)
qed

lemma frame_header_fields:
  assumes "header_ok stack ctrl len" "t \<noteq> FT_SystemEvent"
  shows "fi_stack (extract_frame_info (frame_header t cont stack ctrl len)) = of_nat stack"
    and "fi_ctrl (extract_frame_info (frame_header t cont stack ctrl len)) = of_nat ctrl"
    and "fi_flags (extract_frame_info (frame_header t cont stack ctrl len)) AND FF_Continue = 0 \<longleftrightarrow> \<not> cont"
proof -
  have "get_frame_type (frame_header t cont stack ctrl len) \<noteq> FT_SystemEvent"
    using assms by (simp add: frame_header_type)
  note fields = fi_frame_eq [OF this]
  have cast: "bit (of_nat m :: u32) n \<longleftrightarrow> bit (of_nat m :: u8) n" if "n < 8" for m n
    using that by (simp add: bit_of_nat_iff)
  have "\<not> bit (of_nat stack :: u8) n" if "\<not> n < 4" for n
    using bit_of_nat_less [of stack 4 n, where 'a = 8] assms(1) that by (simp add: header_ok_def)
  then show "fi_stack (extract_frame_info (frame_header t cont stack ctrl len)) = of_nat stack"
    unfolding fields by (intro bit_word_eqI) (simp add: bit_fields bit_frame_header [OF assms(1)] cast)
  have "\<not> bit (of_nat ctrl :: u8) n" if "\<not> n < 3" for n
    using bit_of_nat_less [of ctrl 3 n, where 'a = 8] assms(1) that by (simp add: header_ok_def)
  then show "fi_ctrl (extract_frame_info (frame_header t cont stack ctrl len)) = of_nat ctrl"
    unfolding fields by (intro bit_word_eqI) (simp add: bit_fields bit_frame_header [OF assms(1)] cast)
  have flags: "fi_flags (extract_frame_info (frame_header t cont stack ctrl len)) = push_bit 3 (of_bool cont)"
    unfolding fields
    by (rule bit_word_eqI) (auto simp: bit_fields bit_frame_header [OF assms(1)] bit_push_bit_iff bit_1_iff
        possible_bit_word)
  show "fi_flags (extract_frame_info (frame_header t cont stack ctrl len)) AND FF_Continue = 0 \<longleftrightarrow> \<not> cont"
    unfolding flags by simp
qed

section \<open>A parser in the middle of an event\<close>

text \<open>The continuation frames of an event.\<close>

fun later_words :: "nat \<Rightarrow> nat \<Rightarrow> segment list list \<Rightarrow> u32 list" where
  "later_words crate ev [] = []"
| "later_words crate ev (f # fs) =
     frame_header FT_StackContinuation (fs \<noteq> []) (ev + 1) crate (seg_len f) # segments_words f @
     later_words crate ev fs"

definition nonempty_frames :: "segment list list \<Rightarrow> bool" where
  "nonempty_frames fs \<longleftrightarrow> (\<forall>f \<in> set fs. f \<noteq> [] \<and> seg_len f < 2 ^ 13)"

text \<open>
  The rest of the current frame \<open>cur\<close>, the frames \<open>later\<close> of the event and
  then \<open>rest\<close> are left to parse.
\<close>

definition streaming :: "nat \<Rightarrow> nat \<Rightarrow> callback list \<Rightarrow> u32 list \<Rightarrow> segment list \<Rightarrow> segment list list \<Rightarrow> parser_ctx \<Rightarrow> bool" where
  "streaming crate ev L rest cur later c \<longleftrightarrow>
     (let st = ctx_state c
      in ctx_input c = segments_words cur @ later_words crate ev later @ rest \<and> ctx_log c = L \<and>
         fps_wordsLeft (curStackFrame st) = of_nat (seg_len cur) \<and> seg_len cur < 2 ^ 13 \<and>
         fps_wordsLeft (curBlockFrame st) = 0 \<and>
         get_frame_length (fps_header (curStackFrame st)) \<noteq> 0 \<and>
         nonempty_frames later \<and> crate < 8 \<and> ev < 15 \<and> crateId st = of_nat crate)"

text \<open>The modules before \<open>mi\<close> are recorded, the modules behind it untouched.\<close>

definition event_ctx :: "ReadoutStructure \<Rightarrow> nat \<Rightarrow> ModuleData list \<Rightarrow> nat \<Rightarrow> parser_ctx \<Rightarrow> bool" where
  "event_ctx S ev mds mi c \<longleftrightarrow>
     (let st = ctx_state c; infos = S ! ev; spans = readoutDataSpans st
      in readoutStructure st = S \<and> ev < length S \<and> eventIndex st = int ev \<and> moduleIndex st = int mi \<and>
         length infos \<le> length spans \<and> length infos \<le> length (moduleDataBuffer st) \<and>
         length mds = length infos \<and>
         wb_used st \<le> wb_allocated (workBuffer st) \<and>
         (\<forall>i < mi. i < length infos \<longrightarrow>
            module_data (wb_words (workBuffer st)) (spans ! i) (infos ! i) = Inr (mds ! i)) \<and>
         (\<forall>i > mi. i < length infos \<longrightarrow> spans ! i = ModuleReadoutSpans_init))"

text \<open>
  The spans of a module whose first \<open>np\<close> prefix, \<open>nd\<close> dynamic and \<open>ns\<close> suffix
  words are recorded from position \<open>a\<close> of the work buffer on.
\<close>

definition records :: "nat \<Rightarrow> nat \<Rightarrow> nat \<Rightarrow> nat \<Rightarrow> ModuleReadoutSpans \<Rightarrow> bool" where
  "records a np nd ns sps \<longleftrightarrow>
     sp_size (prefixSpan sps) = np \<and> sp_size (dynamicSpan sps) = nd \<and> sp_size (suffixSpan sps) = ns \<and>
     (np \<noteq> 0 \<longrightarrow> sp_offset (prefixSpan sps) = a) \<and>
     (nd \<noteq> 0 \<longrightarrow> sp_offset (dynamicSpan sps) = a + np) \<and> sp_offset (dynamicSpan sps) \<le> a + np \<and>
     (ns \<noteq> 0 \<longrightarrow> sp_offset (suffixSpan sps) = a + np + nd)"

text \<open>The segments of a module that are still to come.\<close>

inductive pending :: "ModuleData \<Rightarrow> GroupParseState \<Rightarrow> u32 list \<Rightarrow> u32 list \<Rightarrow> u32 list \<Rightarrow> segment list \<Rightarrow> bool" where
  prefix: "pending md Prefix p0 [] [] segs"
  if "prefix_view md = p0 @ p" "segs = map Single p @ blocks @ map Single (suffix_view md)" "segs \<noteq> []"
    "if md_hasDynamic md then block_segments (dynamic_view md) blocks else blocks = []"
| dynamic: "pending md Dynamic (prefix_view md) d0 [] (blocks @ map Single (suffix_view md))"
  if "dynamic_view md = d0 @ d" "block_segments d blocks" "md_hasDynamic md"
| suffix: "pending md Suffix (prefix_view md) (dynamic_view md) s0 (map Single s)"
  if "suffix_view md = s0 @ s" "s \<noteq> []"

inductive_cases pending_PrefixE: "pending md Prefix p0 d0 s0 segs"
inductive_cases pending_DynamicE: "pending md Dynamic p0 d0 s0 segs"
inductive_cases pending_SuffixE: "pending md Suffix p0 d0 s0 segs"

text \<open>Module data that the parser can deliver for a module.\<close>

definition fits :: "ModuleReadoutStructure \<Rightarrow> ModuleData \<Rightarrow> bool" where
  "fits parts md \<longleftrightarrow> size_consistency_check md \<and> md_prefixSize md = unat (prefixLen parts) \<and>
     md_suffixSize md = unat (suffixLen parts) \<and> md_hasDynamic md = hasDynamic parts \<and>
     \<not> (isMesytecAndUsing2eSST parts \<and> ends_with_fill (dynamic_view md))"

definition module_stream :: "ModuleData list \<Rightarrow> segment list \<Rightarrow> bool" where
  "module_stream mds segs \<longleftrightarrow> (\<exists>mss. list_all2 module_segments mds mss \<and> segs = concat mss)"

text \<open>The parser has read a part of module \<open>mi\<close>.\<close>

definition partway :: "ReadoutStructure \<Rightarrow> nat \<Rightarrow> nat \<Rightarrow> ModuleData list \<Rightarrow> callback list \<Rightarrow> u32 list \<Rightarrow> parser_ctx \<Rightarrow> bool" where
  "partway S crate ev mds L rest c \<longleftrightarrow>
     (\<exists>mi cur later a p0 d0 s0 segs others.
        event_ctx S ev mds mi c \<and> mi < length (S ! ev) \<and> streaming crate ev L rest cur later c \<and>
        wb_words (workBuffer (ctx_state c)) = a @ p0 @ d0 @ s0 \<and>
        records (length a) (length p0) (length d0) (length s0) (cur_spans (ctx_state c)) \<and>
        pending (mds ! mi) (groupParseState (ctx_state c)) p0 d0 s0 segs \<and>
        cur @ concat later = segs @ others \<and> module_stream (drop (Suc mi) mds) others)"

text \<open>The parser is in front of module \<open>mi\<close>, or behind the last module.\<close>

definition between_at :: "ReadoutStructure \<Rightarrow> nat \<Rightarrow> nat \<Rightarrow> ModuleData list \<Rightarrow> callback list \<Rightarrow> u32 list \<Rightarrow>
    nat \<Rightarrow> parser_ctx \<Rightarrow> bool" where
  "between_at S crate ev mds L rest mi c \<longleftrightarrow>
     event_ctx S ev mds mi c \<and> mi \<le> length (S ! ev) \<and> groupParseState (ctx_state c) = Prefix \<and>
     (mi < length (S ! ev) \<longrightarrow> readoutDataSpans (ctx_state c) ! mi = ModuleReadoutSpans_init) \<and>
     (\<exists>cur later. streaming crate ev L rest cur later c \<and> module_stream (drop mi mds) (cur @ concat later))"

definition between :: "ReadoutStructure \<Rightarrow> nat \<Rightarrow> nat \<Rightarrow> ModuleData list \<Rightarrow> callback list \<Rightarrow> u32 list \<Rightarrow>
    parser_ctx \<Rightarrow> bool" where
  "between S crate ev mds L rest c \<longleftrightarrow> (\<exists>mi. between_at S crate ev mds L rest mi c)"

section \<open>Recorded words\<close>

lemma fits_views:
  assumes "fits parts md"
  shows "length (prefix_view md) = unat (prefixLen parts)" "length (suffix_view md) = unat (suffixLen parts)"
    and "length (dynamic_view md) = md_dynamicSize md"
    and "prefix_view md @ dynamic_view md @ suffix_view md = md_data md"
proof -
  have "md_prefixSize md + md_dynamicSize md + md_suffixSize md = length (md_data md)"
    using assms by (simp add: fits_def size_consistency_check_def)
  note total = this
  then show "length (prefix_view md) = unat (prefixLen parts)" "length (suffix_view md) = unat (suffixLen parts)"
    "length (dynamic_view md) = md_dynamicSize md"
    using assms by (simp_all add: fits_def prefix_view_def dynamic_view_def suffix_view_def)
  have "suffix_view md = drop (md_dynamicSize md) (drop (md_prefixSize md) (md_data md))"
    using total by (simp add: suffix_view_def add.commute)
  then show "prefix_view md @ dynamic_view md @ suffix_view md = md_data md"
    by (simp only: prefix_view_def dynamic_view_def append_take_drop_id)
qed

lemma records_module_data:
  assumes "fits parts md"
    and "records (length a) (length (prefix_view md)) (length (dynamic_view md)) (length (suffix_view md)) sps"
  shows "module_data (a @ prefix_view md @ dynamic_view md @ suffix_view md) sps parts = Inr md"
proof -
  note views = fits_views [OF assms(1)]
  let ?ws = "prefix_view md @ dynamic_view md @ suffix_view md"
  have sizes: "sp_size (prefixSpan sps) = md_prefixSize md" "sp_size (dynamicSpan sps) = md_dynamicSize md"
    "sp_size (suffixSpan sps) = md_suffixSize md"
    using assms views(1-3) by (simp_all add: records_def fits_def)
  have total: "md_prefixSize md + md_dynamicSize md + md_suffixSize md = length ?ws"
    using assms(1) unfolding views(4) by (simp add: fits_def size_consistency_check_def)
  have start: "(if sp_size (prefixSpan sps) \<noteq> 0 then sp_offset (prefixSpan sps)
             else if sp_size (dynamicSpan sps) \<noteq> 0 then sp_offset (dynamicSpan sps)
             else if sp_size (suffixSpan sps) \<noteq> 0 then sp_offset (suffixSpan sps) else 0) =
        (if ?ws = [] then 0 else length a)"
    using assms(2) by (auto simp: records_def)
  have "take (length ?ws) (drop (if ?ws = [] then 0 else length a) (a @ ?ws)) = ?ws" by simp
  then show ?thesis
    unfolding module_data_def Let_def start unfolding sizes total
    using views(4) assms(1) by (simp add: fits_def)
qed

lemma module_data_append: "module_data buf sps parts = Inr md \<Longrightarrow> module_data (buf @ x) sps parts = Inr md"
  by (auto simp: module_data_def Let_def split: if_splits)

lemma records_init [simp]: "records a 0 0 0 ModuleReadoutSpans_init"
  by (simp add: records_def ModuleReadoutSpans_init_def Span_init_def)

lemma records_grow:
  "records a np 0 0 sps \<Longrightarrow> records a (np + n) 0 0 (prefixSpan_update (grow_span n) (prefixSpan_update (begin_span (a + np)) sps))"
  "records a np nd 0 sps \<Longrightarrow> records a np (nd + n) 0 (dynamicSpan_update (grow_span n) (dynamicSpan_update (begin_span (a + np + nd)) sps))"
  "records a np nd ns sps \<Longrightarrow> records a np nd (ns + n) (suffixSpan_update (grow_span n) (suffixSpan_update (begin_span (a + np + nd + ns)) sps))"
  by (auto simp: records_def begin_span_def grow_span_def)

section \<open>Preservation of the simulation relation\<close>

lemma event_ctx_copied:
  assumes "event_ctx S ev mds mi c" "mi < length (S ! ev)" "n \<le> length (ctx_input c)"
  shows "event_ctx S ev mds mi (part_copied u n c)"
  using assms ensure_allocated [of "workBuffer (ctx_state c)" n]
  by (auto simp: event_ctx_def part_copied_allocated spans_part_copied module_data_append Let_def)
    (auto simp: wb_used_def)

lemma streaming_copied:
  assumes "streaming crate ev L rest (map Single q @ cur) later c"
  shows "streaming crate ev L rest cur later (part_copied u (length q) c)" "length q \<le> length (ctx_input c)"
    "take (length q) (ctx_input c) = q"
  using assms by (simp_all add: streaming_def crateId_def Let_def)

lemma split_singles:
  assumes "cur @ concat later = map Single p @ X"
  obtains q p' cur' where "cur = map Single q @ cur'" "p = q @ p'" "p' = [] \<or> cur' = []"
    "cur' @ concat later = map Single p' @ X"
proof -
  from assms consider us where "cur = map Single p @ us" "us @ concat later = X"
    | us where "map Single p = cur @ us" "concat later = us @ X"
    using append_eq_append_conv2 [of cur "concat later" "map Single p" X] by metis
  then show ?thesis
  proof cases
    case 1
    then show ?thesis by (intro that [of p us "[]"]) simp_all
  next
    case 2
    then obtain q p' where "p = q @ p'" "cur = map Single q" "us = map Single p'"
      by (auto simp: map_eq_append_conv)
    with 2 show ?thesis by (intro that [of q "[]" p']) simp_all
  qed
qed

lemma streaming_min:
  assumes "streaming crate ev L rest (map Single q @ cur) later c" "p' = [] \<or> cur = []"
  shows "min (length q + length p') (min (unat (fps_wordsLeft (curStackFrame (ctx_state c)))) (length (ctx_input c))) = length q"
proof -
  have "unat (fps_wordsLeft (curStackFrame (ctx_state c))) = length q + seg_len cur"
    using assms(1) by (simp add: streaming_def Let_def unat_of_nat take_bit_nat_eq_self del: of_nat_add)
  then show ?thesis using assms by (auto simp: streaming_def Let_def)
qed

lemma event_ctx_facts:
  assumes "event_ctx S ev mds mi c"
  shows "moduleReadoutInfos (ctx_state c) = S ! ev" "cur_parts (ctx_state c) = S ! ev ! mi"
    "cur_spans (ctx_state c) = readoutDataSpans (ctx_state c) ! mi"
    "moduleIndex (ctx_state c) = int mi"  "length (S ! ev) \<le> length (readoutDataSpans (ctx_state c))"
    "wb_used (ctx_state c) \<le> wb_allocated (workBuffer (ctx_state c))"
  using assms by (simp_all add: event_ctx_def moduleReadoutInfos_def cur_parts_def cur_spans_def Let_def)

lemma phase_simps [simp]:
  "event_ctx S ev mds mi (upd_state (groupParseState_update f) c) = event_ctx S ev mds mi c"
  "streaming crate ev L rest cur later (upd_state (groupParseState_update f) c) = streaming crate ev L rest cur later c"
  "cur_spans (groupParseState_update f st) = cur_spans st"
  by (simp_all add: event_ctx_def streaming_def crateId_def cur_spans_def wb_used_def Let_def)

text \<open>The words of a module are complete.\<close>

definition module_read ::
  "ReadoutStructure \<Rightarrow> nat \<Rightarrow> nat \<Rightarrow> ModuleData list \<Rightarrow> callback list \<Rightarrow> u32 list \<Rightarrow> nat \<Rightarrow> segment list \<Rightarrow> segment list list \<Rightarrow>
   parser_ctx \<Rightarrow> bool" where
  "module_read S crate ev mds L rest mi cur later c \<longleftrightarrow>
     event_ctx S ev mds mi c \<and> mi < length (S ! ev) \<and> streaming crate ev L rest cur later c \<and>
     (\<exists>a. wb_words (workBuffer (ctx_state c)) =
            a @ prefix_view (mds ! mi) @ dynamic_view (mds ! mi) @ suffix_view (mds ! mi) \<and>
          records (length a) (length (prefix_view (mds ! mi))) (length (dynamic_view (mds ! mi)))
            (length (suffix_view (mds ! mi))) (cur_spans (ctx_state c))) \<and>
     module_stream (drop (Suc mi) mds) (cur @ concat later)"

lemma module_read_done:
  assumes "module_read S crate ev mds L rest mi cur later c" "list_all2 fits (S ! ev) mds"
  shows "between_at S crate ev mds L rest (Suc mi) (upd_state module_done c)"
proof -
  from assms(1) have ctx: "event_ctx S ev mds mi c" and mi: "mi < length (S ! ev)"
    and str: "streaming crate ev L rest cur later c" "module_stream (drop (Suc mi) mds) (cur @ concat later)"
    by (simp_all add: module_read_def)
  have "fits (S ! ev ! mi) (mds ! mi)" using assms(2) mi by (simp add: list_all2_nthD)
  with assms(1) have md: "module_data (wb_words (workBuffer (ctx_state c)))
      (readoutDataSpans (ctx_state c) ! mi) (S ! ev ! mi) = Inr (mds ! mi)"
    using records_module_data event_ctx_facts(3) [OF ctx] by (auto simp: module_read_def)
  have "event_ctx S ev mds (Suc mi) (upd_state module_done c)"
    using ctx md by (auto simp: event_ctx_def module_done_def wb_used_def less_Suc_eq Let_def)
  moreover have "streaming crate ev L rest cur later (upd_state module_done c)"
    using str(1) by (simp add: streaming_def module_done_def crateId_def Let_def)
  moreover have "Suc mi < length (S ! ev) \<longrightarrow>
      readoutDataSpans (ctx_state (upd_state module_done c)) ! Suc mi = ModuleReadoutSpans_init"
    using ctx by (simp add: event_ctx_def module_done_def Let_def)
  ultimately show ?thesis
    using mi str(2) unfolding between_at_def by (auto simp: module_done_def)
qed

text \<open>The result of a stage of the iteration within an event.\<close>

definition goes_on :: "ReadoutStructure \<Rightarrow> nat \<Rightarrow> nat \<Rightarrow> ModuleData list \<Rightarrow> callback list \<Rightarrow> u32 list \<Rightarrow> parser_ctx \<times> outcome \<Rightarrow> bool" where
  "goes_on S crate ev mds L rest r \<longleftrightarrow>
     snd r = Continue \<and> partway S crate ev mds L rest (fst r) \<or>
     snd r = Next \<and> (partway S crate ev mds L rest (fst r) \<or> between S crate ev mds L rest (fst r))"

lemma goes_on_simps [simp]:
  "goes_on S crate ev mds L rest (c, Continue) \<longleftrightarrow> partway S crate ev mds L rest c"
  "goes_on S crate ev mds L rest (c, Next) \<longleftrightarrow> partway S crate ev mds L rest c \<or> between S crate ev mds L rest c"
  by (auto simp: goes_on_def)

text \<open>The suffix.\<close>

lemma copy_suffix_eq:
  assumes ctx: "event_ctx S ev mds mi c" "mi < length (S ! ev)"
    and str: "streaming crate ev L rest (map Single q @ cur) later c" "s' = [] \<or> cur = []"
    and size: "sp_size (suffixSpan (cur_spans (ctx_state c))) + length (q @ s') = unat (suffixLen (S ! ev ! mi))"
    and "q @ s' \<noteq> []"
  shows "copy_suffix c = (part_copied suffixSpan_update (length q) c, Next)"
proof -
  have "copy_part suffixSpan_update (length q) c = (part_copied suffixSpan_update (length q) c, Next)"
    using event_ctx_facts(6) [OF ctx(1)] streaming_copied(2) [OF str(1)] by (rule copy_part_eq)
  then show ?thesis
    using size streaming_min [OF str] assms(6) event_ctx_facts(2) [OF ctx(1)]
    by (simp add: copy_suffix_def Let_def flip: size)
qed

lemma copy_prefix_eq:
  assumes ctx: "event_ctx S ev mds mi c" "mi < length (S ! ev)"
    and str: "streaming crate ev L rest (map Single q @ cur) later c" "p' = [] \<or> cur = []"
    and size: "sp_size (prefixSpan (cur_spans (ctx_state c))) + length (q @ p') = unat (prefixLen (S ! ev ! mi))"
    and "q @ p' \<noteq> []"
  shows "copy_prefix c = (part_copied prefixSpan_update (length q) c, Next)"
proof -
  have "copy_part prefixSpan_update (length q) c = (part_copied prefixSpan_update (length q) c, Next)"
    using event_ctx_facts(6) [OF ctx(1)] streaming_copied(2) [OF str(1)] by (rule copy_part_eq)
  then show ?thesis
    using size streaming_min [OF str] assms(6) event_ctx_facts(2) [OF ctx(1)]
    by (simp add: copy_prefix_def Let_def flip: size)
qed

text \<open>What is known of the current module while it is read.\<close>

definition module_at ::
  "ReadoutStructure \<Rightarrow> nat \<Rightarrow> nat \<Rightarrow> ModuleData list \<Rightarrow> callback list \<Rightarrow> u32 list \<Rightarrow> nat \<Rightarrow> segment list \<Rightarrow> segment list list \<Rightarrow>
   u32 list \<Rightarrow> u32 list \<Rightarrow> u32 list \<Rightarrow> parser_ctx \<Rightarrow> bool" where
  "module_at S crate ev mds L rest mi cur later p0 d0 s0 c \<longleftrightarrow>
     event_ctx S ev mds mi c \<and> mi < length (S ! ev) \<and> streaming crate ev L rest cur later c \<and>
     (\<exists>a. wb_words (workBuffer (ctx_state c)) = a @ p0 @ d0 @ s0 \<and>
          records (length a) (length p0) (length d0) (length s0) (cur_spans (ctx_state c)))"

lemma partway_iff:
  "partway S crate ev mds L rest c \<longleftrightarrow>
     (\<exists>mi cur later p0 d0 s0 segs others. module_at S crate ev mds L rest mi cur later p0 d0 s0 c \<and>
        pending (mds ! mi) (groupParseState (ctx_state c)) p0 d0 s0 segs \<and>
        cur @ concat later = segs @ others \<and> module_stream (drop (Suc mi) mds) others)"
  unfolding partway_def module_at_def by blast

lemma module_at_phase [simp]:
  "module_at S crate ev mds L rest mi cur later p0 d0 s0 (upd_state (groupParseState_update f) c) =
   module_at S crate ev mds L rest mi cur later p0 d0 s0 c"
  by (simp add: module_at_def)

lemma module_at_sizes:
  assumes "module_at S crate ev mds L rest mi cur later p0 d0 s0 c"
  shows "sp_size (prefixSpan (cur_spans (ctx_state c))) = length p0"
    "sp_size (dynamicSpan (cur_spans (ctx_state c))) = length d0"
    "sp_size (suffixSpan (cur_spans (ctx_state c))) = length s0"
    "cur_parts (ctx_state c) = S ! ev ! mi"
  using assms event_ctx_facts by (auto simp: module_at_def records_def)

lemma module_at_copied:
  assumes "module_at S crate ev mds L rest mi (map Single q @ cur) later p0 d0 s0 c"
  shows "d0 = [] \<Longrightarrow> s0 = [] \<Longrightarrow>
      module_at S crate ev mds L rest mi cur later (p0 @ q) d0 s0 (part_copied prefixSpan_update (length q) c)"
    and "module_at S crate ev mds L rest mi cur later p0 d0 (s0 @ q) (part_copied suffixSpan_update (length q) c)"
proof -
  from assms obtain a where ctx: "event_ctx S ev mds mi c" "mi < length (S ! ev)"
    and str: "streaming crate ev L rest (map Single q @ cur) later c"
    and wb: "wb_words (workBuffer (ctx_state c)) = a @ p0 @ d0 @ s0"
    and rec: "records (length a) (length p0) (length d0) (length s0) (cur_spans (ctx_state c))"
    by (auto simp: module_at_def)
  note copied = event_ctx_copied [OF ctx streaming_copied(2) [OF str]] streaming_copied(1) [OF str]
  have mi: "nat (moduleIndex (ctx_state c)) < length (readoutDataSpans (ctx_state c))"
    using event_ctx_facts(4,5) [OF ctx(1)] ctx(2) by simp
  note spans = spans_part_copied(2) [OF mi]
  have used: "wb_used (ctx_state c) = length a + length p0 + length d0 + length s0"
    by (simp add: wb_used_def wb)
  show "module_at S crate ev mds L rest mi cur later (p0 @ q) d0 s0 (part_copied prefixSpan_update (length q) c)"
    if "d0 = []" "s0 = []"
    using copied ctx(2) records_grow(1) [of "length a" "length p0" _ "length q"] rec that
    by (auto simp: module_at_def spans used wb streaming_copied(3) [OF str])
  show "module_at S crate ev mds L rest mi cur later p0 d0 (s0 @ q) (part_copied suffixSpan_update (length q) c)"
    using copied ctx(2) records_grow(3) [OF rec, of "length q"]
    by (auto simp: module_at_def spans used wb streaming_copied(3) [OF str])
qed

lemma parse_suffix_goes_on:
  assumes at: "module_at S crate ev mds L rest mi cur later p0 d0 s0 c" and "list_all2 fits (S ! ev) mds"
    and pend: "pending (mds ! mi) Suffix p0 d0 s0 segs" "groupParseState (ctx_state c) = Suffix"
    and str: "cur @ concat later = segs @ others" "module_stream (drop (Suc mi) mds) others"
  shows "goes_on S crate ev mds L rest (parse_suffix c)"
proof -
  let ?md = "mds ! mi"
  from pend(1) obtain s where p0: "p0 = prefix_view ?md" and d0: "d0 = dynamic_view ?md"
    and s: "suffix_view ?md = s0 @ s" "s \<noteq> []" "segs = map Single s"
    by (auto elim: pending_SuffixE)
  from str(1) obtain q s' cur' where cur: "cur = map Single q @ cur'" and sq: "s = q @ s'"
    and stop: "s' = [] \<or> cur' = []" and rest: "cur' @ concat later = map Single s' @ others"
    unfolding s(3) by (rule split_singles)
  have mi: "event_ctx S ev mds mi c" "mi < length (S ! ev)" using at by (simp_all add: module_at_def)
  then have "fits (S ! ev ! mi) ?md" using assms(2) by (simp add: list_all2_nthD)
  note views = fits_views [OF this]
  let ?c = "part_copied suffixSpan_update (length q) c"
  have len: "length s0 + length (q @ s') = unat (suffixLen (S ! ev ! mi))"
    using views(2) s(1) sq by simp
  have copy: "copy_suffix c = (?c, Next)"
    using mi stop at len s(2) sq module_at_sizes(3) [OF at] unfolding cur
    by (intro copy_suffix_eq) (auto simp: module_at_def)
  have at': "module_at S crate ev mds L rest mi cur' later p0 d0 (s0 @ q) ?c"
    using module_at_copied(2) at unfolding cur by blast
  note sizes = module_at_sizes [OF at']
  show ?thesis
  proof (cases "s' = []")
    case True
    then have "module_read S crate ev mds L rest mi cur' later ?c"
      using at' s(1) sq p0 d0 rest str(2) by (auto simp: module_at_def module_read_def)
    then have "between S crate ev mds L rest (upd_state module_done ?c)"
        using assms(2) module_read_done unfolding between_def by blast
    with True copy sizes len show ?thesis by (simp add: parse_suffix_def)
  next
    case False
    have "pending ?md (groupParseState (ctx_state ?c)) p0 d0 (s0 @ q) (map Single s')"
      using False s(1) sq pend(2) unfolding p0 d0 by (auto intro: pending.suffix)
    then have "partway S crate ev mds L rest ?c"
      using at' rest str(2) unfolding partway_iff by blast
    with False copy sizes show ?thesis by (simp add: parse_suffix_def flip: len)
  qed
qed

text \<open>The prefix.\<close>

lemma prefix_complete_goes_on:
  assumes at: "module_at S crate ev mds L rest mi cur later (prefix_view (mds ! mi)) [] [] c"
    and fit: "list_all2 fits (S ! ev) mds"
    and str: "cur @ concat later = (blocks @ map Single (suffix_view (mds ! mi))) @ others"
      "module_stream (drop (Suc mi) mds) others"
    and blocks: "if md_hasDynamic (mds ! mi) then block_segments (dynamic_view (mds ! mi)) blocks else blocks = []"
    and copy: "copy_prefix b = (c, Next)"
  shows "goes_on S crate ev mds L rest (parse_prefix b)"
proof -
  let ?md = "mds ! mi" and ?parts = "S ! ev ! mi"
  have "mi < length (S ! ev)" using at by (simp add: module_at_def)
  then have fits: "fits ?parts ?md" using fit by (simp add: list_all2_nthD)
  note views = fits_views [OF fits] and sizes = module_at_sizes [OF at]
  have dyn: "md_hasDynamic ?md = hasDynamic ?parts" "\<not> hasDynamic ?parts \<Longrightarrow> dynamic_view ?md = []"
    using fits views(3) by (auto simp: fits_def size_consistency_check_def)
  consider (dynamic) "hasDynamic ?parts" | (suffix) "\<not> hasDynamic ?parts" "suffix_view ?md \<noteq> []"
    | (none) "\<not> hasDynamic ?parts" "suffix_view ?md = []" by blast
  then show ?thesis
  proof cases
    case dynamic
    let ?c = "upd_state (\<lambda>st. st\<lparr>groupParseState := Dynamic\<rparr>) c"
    have "pending ?md Dynamic (prefix_view ?md) [] [] (blocks @ map Single (suffix_view ?md))"
      using dynamic dyn blocks by (auto intro: pending.dynamic)
    then have "partway S crate ev mds L rest ?c"
      unfolding partway_iff using at str
      by (intro exI [of _ mi] exI [of _ cur] exI [of _ later] exI conjI) simp_all
    with dynamic copy sizes views show ?thesis by (simp add: parse_prefix_def Let_def)
  next
    case suffix
    let ?c = "upd_state (\<lambda>st. st\<lparr>groupParseState := Suffix\<rparr>) c"
    have "pending ?md Suffix (prefix_view ?md) [] [] (map Single (suffix_view ?md))"
      using suffix pending.suffix [of ?md "[]"] dyn(2) by simp
    then have "partway S crate ev mds L rest ?c"
      unfolding partway_iff using at str suffix dyn blocks
      by (intro exI [of _ mi] exI [of _ cur] exI [of _ later] exI conjI) simp_all
    moreover have "suffixLen ?parts \<noteq> 0" using views(2) suffix(2) by auto
    ultimately show ?thesis using suffix copy sizes views by (simp add: parse_prefix_def Let_def)
  next
    case none
    then have "module_read S crate ev mds L rest mi cur later c"
      using at dyn blocks str by (auto simp: module_at_def module_read_def)
    then have "between S crate ev mds L rest (upd_state module_done c)"
        using fit module_read_done unfolding between_def by blast
    moreover have "suffixLen ?parts = 0" using views(2) none(2) by (simp add: unat_eq_0)
    ultimately show ?thesis using none copy sizes views by (simp add: parse_prefix_def Let_def)
  qed
qed

lemma parse_prefix_goes_on:
  assumes at: "module_at S crate ev mds L rest mi cur later p0 d0 s0 c" and "list_all2 fits (S ! ev) mds"
    and pend: "pending (mds ! mi) Prefix p0 d0 s0 segs" "groupParseState (ctx_state c) = Prefix"
    and str: "cur @ concat later = segs @ others" "module_stream (drop (Suc mi) mds) others"
  shows "goes_on S crate ev mds L rest (parse_prefix c)"
proof -
  let ?md = "mds ! mi"
  from pend(1) obtain p blocks where d0: "d0 = []" "s0 = []" and p: "prefix_view ?md = p0 @ p"
    and segs: "segs = map Single p @ blocks @ map Single (suffix_view ?md)"
    and blocks: "if md_hasDynamic ?md then block_segments (dynamic_view ?md) blocks else blocks = []"
    by (auto elim: pending_PrefixE)
  have mi: "event_ctx S ev mds mi c" "mi < length (S ! ev)" using at by (simp_all add: module_at_def)
  then have "fits (S ! ev ! mi) ?md" using assms(2) by (simp add: list_all2_nthD)
  note views = fits_views [OF this]
  show ?thesis
  proof (cases "p = []")
    case True
    then have "copy_prefix c = (c, Next)"
      using views(1) p module_at_sizes [OF at] by (simp add: copy_prefix_def Let_def)
    with True at p d0 str segs blocks assms(2) show ?thesis
      by (intro prefix_complete_goes_on [of S crate ev mds L rest mi cur later c blocks others]) simp_all
  next
    case False
    from str(1) obtain q p' cur' where cur: "cur = map Single q @ cur'" and pq: "p = q @ p'"
      and stop: "p' = [] \<or> cur' = []"
      and rest: "cur' @ concat later = map Single p' @ (blocks @ map Single (suffix_view ?md)) @ others"
      unfolding segs append_assoc by (rule split_singles)
    let ?c = "part_copied prefixSpan_update (length q) c"
    have len: "length p0 + length (q @ p') = unat (prefixLen (S ! ev ! mi))" using views(1) p pq by simp
    have copy: "copy_prefix c = (?c, Next)"
      using mi stop at len False pq module_at_sizes(1) [OF at] unfolding cur
      by (intro copy_prefix_eq) (auto simp: module_at_def)
    have at': "module_at S crate ev mds L rest mi cur' later (p0 @ q) [] [] ?c"
      using module_at_copied(1) at d0 unfolding cur by blast
    show ?thesis
    proof (cases "p' = []")
      case True
      with at' copy rest blocks str(2) p pq assms(2) show ?thesis
        by (intro prefix_complete_goes_on [of S crate ev mds L rest mi cur' later ?c blocks others]) simp_all
    next
      case False
      have "pending ?md Prefix (p0 @ q) [] [] (map Single p' @ blocks @ map Single (suffix_view ?md))"
        using False p pq blocks by (intro pending.prefix [of _ _ p' _ blocks]) simp_all
      then have "partway S crate ev mds L rest ?c"
        unfolding partway_iff using at' rest str(2) pend(2)
        by (intro exI [of _ mi] exI [of _ cur'] exI [of _ later] exI conjI) simp_all
      with False copy module_at_sizes [OF at'] show ?thesis by (simp add: parse_prefix_def Let_def flip: len)
    qed
  qed
qed

text \<open>The dynamic part: one block frame per iteration.\<close>

lemma block_segments_Cons:
  assumes "block_segments d blocks"
  obtains b ws blocks' d' where "blocks = BlockFrame b ws # blocks'" "d = ws @ d'"
    "if b then block_segments d' blocks' else blocks' = [] \<and> d' = []"
proof -
  from assms obtain parts final where b: "blocks = map (BlockFrame True) parts @ [BlockFrame False final]"
    "concat parts @ final = d" by (auto simp: block_segments_def)
  show ?thesis
  proof (cases parts)
    case Nil
    with b show ?thesis by (intro that [of False final "[]" "[]"]) simp_all
  next
    case (Cons ws ps)
    with b show ?thesis
      by (intro that [of True ws "map (BlockFrame True) ps @ [BlockFrame False final]" "concat ps @ final"])
        (auto simp: block_segments_def)
  qed
qed

text \<open>The context after the header of a block frame.\<close>

definition block_opened :: "u32 \<Rightarrow> u32 list \<Rightarrow> parser_ctx \<Rightarrow> parser_ctx" where
  "block_opened h input c =
     set_input input (upd_state (\<lambda>st. st\<lparr>curBlockFrame := FrameParseState_of h,
       curStackFrame := (curStackFrame st)\<lparr>fps_wordsLeft := fps_wordsLeft (curStackFrame st) - 1\<rparr>\<rparr>) c)"

lemma block_opened_simps [simp]:
  "ctx_input (block_opened h input c) = input" "ctx_log (block_opened h input c) = ctx_log c"
  "curBlockFrame (ctx_state (block_opened h input c)) = FrameParseState_of h"
  "fps_wordsLeft (curStackFrame (ctx_state (block_opened h input c))) = fps_wordsLeft (curStackFrame (ctx_state c)) - 1"
  "fps_header (curStackFrame (ctx_state (block_opened h input c))) = fps_header (curStackFrame (ctx_state c))"
  "workBuffer (ctx_state (block_opened h input c)) = workBuffer (ctx_state c)"
  "wb_used (ctx_state (block_opened h input c)) = wb_used (ctx_state c)"
  "cur_spans (ctx_state (block_opened h input c)) = cur_spans (ctx_state c)"
  "readoutDataSpans (ctx_state (block_opened h input c)) = readoutDataSpans (ctx_state c)"
  "moduleIndex (ctx_state (block_opened h input c)) = moduleIndex (ctx_state c)"
  "groupParseState (ctx_state (block_opened h input c)) = groupParseState (ctx_state c)"
  "event_ctx S ev mds mi (block_opened h input c) = event_ctx S ev mds mi c"
  by (simp_all add: block_opened_def event_ctx_def cur_spans_def wb_used_def Let_def)

definition block_copied :: "u32 \<Rightarrow> u32 list \<Rightarrow> nat \<Rightarrow> parser_ctx \<Rightarrow> parser_ctx" where
  "block_copied h input n c =
     upd_state (\<lambda>st. st\<lparr>curBlockFrame := (curBlockFrame st)\<lparr>fps_wordsLeft := 0\<rparr>\<rparr>)
       (part_copied dynamicSpan_update n (block_opened h input c))"

lemma read_block:
  assumes str: "streaming crate ev L rest (BlockFrame b ws # cur) later c" and ctx: "event_ctx S ev mds mi c"
  defines "h \<equiv> frame_header FT_BlockRead b 0 0 (length ws)"
  shows "and_then (open_block_frame c) copy_dynamic = (block_copied h (tl (ctx_input c)) (length ws) c, Next)"
    and "streaming crate ev L rest cur later (block_copied h (tl (ctx_input c)) (length ws) c)"
    and "block_frame_done (ctx_state (block_copied h (tl (ctx_input c)) (length ws) c)) \<longleftrightarrow> \<not> b"
proof -
  let ?i = "ws @ segments_words cur @ later_words crate ev later @ rest"
  have inp: "ctx_input c = h # ?i" and len: "length ws < 2 ^ 13"
    and left: "fps_wordsLeft (curStackFrame (ctx_state c)) = 1 + of_nat (length ws) + of_nat (seg_len cur)"
      "Suc (length ws + seg_len cur) < 2 ^ 13"
    and blk: "fps_wordsLeft (curBlockFrame (ctx_state c)) = 0"
    using str by (simp_all add: streaming_def h_def Let_def)
  have hok: "header_ok 0 0 (length ws)" using len by (simp add: header_ok_def)
  have type: "fi_type (extract_frame_info h) = FT_BlockRead" and flen: "fi_len (extract_frame_info h) = of_nat (length ws)"
    unfolding h_def using frame_header_type [OF hok] frame_header_len [OF hok] by (simp_all add: fi_type_eq)
  have "fps_wordsLeft (curStackFrame (ctx_state c)) = of_nat (Suc (length ws + seg_len cur))"
    using left(1) by simp
  then have "unat (fps_wordsLeft (curStackFrame (ctx_state c))) = Suc (length ws + seg_len cur)"
    using left(2) by (simp only: unat_of_nat) (simp add: take_bit_nat_eq_self)
  then have nz: "fps_wordsLeft (curStackFrame (ctx_state c)) \<noteq> 0" by auto
  with inp blk type have opn: "open_block_frame c = (block_opened h ?i c, Next)"
    by (simp add: open_block_frame_def consumeWord_def block_opened_def upd_state_def set_input_def Let_def)
  have "copy_part dynamicSpan_update (length ws) (block_opened h ?i c) =
      (part_copied dynamicSpan_update (length ws) (block_opened h ?i c), Next)"
    using event_ctx_facts(6) [OF ctx] by (intro copy_part_eq) simp_all
  moreover have "unat (of_nat (length ws) :: u16) = length ws"
    using len by (simp add: unat_of_nat take_bit_nat_eq_self)
  ultimately show "and_then (open_block_frame c) copy_dynamic = (block_copied h (tl (ctx_input c)) (length ws) c, Next)"
    unfolding opn
    by (simp add: copy_dynamic_def block_copied_def wordsLeft_frame flen inp upd_state_def Let_def)
  show "streaming crate ev L rest cur later (block_copied h (tl (ctx_input c)) (length ws) c)"
    using str left by (simp add: streaming_def block_copied_def crateId_def inp Let_def)
  show "block_frame_done (ctx_state (block_copied h (tl (ctx_input c)) (length ws) c)) \<longleftrightarrow> \<not> b"
    using frame_header_fields(3) [OF hok, of FT_BlockRead b]
    by (simp add: block_frame_done_def block_copied_def wordsLeft_frame h_def)
qed

lemma module_at_block:
  assumes at: "module_at S crate ev mds L rest mi (BlockFrame b ws # cur) later p0 d0 [] c"
  defines "c' \<equiv> block_copied (frame_header FT_BlockRead b 0 0 (length ws)) (tl (ctx_input c)) (length ws) c"
  shows "module_at S crate ev mds L rest mi cur later p0 (d0 @ ws) [] c'"
    and "groupParseState (ctx_state c') = groupParseState (ctx_state c)"
proof -
  from at obtain a where ctx: "event_ctx S ev mds mi c" "mi < length (S ! ev)"
    and str: "streaming crate ev L rest (BlockFrame b ws # cur) later c"
    and wb: "wb_words (workBuffer (ctx_state c)) = a @ p0 @ d0"
    and rec: "records (length a) (length p0) (length d0) 0 (cur_spans (ctx_state c))"
    by (auto simp: module_at_def)
  let ?b = "block_opened (frame_header FT_BlockRead b 0 0 (length ws)) (tl (ctx_input c)) c"
  let ?d = "part_copied dynamicSpan_update (length ws) ?b"
  have inp: "take (length ws) (tl (ctx_input c)) = ws" "length ws \<le> length (tl (ctx_input c))"
    using str by (simp_all add: streaming_def Let_def)
  have "event_ctx S ev mds mi ?d" using ctx inp(2) by (intro event_ctx_copied) simp_all
  then have ctx': "event_ctx S ev mds mi c'"
    by (simp add: c'_def block_copied_def event_ctx_def wb_used_def Let_def)
  have mi: "nat (moduleIndex (ctx_state ?b)) < length (readoutDataSpans (ctx_state ?b))"
    using event_ctx_facts(4,5) [OF ctx(1)] ctx(2) by simp
  have used: "wb_used (ctx_state c) = length a + length p0 + length d0" by (simp add: wb_used_def wb)
  have "cur_spans (ctx_state c') = cur_spans (ctx_state ?d)"
    by (simp add: c'_def block_copied_def cur_spans_def)
  then have "records (length a) (length p0) (length (d0 @ ws)) 0 (cur_spans (ctx_state c'))"
    using records_grow(2) [OF rec, of "length ws"] spans_part_copied(2) [OF mi, of dynamicSpan_update "length ws"]
    by (simp add: used)
  moreover have "wb_words (workBuffer (ctx_state c')) = a @ p0 @ d0 @ ws"
    using inp(1) by (simp add: c'_def block_copied_def wb)
  ultimately show "module_at S crate ev mds L rest mi cur later p0 (d0 @ ws) [] c'"
    using ctx(2) ctx' read_block(2) [OF str ctx(1)] unfolding module_at_def c'_def [symmetric] by simp
  show "groupParseState (ctx_state c') = groupParseState (ctx_state c)"
    by (simp add: c'_def block_copied_def)
qed

lemma trim_2eSST_id:
  assumes at: "module_at S crate ev mds L rest mi cur later (prefix_view (mds ! mi)) (dynamic_view (mds ! mi)) [] c"
    and fits: "fits (S ! ev ! mi) (mds ! mi)"
  shows "trim_2eSST c = (c, Next)"
proof -
  let ?sp = "dynamicSpan (cur_spans (ctx_state c))" and ?p = "prefix_view (mds ! mi)" and ?d = "dynamic_view (mds ! mi)"
  from at obtain a where wb: "wb_words (workBuffer (ctx_state c)) = a @ ?p @ ?d"
    and rec: "records (length a) (length ?p) (length ?d) 0 (cur_spans (ctx_state c))"
    by (auto simp: module_at_def)
  have "span_words (ctx_state c) ?sp = ?d"
    using rec by (cases "?d = []") (simp_all add: span_words_def records_def wb)
  moreover have "\<not> wb_used (ctx_state c) < sp_offset ?sp + sp_size ?sp"
    using rec by (simp add: wb_used_def wb records_def)
  ultimately show ?thesis
    using fits module_at_sizes(4) [OF at] by (simp add: trim_2eSST_def fits_def Let_def)
qed

lemma dynamic_complete_goes_on:
  assumes at: "module_at S crate ev mds L rest mi cur later (prefix_view (mds ! mi)) (dynamic_view (mds ! mi)) [] c"
    and fit: "list_all2 fits (S ! ev) mds"
    and str: "cur @ concat later = map Single (suffix_view (mds ! mi)) @ others" "module_stream (drop (Suc mi) mds) others"
  shows "goes_on S crate ev mds L rest (and_then (trim_2eSST c)
     (\<lambda>c. if suffixLen (cur_parts (ctx_state c)) = 0 then (upd_state module_done c, Next)
          else (upd_state (\<lambda>st. st\<lparr>groupParseState := Suffix\<rparr>) c, Continue)))"
proof -
  let ?md = "mds ! mi" and ?parts = "S ! ev ! mi"
  have "mi < length (S ! ev)" using at by (simp add: module_at_def)
  then have fits: "fits ?parts ?md" using fit by (simp add: list_all2_nthD)
  note views = fits_views [OF fits] and trim = trim_2eSST_id [OF at fits]
  show ?thesis
  proof (cases "suffix_view ?md = []")
    case True
    then have "module_read S crate ev mds L rest mi cur later c"
      using at str by (auto simp: module_at_def module_read_def)
    then have "between S crate ev mds L rest (upd_state module_done c)"
      using fit module_read_done unfolding between_def by blast
    moreover have "suffixLen ?parts = 0" using views(2) True by (simp add: unat_eq_0)
    ultimately show ?thesis using trim module_at_sizes(4) [OF at] by simp
  next
    case False
    then have "pending ?md Suffix (prefix_view ?md) (dynamic_view ?md) [] (map Single (suffix_view ?md))"
      by (intro pending.suffix [of _ "[]"]) simp_all
    then have "partway S crate ev mds L rest (upd_state (\<lambda>st. st\<lparr>groupParseState := Suffix\<rparr>) c)"
      unfolding partway_iff using at str
      by (intro exI [of _ mi] exI [of _ cur] exI [of _ later] exI conjI) simp_all
    moreover have "suffixLen ?parts \<noteq> 0" using views(2) False by auto
    ultimately show ?thesis using trim module_at_sizes(4) [OF at] by simp
  qed
qed

lemma parse_dynamic_goes_on:
  assumes at: "module_at S crate ev mds L rest mi cur later p0 d0 s0 c" and fit: "list_all2 fits (S ! ev) mds"
    and pend: "pending (mds ! mi) Dynamic p0 d0 s0 segs" "groupParseState (ctx_state c) = Dynamic"
    and str: "cur @ concat later = segs @ others" "module_stream (drop (Suc mi) mds) others" and "cur \<noteq> []"
  shows "goes_on S crate ev mds L rest (parse_dynamic c)"
proof -
  let ?md = "mds ! mi" and ?parts = "S ! ev ! mi"
  from pend(1) obtain d blocks where p0: "p0 = prefix_view ?md" and s0: "s0 = []"
    and d: "dynamic_view ?md = d0 @ d" "block_segments d blocks" "md_hasDynamic ?md"
    and segs: "segs = blocks @ map Single (suffix_view ?md)" by (auto elim: pending_DynamicE)
  from d(2) obtain b ws blocks' d' where blocks: "blocks = BlockFrame b ws # blocks'" "d = ws @ d'"
    "if b then block_segments d' blocks' else blocks' = [] \<and> d' = []" by (rule block_segments_Cons)
  with str(1) segs \<open>cur \<noteq> []\<close> obtain cur' where cur: "cur = BlockFrame b ws # cur'"
    and rest: "cur' @ concat later = (blocks' @ map Single (suffix_view ?md)) @ others"
    by (cases cur) auto
  have mi: "event_ctx S ev mds mi c" "mi < length (S ! ev)" using at by (simp_all add: module_at_def)
  define c' where "c' = block_copied (frame_header FT_BlockRead b 0 0 (length ws)) (tl (ctx_input c)) (length ws) c"
  have str': "streaming crate ev L rest (BlockFrame b ws # cur') later c" using at cur by (simp add: module_at_def)
  note read = read_block(1,3) [OF str' mi(1), folded c'_def]
  have at': "module_at S crate ev mds L rest mi cur' later p0 (d0 @ ws) [] c'"
    and ph: "groupParseState (ctx_state c') = Dynamic"
    using module_at_block [OF at [unfolded cur s0], folded c'_def] pend(2) by simp_all
  show ?thesis
  proof (cases b)
    case True
    then have "pending ?md Dynamic p0 (d0 @ ws) [] (blocks' @ map Single (suffix_view ?md))"
      unfolding p0 using d blocks by (intro pending.dynamic [of _ _ d']) simp_all
    then have "partway S crate ev mds L rest c'"
      unfolding partway_iff ph [symmetric] using at' rest str(2) by blast
    with read True show ?thesis by (simp add: parse_dynamic_def)
  next
    case False
    with d blocks have "dynamic_view ?md = d0 @ ws" "cur' @ concat later = map Single (suffix_view ?md) @ others"
      using rest by simp_all
    with dynamic_complete_goes_on [of S crate ev mds L rest mi cur' later c' others] at' p0 fit str(2) read False
    show ?thesis by (simp add: parse_dynamic_def)
  qed
qed

section \<open>One iteration within an event\<close>

lemma pending_not_empty:
  assumes "pending md ph p0 d0 s0 segs" "fits parts md"
  shows "\<not> mrs_is_empty parts" "segs \<noteq> []"
proof -
  note views = fits_views [OF assms(2)]
  have dyn: "md_hasDynamic md = hasDynamic parts" using assms(2) by (simp add: fits_def)
  show "\<not> mrs_is_empty parts"
    using assms(1) views(1,2) dyn by (cases rule: pending.cases) (auto simp: mrs_is_empty_def)
  show "segs \<noteq> []"
    using assms(1) by (cases rule: pending.cases) (auto simp: block_segments_def)
qed

lemma partway_not_empty:
  assumes "partway S crate ev mds L rest c" "list_all2 fits (S ! ev) mds"
  shows "\<not> mrs_is_empty (cur_parts (ctx_state c))" "moduleIndex (ctx_state c) < int (length (S ! ev))"
    "0 \<le> moduleIndex (ctx_state c)" "moduleReadoutInfos (ctx_state c) = S ! ev"
    "int (length (S ! ev)) \<le> int (length (readoutDataSpans (ctx_state c)))"
    "cur_parts (ctx_state c) = S ! ev ! nat (moduleIndex (ctx_state c))"
proof -
  from assms(1) obtain mi cur later p0 d0 s0 segs where
    at: "module_at S crate ev mds L rest mi cur later p0 d0 s0 c" and
    p: "pending (mds ! mi) (groupParseState (ctx_state c)) p0 d0 s0 segs" by (auto simp: partway_iff)
  from at have mi: "mi < length (S ! ev)" "event_ctx S ev mds mi c" by (simp_all add: module_at_def)
  with assms(2) have "fits (S ! ev ! mi) (mds ! mi)" by (simp add: list_all2_nthD)
  with p have "\<not> mrs_is_empty (S ! ev ! mi)" by (rule pending_not_empty)
  then show "\<not> mrs_is_empty (cur_parts (ctx_state c))" "moduleIndex (ctx_state c) < int (length (S ! ev))"
    "0 \<le> moduleIndex (ctx_state c)" "moduleReadoutInfos (ctx_state c) = S ! ev"
    "int (length (S ! ev)) \<le> int (length (readoutDataSpans (ctx_state c)))"
    "cur_parts (ctx_state c) = S ! ev ! nat (moduleIndex (ctx_state c))"
    using event_ctx_facts [OF mi(2)] mi(1) by simp_all
qed

lemma parse_module_goes_on:
  assumes "partway S crate ev mds L rest c" "list_all2 fits (S ! ev) mds"
    and "fps_wordsLeft (curStackFrame (ctx_state c)) \<noteq> 0"
  shows "goes_on S crate ev mds L rest (parse_module c)"
proof -
  from assms(1) obtain mi cur later p0 d0 s0 segs others where
    at: "module_at S crate ev mds L rest mi cur later p0 d0 s0 c" and
    p: "pending (mds ! mi) (groupParseState (ctx_state c)) p0 d0 s0 segs" and
    str: "cur @ concat later = segs @ others" "module_stream (drop (Suc mi) mds) others"
    by (auto simp: partway_iff)
  have "cur \<noteq> []" using at assms(3) by (auto simp: module_at_def streaming_def Let_def)
  note steps = parse_prefix_goes_on [OF at assms(2) _ _ str] parse_suffix_goes_on [OF at assms(2) _ _ str]
    parse_dynamic_goes_on [OF at assms(2) _ _ str this]
  show ?thesis
    using steps p partway_not_empty [OF assms(1,2)]
    by (cases "groupParseState (ctx_state c)") (simp_all add: parse_module_def)
qed

lemma module_stream_Cons:
  assumes "module_stream (md # mds) X"
  obtains ms others where "X = ms @ others" "module_segments md ms" "module_stream mds others"
proof -
  from assms obtain ms mss where "X = ms @ concat mss" "module_segments md ms" "list_all2 module_segments mds mss"
    by (auto simp: module_stream_def list_all2_Cons1)
  then show ?thesis by (intro that [of ms "concat mss"]) (auto simp: module_stream_def)
qed

lemma between_start:
  assumes b: "between_at S crate ev mds L rest mi c" and "list_all2 fits (S ! ev) mds"
    and mi: "mi < length (S ! ev)" "\<not> mrs_is_empty (S ! ev ! mi)"
  shows "partway S crate ev mds L rest c"
proof -
  let ?md = "mds ! mi"
  from b obtain cur later where ctx: "event_ctx S ev mds mi c" and str: "streaming crate ev L rest cur later c"
    "module_stream (drop mi mds) (cur @ concat later)" and ph: "groupParseState (ctx_state c) = Prefix"
    and sp: "readoutDataSpans (ctx_state c) ! mi = ModuleReadoutSpans_init"
    using mi(1) by (auto simp: between_at_def)
  have fits: "fits (S ! ev ! mi) ?md" and len: "mi < length mds"
    using assms(2) mi(1) by (simp_all add: list_all2_nthD list_all2_lengthD)
  note views = fits_views [OF fits]
  from str(2) len obtain ms others where X: "cur @ concat later = ms @ others" "module_segments ?md ms"
    "module_stream (drop (Suc mi) mds) others" by (auto simp flip: Cons_nth_drop_Suc elim: module_stream_Cons)
  from X(2) obtain blocks where ms: "ms = map Single (prefix_view ?md) @ blocks @ map Single (suffix_view ?md)"
    "if md_hasDynamic ?md then block_segments (dynamic_view ?md) blocks else blocks = []"
    by (auto simp: module_segments_def)
  have "ms \<noteq> []"
    using ms mi(2) views(1,2) fits by (auto simp: mrs_is_empty_def fits_def block_segments_def unat_eq_0)
  then have "pending ?md Prefix [] [] [] ms" using ms by (intro pending.prefix [of _ _ "prefix_view ?md" _ blocks]) simp_all
  moreover have "module_at S crate ev mds L rest mi cur later [] [] [] c"
    using ctx mi(1) str(1) sp event_ctx_facts(3) [OF ctx] by (simp add: module_at_def)
  ultimately show ?thesis unfolding partway_iff ph [symmetric] using X(1,3) by blast
qed

lemma between_skip:
  assumes b: "between_at S crate ev mds L rest mi c" and fit: "list_all2 fits (S ! ev) mds"
    and mi: "mi < length (S ! ev)" "mrs_is_empty (S ! ev ! mi)"
  shows "between_at S crate ev mds L rest (Suc mi) (upd_state (\<lambda>st. st\<lparr>moduleIndex := moduleIndex st + 1\<rparr>) c)"
proof -
  let ?md = "mds ! mi"
  from b obtain cur later where ctx: "event_ctx S ev mds mi c" and str: "streaming crate ev L rest cur later c"
    "module_stream (drop mi mds) (cur @ concat later)" and ph: "groupParseState (ctx_state c) = Prefix"
    and sp: "readoutDataSpans (ctx_state c) ! mi = ModuleReadoutSpans_init"
    using mi(1) by (auto simp: between_at_def)
  have fits: "fits (S ! ev ! mi) ?md" and len: "mi < length mds"
    using fit mi(1) by (simp_all add: list_all2_nthD list_all2_lengthD)
  have views: "prefix_view ?md = []" "dynamic_view ?md = []" "suffix_view ?md = []" "\<not> md_hasDynamic ?md"
    using fits_views(1-3) [OF fits] fits mi(2) by (auto simp: mrs_is_empty_def fits_def size_consistency_check_def)
  from str(2) len obtain ms others where X: "cur @ concat later = ms @ others" "module_segments ?md ms"
    "module_stream (drop (Suc mi) mds) others" by (auto simp flip: Cons_nth_drop_Suc elim: module_stream_Cons)
  with views have "module_stream (drop (Suc mi) mds) (cur @ concat later)" by (auto simp: module_segments_def)
  then have "module_read S crate ev mds L rest mi cur later c"
    using ctx mi(1) str(1) sp views event_ctx_facts(3) [OF ctx] by (simp add: module_read_def)
  moreover have "upd_state module_done c = upd_state (\<lambda>st. st\<lparr>moduleIndex := moduleIndex st + 1\<rparr>) c"
    using ph by (simp add: upd_state_def module_done_def)
  ultimately show ?thesis using module_read_done fit by fastforce
qed

text \<open>The event has been delivered.\<close>

definition ready :: "parser_ctx \<Rightarrow> bool" where
  "ready c \<longleftrightarrow> idle c \<and> fps_wordsLeft (curBlockFrame (ctx_state c)) = 0"

definition delivered :: "callback list \<Rightarrow> u32 list \<Rightarrow> parser_ctx \<Rightarrow> bool" where
  "delivered L rest c \<longleftrightarrow> ready c \<and> ctx_log c = L \<and> ctx_input c = rest"

lemma ready_clear [simp]: "ready (upd_state parser_clear_event_state c)"
  by (simp add: ready_def parser_clear_event_state_def idle_def)

lemma result_mapM_nth:
  "length ys = length xs \<Longrightarrow> (\<And>i. i < length xs \<Longrightarrow> f (xs ! i) = Inr (ys ! i)) \<Longrightarrow> result_mapM f xs = Inr ys"
proof (induction xs arbitrary: ys)
  case (Cons x xs)
  then obtain y ys' where ys: "ys = y # ys'" by (cases ys) auto
  have "f x = Inr y" using Cons.prems(2) [of 0] ys by simp
  moreover have "result_mapM f xs = Inr ys'"
    using Cons.prems ys by (intro Cons.IH) fastforce+
  ultimately show ?case by (simp add: ys)
qed simp

lemma flush_delivers:
  assumes b: "between_at S crate ev mds L rest (length (S ! ev)) c" and fit: "list_all2 fits (S ! ev) mds"
  shows "\<exists>c'. flush_event c = (c', Next) \<and> delivered (L @ [EventData (of_nat crate) (int ev) mds]) rest c'"
proof -
  from b obtain cur later where ctx: "event_ctx S ev mds (length (S ! ev)) c"
    and str: "streaming crate ev L rest cur later c" "module_stream (drop (length (S ! ev)) mds) (cur @ concat later)"
    by (auto simp: between_at_def)
  have "length mds = length (S ! ev)" using fit by (simp add: list_all2_lengthD)
  with str have "cur = []" "later = []"
    by (auto simp: module_stream_def streaming_def nonempty_frames_def Let_def)
  with str(1) have inp: "ctx_input c = rest" "ctx_log c = L" "crateId (ctx_state c) = of_nat crate"
    by (simp_all add: streaming_def Let_def)
  note facts = event_ctx_facts [OF ctx]
  have "result_mapM (\<lambda>(spans, parts). module_data (wb_words (workBuffer (ctx_state c))) spans parts)
      (zip (readoutDataSpans (ctx_state c)) (S ! ev)) = Inr mds"
    using ctx by (intro result_mapM_nth) (auto simp: event_ctx_def Let_def)
  then show ?thesis
    using ctx facts inp
    by (simp add: flush_event_def event_ctx_def delivered_def Let_def)
qed

lemma finish_partway:
  assumes "partway S crate ev mds L rest c" "list_all2 fits (S ! ev) mds"
  shows "finish_iteration n c = check_advance n c"
proof -
  note facts = partway_not_empty [OF assms]
  have "skip_empty_modules (S ! ev) (moduleIndex (ctx_state c)) = moduleIndex (ctx_state c)"
    using facts by (simp add: skip_empty_modules.simps)
  then have "upd_state (\<lambda>st. st\<lparr>moduleIndex := skip_empty_modules (moduleReadoutInfos st) (moduleIndex st)\<rparr>) c = c"
    using facts(4) by (simp add: upd_state_def)
  with facts show ?thesis by (simp add: finish_iteration_def flush_event_def Let_def)
qed

lemma skip_between:
  assumes "between_at S crate ev mds L rest mi c" "list_all2 fits (S ! ev) mds"
  shows "\<exists>mi'. between_at S crate ev mds L rest mi'
      (upd_state (\<lambda>st. st\<lparr>moduleIndex := skip_empty_modules (moduleReadoutInfos st) (moduleIndex st)\<rparr>) c) \<and>
     (mi' < length (S ! ev) \<longrightarrow> \<not> mrs_is_empty (S ! ev ! mi'))"
  using assms
proof (induction "length (S ! ev) - mi" arbitrary: mi c)
  case 0
  then have mi: "mi = length (S ! ev)" and ctx: "event_ctx S ev mds mi c" by (auto simp: between_at_def)
  then have "upd_state (\<lambda>st. st\<lparr>moduleIndex := skip_empty_modules (moduleReadoutInfos st) (moduleIndex st)\<rparr>) c = c"
    using event_ctx_facts [OF ctx] by (simp add: upd_state_def skip_empty_modules.simps)
  with 0 mi show ?case by auto
next
  case (Suc k)
  let ?skip = "\<lambda>st. st\<lparr>moduleIndex := skip_empty_modules (moduleReadoutInfos st) (moduleIndex st)\<rparr>"
  from Suc have mi: "mi < length (S ! ev)" and ctx: "event_ctx S ev mds mi c" by (simp_all add: between_at_def)
  note facts = event_ctx_facts [OF ctx]
  show ?case
  proof (cases "mrs_is_empty (S ! ev ! mi)")
    case True
    let ?c = "upd_state (\<lambda>st. st\<lparr>moduleIndex := moduleIndex st + 1\<rparr>) c"
    have "upd_state ?skip c = upd_state ?skip ?c"
      using True mi facts skip_empty_modules.simps [of "S ! ev" "int mi"]
      by (simp add: upd_state_def moduleReadoutInfos_def)
    with Suc.hyps(1) [OF _ between_skip [OF Suc.prems mi True] Suc.prems(2)] Suc.hyps(2) show ?thesis by simp
  next
    case False
    then have "upd_state ?skip c = c"
      using mi facts by (simp add: upd_state_def skip_empty_modules.simps)
    with False Suc.prems(1) show ?thesis by auto
  qed
qed

definition step_done :: "ReadoutStructure \<Rightarrow> nat \<Rightarrow> nat \<Rightarrow> ModuleData list \<Rightarrow> callback list \<Rightarrow> u32 list \<Rightarrow>
    parser_ctx \<Rightarrow> bool" where
  "step_done S crate ev mds L rest c \<longleftrightarrow> partway S crate ev mds L rest c \<or>
     delivered (L @ [EventData (of_nat crate) (int ev) mds]) rest c"

lemma finish_between:
  assumes "between S crate ev mds L rest c" "list_all2 fits (S ! ev) mds"
  shows "\<exists>c'. finish_iteration n c = check_advance n c' \<and> step_done S crate ev mds L rest c'"
proof -
  let ?d = "upd_state (\<lambda>st. st\<lparr>moduleIndex := skip_empty_modules (moduleReadoutInfos st) (moduleIndex st)\<rparr>) c"
  from assms obtain mi where b: "between_at S crate ev mds L rest mi ?d"
    and ne: "mi < length (S ! ev) \<Longrightarrow> \<not> mrs_is_empty (S ! ev ! mi)"
    using skip_between unfolding between_def by blast
  show ?thesis
  proof (cases "mi < length (S ! ev)")
    case True
    then have p: "partway S crate ev mds L rest ?d" using between_start [OF b assms(2)] ne by blast
    then have "flush_event ?d = (?d, Next)"
      using partway_not_empty [OF p assms(2)] by (simp add: flush_event_def Let_def)
    with p show ?thesis by (intro exI [of _ ?d]) (simp add: finish_iteration_def step_done_def)
  next
    case False
    with b have "mi = length (S ! ev)" by (simp add: between_at_def)
    with b flush_delivers [of S crate ev mds L rest ?d] assms(2) obtain c' where
      "flush_event ?d = (c', Next)" "delivered (L @ [EventData (of_nat crate) (int ev) mds]) rest c'" by blast
    then show ?thesis by (intro exI [of _ c']) (simp add: finish_iteration_def step_done_def)
  qed
qed

lemma event_part_partway:
  assumes "partway S crate ev mds L rest c" "list_all2 fits (S ! ev) mds"
    and "fps_wordsLeft (curStackFrame (ctx_state c)) \<noteq> 0"
  shows "\<exists>c'. step_done S crate ev mds L rest c' \<and>
     (event_part n c = (c', Continue) \<or> event_part n c = check_advance n c')"
proof -
  obtain d out where pm: "parse_module c = (d, out)" by (cases "parse_module c")
  from assms(1) obtain mi where "event_ctx S ev mds mi c" "\<exists>cur later. streaming crate ev L rest cur later c"
    by (auto simp: partway_def)
  then have ch: "check_event c = (c, Next)"
    using partway_not_empty [OF assms(1,2)]
    by (auto simp: check_event_def event_ctx_def streaming_def Let_def)
  from parse_module_goes_on [OF assms] pm consider "out = Continue" "partway S crate ev mds L rest d"
    | "out = Next" "partway S crate ev mds L rest d" | "out = Next" "between S crate ev mds L rest d"
    by (auto simp: goes_on_def)
  then show ?thesis
  proof cases
    case 1
    with ch pm show ?thesis by (intro exI [of _ d]) (simp add: event_part_def step_done_def)
  next
    case 2
    with ch pm finish_partway [OF 2(2) assms(2)] show ?thesis
      by (intro exI [of _ d]) (simp add: event_part_def step_done_def)
  next
    case 3
    with ch pm finish_between [OF 3(2) assms(2)] show ?thesis by (auto simp: event_part_def)
  qed
qed

section \<open>Opening frames\<close>

lemma segment_words_not_Nil: "segment_words x \<noteq> []"
  by (cases x) simp_all

lemma seg_len_pos: "segs \<noteq> [] \<Longrightarrow> 0 < seg_len segs"
  using segment_words_not_Nil by (cases segs) simp_all

lemma wordsLeft_seg_len:
  assumes "segs \<noteq> []" "seg_len segs < 2 ^ 13"
  shows "(of_nat (seg_len segs) :: u16) \<noteq> 0"
proof -
  have "unat (of_nat (seg_len segs) :: u16) = seg_len segs"
    using assms(2) by (simp add: unat_of_nat take_bit_nat_eq_self)
  then show ?thesis using seg_len_pos [OF assms(1)] by auto
qed

lemma stack_of_event: "ev < 15 \<Longrightarrow> uint (of_nat (ev + 1) :: u8) - 1 = int ev"
  by (simp only: uint_nat unat_of_nat) (simp add: take_bit_nat_eq_self)

lemma frame_opened_simps [simp]:
  "event_ctx S ev mds mi (set_input i (upd_state (curStackFrame_update f) c)) = event_ctx S ev mds mi c"
  "cur_spans (curStackFrame_update f st) = cur_spans st"
  by (simp_all add: event_ctx_def cur_spans_def wb_used_def Let_def)

lemma open_next_frame:
  assumes st: "streaming crate ev L rest [] (f # fs) c" and ctx: "event_ctx S ev mds mi c"
  defines "h \<equiv> frame_header FT_StackContinuation (fs \<noteq> []) (ev + 1) crate (seg_len f)"
  defines "c' \<equiv> set_input (tl (ctx_input c)) (upd_state (\<lambda>st. st\<lparr>curStackFrame := FrameParseState_of h\<rparr>) c)"
  shows "open_stack_frame e c = (c', Next)" "streaming crate ev L rest f fs c'"
    "fps_wordsLeft (curStackFrame (ctx_state c')) \<noteq> 0"
proof -
  let ?i = "segments_words f @ later_words crate ev fs @ rest"
  have inp: "ctx_input c = h # ?i" and f: "f \<noteq> []" "seg_len f < 2 ^ 13" "nonempty_frames fs"
    and bounds: "crate < 8" "ev < 15" and blk: "fps_wordsLeft (curBlockFrame (ctx_state c)) = 0"
    and log: "ctx_log c = L" and left: "fps_wordsLeft (curStackFrame (ctx_state c)) = 0"
    using st by (simp_all add: streaming_def nonempty_frames_def h_def Let_def)
  have hok: "header_ok (ev + 1) crate (seg_len f)" using f(2) bounds by (simp add: header_ok_def)
  have fields: "get_frame_type h = FT_StackContinuation" "fi_len (extract_frame_info h) = of_nat (seg_len f)"
    "uint (fi_stack (extract_frame_info h)) - 1 = int ev" "fi_ctrl (extract_frame_info h) = of_nat crate"
    unfolding h_def
    using frame_header_type [OF hok] frame_header_len [OF hok] frame_header_fields(1,2) [OF hok]
      stack_of_event [OF bounds(2)] by simp_all
  have nz: "(of_nat (seg_len f) :: u16) \<noteq> 0" using f by (intro wordsLeft_seg_len)
  have "open_stack_frame e c = open_continuation c"
    using left blk inp fields(1) ctx
    by (simp add: open_stack_frame_def try_handle_system_event_def is_event_in_progress_def event_ctx_def Let_def)
  also have "\<dots> = (c', Next)"
    using inp fields nz ctx unfolding c'_def
    by (simp add: open_continuation_def event_ctx_def fi_type_eq wordsLeft_frame Let_def)
  finally show "open_stack_frame e c = (c', Next)" .
  show "fps_wordsLeft (curStackFrame (ctx_state c')) \<noteq> 0"
    using nz by (simp add: c'_def wordsLeft_frame fields)
  show "streaming crate ev L rest f fs c'"
    using f bounds blk log nz fields inp unfolding c'_def
    by (simp add: streaming_def crateId_def wordsLeft_frame get_frame_length_zero Let_def)
qed

lemma open_partway:
  assumes p: "partway S crate ev mds L rest c" and fit: "list_all2 fits (S ! ev) mds"
  shows "\<exists>c'. open_stack_frame e c = (c', Next) \<and> partway S crate ev mds L rest c' \<and>
     fps_wordsLeft (curStackFrame (ctx_state c')) \<noteq> 0"
proof (cases "fps_wordsLeft (curStackFrame (ctx_state c)) = 0")
  case True
  from p obtain mi cur later p0 d0 s0 segs others where
    at: "module_at S crate ev mds L rest mi cur later p0 d0 s0 c" and
    pend: "pending (mds ! mi) (groupParseState (ctx_state c)) p0 d0 s0 segs" and
    str: "cur @ concat later = segs @ others" "module_stream (drop (Suc mi) mds) others"
    by (auto simp: partway_iff)
  from at have ctx: "event_ctx S ev mds mi c" "mi < length (S ! ev)" and st: "streaming crate ev L rest cur later c"
    by (simp_all add: module_at_def)
  with True have cur: "cur = []" using wordsLeft_seg_len [of cur] by (auto simp: streaming_def Let_def)
  have "fits (S ! ev ! mi) (mds ! mi)" using fit ctx(2) by (simp add: list_all2_nthD)
  with pend have "segs \<noteq> []" by (rule pending_not_empty)
  with str(1) cur obtain f fs where later: "later = f # fs" by (cases later) auto
  let ?h = "frame_header FT_StackContinuation (fs \<noteq> []) (ev + 1) crate (seg_len f)"
  let ?c = "set_input (tl (ctx_input c)) (upd_state (\<lambda>st. st\<lparr>curStackFrame := FrameParseState_of ?h\<rparr>) c)"
  note opened = open_next_frame [OF st [unfolded cur later] ctx(1)]
  have "module_at S crate ev mds L rest mi f fs p0 d0 s0 ?c"
    using at opened(2) by (simp add: module_at_def)
  then have "partway S crate ev mds L rest ?c"
    unfolding partway_iff using pend str cur later
    by (intro exI [of _ mi] exI [of _ f] exI [of _ fs] exI conjI) simp_all
  with opened show ?thesis by blast
next
  case False
  then show ?thesis using p by (intro exI [of _ c]) (simp add: open_stack_frame_def Let_def)
qed

lemma iteration_partway:
  assumes "partway S crate ev mds L rest c" "list_all2 fits (S ! ev) mds" "head_ok S c" "ctx_input c \<noteq> []"
  shows "\<exists>c'. iteration e c = (c', Continue) \<and> step_done S crate ev mds L rest c'"
proof -
  from open_partway [OF assms(1,2)] obtain d where d: "open_stack_frame e c = (d, Next)"
    "partway S crate ev mds L rest d" "fps_wordsLeft (curStackFrame (ctx_state d)) \<noteq> 0" by blast
  from event_part_partway [OF d(2) assms(2) d(3), of "length (ctx_input c)"] obtain c' where
    c': "step_done S crate ev mds L rest c'" "iteration e c = (c', Continue) \<or> iteration e c = check_advance (length (ctx_input c)) c'"
    using d(1) by (auto simp: iteration_def)
  moreover have "sound S (iteration e c)" using assms(3,4) by (rule iteration_sound)
  ultimately show ?thesis by (auto simp: check_advance_def not_advancing_def split: if_splits)
qed

lemma partway_input: "partway S crate ev mds L rest c \<Longrightarrow> list_all2 fits (S ! ev) mds \<Longrightarrow> ctx_input c \<noteq> []"
proof -
  assume p: "partway S crate ev mds L rest c" and fit: "list_all2 fits (S ! ev) mds"
  from p obtain mi cur later p0 d0 s0 segs others where
    at: "module_at S crate ev mds L rest mi cur later p0 d0 s0 c" and
    pend: "pending (mds ! mi) (groupParseState (ctx_state c)) p0 d0 s0 segs" and
    str: "cur @ concat later = segs @ others" by (auto simp: partway_iff)
  have "fits (S ! ev ! mi) (mds ! mi)" using fit at by (simp add: module_at_def list_all2_nthD)
  with pend have "segs \<noteq> []" by (rule pending_not_empty)
  with str have "cur \<noteq> [] \<or> later \<noteq> []" by auto
  moreover have "ctx_input c = segments_words cur @ later_words crate ev later @ rest"
    using at by (simp add: module_at_def streaming_def Let_def)
  ultimately show ?thesis using seg_len_pos [of cur] by (cases later) auto
qed

lemma parse_partway:
  assumes "partway S crate ev mds L rest c" "list_all2 fits (S ! ev) mds" "head_ok S c"
  shows "\<exists>c'. parse_readout_contents e c = parse_readout_contents e c' \<and> head_ok S c' \<and>
     delivered (L @ [EventData (of_nat crate) (int ev) mds]) rest c'"
  using assms
proof (induction e c rule: parse_readout_contents.induct)
  case (1 e c)
  have ne: "ctx_input c \<noteq> []" using partway_input "1.prems" by blast
  from iteration_partway [OF "1.prems" ne] obtain d where d: "iteration e c = (d, Continue)"
    "step_done S crate ev mds L rest d" by blast
  have eq: "parse_readout_contents e c = parse_readout_contents e d"
    using ne d(1) by (simp add: parse_readout_contents.simps [of e c])
  have head: "head_ok S d" using iteration_sound [OF "1.prems"(3) ne, of e] d(1) by simp
  from d(2) show ?case
    using "1.IH" [OF ne d(1) [symmetric] _ _ "1.prems"(2) head] eq head
    unfolding step_done_def by auto
qed

section \<open>The start of an event\<close>

lemma later_words_eq:
  "later_words crate ev (fs @ [f]) =
   concat (map (stack_frame_words crate ev 1 True) fs) @ stack_frame_words crate ev 1 False f"
  by (induction fs) (simp_all add: stack_frame_words_def)

lemma event_words_first:
  assumes "fs @ [cur] = f # later"
  shows "event_words crate ev fs cur =
     frame_header FT_StackFrame (later \<noteq> []) (ev + 1) crate (seg_len f) # segments_words f @ later_words crate ev later"
proof (cases fs)
  case Nil
  with assms show ?thesis by (simp add: event_words_def stack_frame_words_def)
next
  case (Cons g gs)
  with assms have eq: "g = f" "later = gs @ [cur]" by auto
  let ?F = "stack_frame_words crate ev"
  have F: "?F (Suc i) = ?F 1" for i
    by (intro ext) (simp add: stack_frame_words_def)
  have "map (\<lambda>i. ?F i True (fs ! i)) [0..<length fs] = ?F 0 True f # map (\<lambda>i. ?F (Suc i) True (gs ! i)) [0..<length gs]"
    using Cons eq by (simp add: upt_conv_Cons del: upt_Suc flip: map_Suc_upt)
  also have "map (\<lambda>i. ?F (Suc i) True (gs ! i)) [0..<length gs] = map (?F 1 True) (map ((!) gs) [0..<length gs])"
    unfolding F by simp
  also have "\<dots> = map (?F 1 True) gs" by (simp only: map_nth)
  finally have closed: "closed_words crate ev fs = ?F 0 True f @ concat (map (?F 1 True) gs)"
    by (simp add: closed_words_def)
  have "?F (length fs) False cur = ?F 1 False cur" using Cons F [of "length gs"] by simp
  then show ?thesis
    unfolding eq(2) later_words_eq event_words_def closed by (simp add: stack_frame_words_def)
qed

lemma open_first_frame:
  assumes inp: "ctx_input c = frame_header FT_StackFrame b (ev + 1) crate (seg_len f) # i"
    and rdy: "ready c" "base_ok S c" and bounds: "seg_len f < 2 ^ 13" "crate < 8" "ev < 15" "ev < length S"
  shows "\<exists>c'. open_stack_frame e c = (c', Next) \<and> ctx_input c' = i \<and> ctx_log c' = ctx_log c \<and>
     fps_wordsLeft (curBlockFrame (ctx_state c')) = 0 \<and> fps_header (curStackFrame (ctx_state c')) = hd (ctx_input c) \<and>
     fps_wordsLeft (curStackFrame (ctx_state c')) = of_nat (seg_len f) \<and> crateId (ctx_state c') = of_nat crate \<and>
     groupParseState (ctx_state c') = Prefix \<and>
     (length mds = length (S ! ev) \<longrightarrow> event_ctx S ev mds 0 c') \<and>
     (0 < length (S ! ev) \<longrightarrow> readoutDataSpans (ctx_state c') ! 0 = ModuleReadoutSpans_init)"
proof -
  define h where "h = frame_header FT_StackFrame b (ev + 1) crate (seg_len f)"
  let ?st = "fst (parser_begin_event h (ctx_state c))"
  let ?c = "set_input i (upd_state (\<lambda>_. ?st) (upd_counters (\<lambda>cn. cn\<lparr>unusedBytes := unusedBytes cn + 0\<rparr>) c))"
  have hok: "header_ok (ev + 1) crate (seg_len f)" using bounds by (simp add: header_ok_def)
  have inp: "ctx_input c = h # i" using inp by (simp add: h_def)
  have fields: "get_frame_type h = FT_StackFrame" "fi_len (extract_frame_info h) = of_nat (seg_len f)"
    "uint (fi_stack (extract_frame_info h)) - 1 = int ev" "fi_ctrl (extract_frame_info h) = of_nat crate"
    unfolding h_def
    using frame_header_type [OF hok] frame_header_len [OF hok] frame_header_fields(1,2) [OF hok]
      stack_of_event [OF bounds(3)] by simp_all
  have S: "readoutStructure (ctx_state c) = S" and len: "length (S ! ev) \<le> length (readoutDataSpans (ctx_state c))"
    "length (S ! ev) \<le> length (moduleDataBuffer (ctx_state c))"
    using rdy(2) bounds(4) by (simp_all add: base_ok_def list_all_length Let_def)
  have beg: "parser_begin_event h (ctx_state c) =
      ((ctx_state c)\<lparr>workBuffer := (workBuffer (ctx_state c))\<lparr>wb_words := []\<rparr>,
        readoutDataSpans := clear_readout_data_spans (readoutDataSpans (ctx_state c)),
        eventIndex := int ev, moduleIndex := 0, groupParseState := Prefix,
        curStackFrame := FrameParseState_of h, curBlockFrame := FrameParseState_none\<rparr>, Ok)"
    unfolding parser_begin_event_def fi_type_eq fields Let_def using bounds(4) S by simp
  have "open_event c = (?c, Next)"
    using inp fields(1) beg
    by (simp add: open_event_def find_stack_frame_header.simps [of _ "_ # _"] fi_type_eq Let_def)
  moreover have "open_stack_frame e c = open_event c"
    using rdy(1) inp fields(1)
    by (simp add: open_stack_frame_def ready_def idle_def try_handle_system_event_def is_event_in_progress_def Let_def)
  moreover have clr: "\<forall>j < length (S ! ev). clear_readout_data_spans (readoutDataSpans (ctx_state c)) ! j = ModuleReadoutSpans_init"
    "length (clear_readout_data_spans (readoutDataSpans (ctx_state c))) = length (readoutDataSpans (ctx_state c))"
    using len clear_nth by (simp_all add: clear_readout_data_spans_def)
  moreover have "length mds = length (S ! ev) \<longrightarrow> event_ctx S ev mds 0 ?c"
    using bounds(4) S len clr by (simp add: beg event_ctx_def wb_used_def Let_def)
  ultimately show ?thesis
    using inp fields frame_none [unfolded wordsLeft_frame]
    by (intro exI [of _ ?c]) (simp add: beg wordsLeft_frame crateId_def)
qed

lemma event_part_between:
  assumes b: "between_at S crate ev mds L rest 0 c" and fit: "list_all2 fits (S ! ev) mds"
    and left: "fps_wordsLeft (curStackFrame (ctx_state c)) \<noteq> 0" and "S ! ev \<noteq> []"
  shows "\<exists>c'. step_done S crate ev mds L rest c' \<and>
     (event_part n c = (c', Continue) \<or> event_part n c = check_advance n c')"
proof (cases "mrs_is_empty (S ! ev ! 0)")
  case True
  let ?c = "upd_state (\<lambda>st. st\<lparr>moduleIndex := moduleIndex st + 1\<rparr>) c"
  from b have ctx: "event_ctx S ev mds 0 c" and "\<exists>cur later. streaming crate ev L rest cur later c"
    by (auto simp: between_at_def)
  then have "check_event c = (c, Next)"
    using assms(4) event_ctx_facts [OF ctx] by (auto simp: check_event_def event_ctx_def streaming_def Let_def)
  moreover have "parse_module c = (?c, Next)"
    using True event_ctx_facts [OF ctx] by (simp add: parse_module_def)
  moreover have "between S crate ev mds L rest ?c"
    using between_skip [OF b fit] True assms(4) unfolding between_def by blast
  ultimately show ?thesis using finish_between [of S crate ev mds L rest ?c n] fit by (auto simp: event_part_def)
next
  case False
  then have "partway S crate ev mds L rest c" using between_start [OF b fit] assms(4) by simp
  then show ?thesis using event_part_partway fit left by blast
qed

text \<open>An event without data.\<close>

lemma fits_no_segments:
  assumes "fits parts md" "module_segments md []"
  shows "md = ModuleData_init"
proof -
  note views = fits_views [OF assms(1)]
  have v: "prefix_view md = []" "suffix_view md = []" "\<not> md_hasDynamic md"
    using assms(2) by (auto simp: module_segments_def block_segments_def split: if_splits)
  then have "md_dynamicSize md = 0" using assms(1) by (auto simp: fits_def size_consistency_check_def)
  with views(3) have "dynamic_view md = []" by simp
  with v views assms(1) \<open>md_dynamicSize md = 0\<close> show ?thesis
    by (simp add: ModuleData_init_def fits_def)
qed

lemma no_segments:
  assumes "module_stream mds []" "list_all2 fits infos mds"
  shows "mds = replicate (length infos) ModuleData_init"
proof -
  from assms(1) obtain mss where "list_all2 module_segments mds mss" "\<forall>ms \<in> set mss. ms = []"
    by (auto simp: module_stream_def)
  then have "\<forall>i < length mds. module_segments (mds ! i) []"
    by (metis list_all2_lengthD list_all2_nthD nth_mem)
  moreover have "length mds = length infos" "\<forall>i < length mds. fits (infos ! i) (mds ! i)"
    using assms(2) by (simp_all add: list_all2_conv_all_nth)
  ultimately show ?thesis using fits_no_segments by (intro nth_equalityI) (simp, simp, blast)
qed

lemma iteration_empty_event:
  assumes inp: "ctx_input c = frame_header FT_StackFrame False (ev + 1) crate 0 # rest"
    and rdy: "ready c" "base_ok S c" and bounds: "crate < 8" "ev < 15" "ev < length S"
  shows "\<exists>c'. iteration e c = (c', Continue) \<and>
     delivered (ctx_log c @ [EventData (of_nat crate) (int ev) (replicate (length (S ! ev)) ModuleData_init)]) rest c'"
proof -
  let ?mds = "replicate (length (S ! ev)) ModuleData_init"
  have h: "header_ok (ev + 1) crate 0" using bounds by (simp add: header_ok_def)
  from open_first_frame [of c False ev crate "[]" rest S e ?mds] inp rdy bounds obtain d where
    d: "open_stack_frame e c = (d, Next)" "ctx_input d = rest" "ctx_log d = ctx_log c"
    "fps_header (curStackFrame (ctx_state d)) = frame_header FT_StackFrame False (ev + 1) crate 0"
    "crateId (ctx_state d) = of_nat crate" and ctx: "event_ctx S ev ?mds 0 d"
    by auto
  have "get_frame_length (frame_header FT_StackFrame False (ev + 1) crate 0) = 0"
    using frame_header_len [OF h] by (simp add: get_frame_length_zero)
  then have "check_event d = handle_empty_frame d"
    using d(4) ctx by (simp add: check_event_def event_ctx_def Let_def)
  moreover have "\<exists>c'. handle_empty_frame d = (c', Continue) \<and>
      delivered (ctx_log c @ [EventData (of_nat crate) (int ev) ?mds]) rest c'"
    using event_ctx_facts [OF ctx] ctx d
    by (auto simp: handle_empty_frame_def event_ctx_def delivered_def Let_def)
  ultimately show ?thesis using d(1) by (auto simp: iteration_def event_part_def)
qed

section \<open>Whole events\<close>

definition event_input :: "ReadoutStructure \<Rightarrow> nat \<Rightarrow> nat \<Rightarrow> ModuleData list \<Rightarrow> bool" where
  "event_input S crate ev mds \<longleftrightarrow> crate < 8 \<and> ev < 15 \<and> ev < length S \<and> list_all2 fits (S ! ev) mds"

lemma event_frames_first:
  assumes "event_frames m mds fs cur" "m < 2 ^ 13" "fs @ [cur] = f # later"
  shows "module_stream mds (f @ concat later)" "seg_len f < 2 ^ 13" "nonempty_frames later"
    "f = [] \<Longrightarrow> later = []"
  using assms
  by (cases fs; fastforce simp: event_frames_def module_stream_def nonempty_frames_def)+

lemma iteration_first_frame:
  assumes frames: "event_frames m mds fs cur" "m < 2 ^ 13" and inp: "ctx_input c = event_words crate ev fs cur @ rest"
    and rdy: "ready c" "base_ok S c" and ev: "event_input S crate ev mds"
  shows "\<exists>c'. iteration e c = (c', Continue) \<and> step_done S crate ev mds (ctx_log c) rest c'"
proof -
  have bounds: "crate < 8" "ev < 15" "ev < length S" and fit: "list_all2 fits (S ! ev) mds"
    using ev by (simp_all add: event_input_def)
  obtain f later where fl: "fs @ [cur] = f # later" by (cases fs) auto
  note first = event_frames_first [OF frames fl]
  have inp': "ctx_input c = frame_header FT_StackFrame (later \<noteq> []) (ev + 1) crate (seg_len f) #
      (segments_words f @ later_words crate ev later @ rest)"
    using inp event_words_first [OF fl] by simp
  show ?thesis
  proof (cases "f = []")
    case True
    then have "later = []" by (rule first(4))
    with True first(1) fit have "mds = replicate (length (S ! ev)) ModuleData_init" by (intro no_segments) simp_all
    with iteration_empty_event [of c ev crate rest S e] inp' True \<open>later = []\<close> rdy bounds show ?thesis
      by (auto simp: step_done_def)
  next
    case False
    have hok: "header_ok (ev + 1) crate (seg_len f)" using first(2) bounds by (simp add: header_ok_def)
    from open_first_frame [OF inp' rdy first(2) bounds, of e mds] obtain d where
      d: "open_stack_frame e c = (d, Next)" "ctx_input d = segments_words f @ later_words crate ev later @ rest"
      "ctx_log d = ctx_log c" "fps_wordsLeft (curBlockFrame (ctx_state d)) = 0"
      "fps_header (curStackFrame (ctx_state d)) = hd (ctx_input c)"
      "fps_wordsLeft (curStackFrame (ctx_state d)) = of_nat (seg_len f)" "crateId (ctx_state d) = of_nat crate"
      "groupParseState (ctx_state d) = Prefix" "event_ctx S ev mds 0 d"
      "0 < length (S ! ev) \<longrightarrow> readoutDataSpans (ctx_state d) ! 0 = ModuleReadoutSpans_init"
      using list_all2_lengthD [OF fit] by auto
    have left: "fps_wordsLeft (curStackFrame (ctx_state d)) \<noteq> 0"
      using d(6) wordsLeft_seg_len [OF False first(2)] by simp
    have "get_frame_length (fps_header (curStackFrame (ctx_state d))) \<noteq> 0"
      using d(5,6) left frame_header_len [OF hok] by (simp add: inp' get_frame_length_zero)
    then have "streaming crate ev (ctx_log c) rest f later d"
      using d bounds first by (simp add: streaming_def Let_def)
    then have b: "between_at S crate ev mds (ctx_log c) rest 0 d"
      using d first(1) by (auto simp: between_at_def)
    have "mds \<noteq> []" using first(1) False by (auto simp: module_stream_def)
    then have "S ! ev \<noteq> []" using fit by auto
    from event_part_between [OF b fit left this, of "length (ctx_input c)"] d(1) obtain c' where
      c': "step_done S crate ev mds (ctx_log c) rest c'"
      "iteration e c = (c', Continue) \<or> iteration e c = check_advance (length (ctx_input c)) c'"
      by (auto simp: iteration_def)
    moreover have "sound S (iteration e c)"
      using rdy inp' by (intro iteration_sound) (simp_all add: head_ok_def ready_def)
    ultimately show ?thesis by (auto simp: check_advance_def not_advancing_def split: if_splits)
  qed
qed

lemma parse_event:
  assumes "event_frames m mds fs cur" "m < 2 ^ 13" "ctx_input c = event_words crate ev fs cur @ rest"
    and "ready c" "base_ok S c" "event_input S crate ev mds"
  shows "\<exists>c'. parse_readout_contents e c = parse_readout_contents e c' \<and> base_ok S c' \<and>
     delivered (ctx_log c @ [EventData (of_nat crate) (int ev) mds]) rest c'"
proof -
  from iteration_first_frame [OF assms, of e] obtain d where
    d: "iteration e c = (d, Continue)" "step_done S crate ev mds (ctx_log c) rest d" by blast
  have ne: "ctx_input c \<noteq> []" using assms(3) by (simp add: event_words_def stack_frame_words_def)
  have eq: "parse_readout_contents e c = parse_readout_contents e d"
    using ne d(1) by (simp add: parse_readout_contents.simps [of e c])
  have "head_ok S c" using assms(4,5) by (simp add: head_ok_def ready_def)
  from iteration_sound [OF this ne, of e] have head: "head_ok S d" using d(1) by simp
  from d(2) consider "partway S crate ev mds (ctx_log c) rest d"
    | "delivered (ctx_log c @ [EventData (of_nat crate) (int ev) mds]) rest d" by (auto simp: step_done_def)
  then show ?thesis
  proof cases
    case 1
    from parse_partway [OF 1 _ head, of e] assms(6) eq show ?thesis
      by (auto simp: event_input_def head_ok_def)
  next
    case 2
    then show ?thesis using eq head by (auto simp: head_ok_def)
  qed
qed

section \<open>System events\<close>

lemma system_frame_header_bits:
  fixes header :: u32 and cont :: bool
  assumes "length ws < 2 ^ 13"
  defines "h \<equiv> hd (system_frame header cont ws)"
  shows "get_frame_type h = get_frame_type header" "fi_len (extract_frame_info h) = of_nat (length ws)"
    "get_frame_type header = FT_SystemEvent \<Longrightarrow> fi_ctrl (extract_frame_info h) = fi_ctrl (extract_frame_info header)"
proof -
  have mask: "bit (0x1FFF :: u32) n \<longleftrightarrow> n < 13" if "n < 32" for n
    using that bit_mask_iff [of 13 n, where 'a = u32] by (simp add: mask_eq_exp_minus_1)
  have high: "bit h n \<longleftrightarrow> bit header n \<or> cont \<and> n = 23" if "13 \<le> n" "n < 32" for n
  proof -
    have "bit (NOT (0x1FFF :: u32)) n" using mask that by (simp only: bit_not_iff) (auto simp: possible_bit_word)
    moreover have "bit (push_bit 23 1 :: u32) n \<longleftrightarrow> n = 23"
      using that unfolding bit_push_bit_iff bit_1_iff possible_bit_word by auto
    ultimately have facts: "bit (NOT (0x1FFF :: u32)) n" "bit (push_bit 23 1 :: u32) n \<longleftrightarrow> n = 23"
      "\<not> bit (0x1FFF :: u32) n" using that mask [of n] by simp_all
    show ?thesis
      by (cases cont) (simp_all only: h_def system_frame_def list.sel bit_or_iff bit_and_iff if_True if_False facts simp_thms)
  qed
  have low: "take_bit 13 h = of_nat (length ws)"
  proof (rule bit_word_eqI)
    fix n assume "n < LENGTH(32)"
    then have n: "n < 32" by simp
    have "\<not> bit (of_nat (length ws) :: u32) n" if "13 \<le> n" using bit_of_nat_less assms(1) that by blast
    moreover have "bit (NOT (0x1FFF :: u32)) n \<longleftrightarrow> 13 \<le> n"
      using mask [OF n] n by (simp only: bit_not_iff) (auto simp: possible_bit_word)
    ultimately show "bit (take_bit 13 h) n \<longleftrightarrow> bit (of_nat (length ws) :: u32) n"
      using mask [OF n] by (auto simp: h_def system_frame_def bit_take_bit_iff bit_or_iff bit_and_iff)
  qed
  show type: "get_frame_type h = get_frame_type header"
    by (rule bit_word_eqI) (simp add: bit_fields high)
  show "fi_len (extract_frame_info h) = of_nat (length ws)"
    unfolding fi_len_eq low
    using assms(1) by (simp add: word_unat_eq_iff unsigned_ucast_eq unat_of_nat take_bit_nat_eq_self)
  show "fi_ctrl (extract_frame_info h) = fi_ctrl (extract_frame_info header)"
    if "get_frame_type header = FT_SystemEvent"
    unfolding fi_sysevent_eq(3) [OF that] fi_sysevent_eq(3) [OF type [unfolded that]]
    by (rule bit_word_eqI) (auto simp: bit_ucast_iff bit_take_bit_iff bit_drop_bit_eq high possible_bit_word)
qed

lemma parse_system_frame:
  assumes inp: "ctx_input c = system_frame header cont ws @ rest" and rdy: "ready c" "base_ok S c"
    and len: "length ws < 2 ^ 13" and type: "get_frame_type header = FT_SystemEvent"
  shows "\<exists>c'. parse_readout_contents False c = parse_readout_contents False c' \<and> base_ok S c' \<and>
     delivered (ctx_log c @ [SystemEvent (fi_ctrl (extract_frame_info header)) (system_frame header cont ws)]) rest c'"
proof -
  obtain h where h: "system_frame header cont ws = h # ws" by (simp add: system_frame_def)
  note bits = system_frame_header_bits [OF len, where header = header and cont = cont, unfolded h list.sel]
  have "unat (of_nat (length ws) :: u16) = length ws" using len by (simp add: unat_of_nat take_bit_nat_eq_self)
  with bits type inp h obtain c' where c': "try_handle_system_event c = Inr (True, c')" "ctx_input c' = rest"
    "ctx_log c' = ctx_log c @ [SystemEvent (fi_ctrl (extract_frame_info header)) (system_frame header cont ws)]"
    "ctx_state c' = ctx_state c"
    by (simp add: try_handle_system_event_def Let_def)
  then have it: "iteration False c = (c', Continue)"
    using rdy(1) by (simp add: iteration_def open_stack_frame_def ready_def idle_def Let_def)
  have ne: "ctx_input c \<noteq> []" using inp h by simp
  have "head_ok S c'" using iteration_sound [OF _ ne, of S False] it rdy by (simp add: head_ok_def ready_def)
  then show ?thesis
    using c' rdy(1) ne it
    by (intro exI [of _ c'])
      (simp add: parse_readout_contents.simps [of False c] head_ok_base delivered_def ready_def idle_def)
qed

lemma parse_system_frames:
  assumes "n < 2 ^ 13" "0 < n" "get_frame_type header = FT_SystemEvent"
    and "ctx_input c = concat (system_frames header n ws) @ rest" "ready c" "base_ok S c"
  shows "\<exists>c'. parse_readout_contents False c = parse_readout_contents False c' \<and> base_ok S c' \<and>
     delivered (ctx_log c @ map (SystemEvent (fi_ctrl (extract_frame_info header))) (system_frames header n ws)) rest c'"
  using assms
proof (induction header n ws arbitrary: c rule: system_frames.induct)
  case (1 header n ws)
  show ?case
  proof (cases "length ws \<le> n")
    case True
    then have fr: "system_frames header n ws = [system_frame header False ws]" by (simp add: system_frames.simps)
    show ?thesis
      using parse_system_frame [of c header False ws rest S] "1.prems" True by (simp add: fr)
  next
    case False
    with "1.prems"(2) have fr: "system_frames header n ws =
        system_frame header True (take n ws) # system_frames header n (drop n ws)"
      by (subst system_frames.simps) simp
    have "ctx_input c = system_frame header True (take n ws) @ concat (system_frames header n (drop n ws)) @ rest"
      "length (take n ws) < 2 ^ 13" using "1.prems"(1,4) by (simp_all add: fr)
    from parse_system_frame [OF this(1) "1.prems"(5,6) this(2) "1.prems"(3)] obtain d where d: "parse_readout_contents False c = parse_readout_contents False d" "base_ok S d"
      "delivered (ctx_log c @ [SystemEvent (fi_ctrl (extract_frame_info header)) (system_frame header True (take n ws))])
         (concat (system_frames header n (drop n ws)) @ rest) d"
      by blast
    from d(3) have dl: "ready d" "ctx_input d = concat (system_frames header n (drop n ws)) @ rest"
      "ctx_log d = ctx_log c @ [SystemEvent (fi_ctrl (extract_frame_info header)) (system_frame header True (take n ws))]"
      by (simp_all add: delivered_def)
    have "\<not> (n = 0 \<or> length ws \<le> n)" using False "1.prems"(2) by simp
    from "1.IH" [OF this "1.prems"(1-3) dl(2,1) d(2)] d(1) dl(3) show ?thesis by (auto simp: fr)
  qed
qed

section \<open>Writing and reading a sequence of events\<close>

datatype listfile_event = Readout nat nat "ModuleData list" | System nat u32 "u32 list"

primrec write_listfile_event :: "u32 \<Rightarrow> listfile_event \<Rightarrow> ReadoutBuffer \<Rightarrow> ReadoutBuffer result" where
  "write_listfile_event maxWords (Readout crate ev mds) dest = write_event_data dest (int crate) (int ev) mds maxWords"
| "write_listfile_event maxWords (System crate hdr ws) dest = write_system_event dest (int crate) (hdr # ws) maxWords"

text \<open>What the parser can be expected to deliver: events that match the readout structure.\<close>

fun listfile_event_ok :: "ReadoutStructure \<Rightarrow> listfile_event \<Rightarrow> bool" where
  "listfile_event_ok S (Readout crate ev mds) \<longleftrightarrow> mds \<noteq> [] \<and> event_input S crate ev mds"
| "listfile_event_ok S (System crate hdr ws) \<longleftrightarrow> crate < 7 \<and> get_frame_type hdr = FT_SystemEvent"

primrec listfile_callbacks :: "u32 \<Rightarrow> listfile_event \<Rightarrow> callback list" where
  "listfile_callbacks maxWords (Readout crate ev mds) = [EventData (of_nat crate) (int ev) mds]"
| "listfile_callbacks maxWords (System crate hdr ws) =
     (let header = system_frame_header (int crate) hdr
      in map (SystemEvent (fi_ctrl (extract_frame_info header))) (system_frames header (unat maxWords) ws))"

text \<open>The words of an event: whatever parser reads them calls back with the event.\<close>

definition delivers :: "ReadoutStructure \<Rightarrow> u32 list \<Rightarrow> callback list \<Rightarrow> bool" where
  "delivers S ws cbs \<longleftrightarrow>
     (\<forall>c rest. ready c \<longrightarrow> base_ok S c \<longrightarrow> ctx_input c = ws @ rest \<longrightarrow>
       (\<exists>c'. parse_readout_contents False c = parse_readout_contents False c' \<and> base_ok S c' \<and>
          delivered (ctx_log c @ cbs) rest c'))"

lemma delivers_append:
  assumes "delivers S ws cbs" "delivers S ws' cbs'"
  shows "delivers S (ws @ ws') (cbs @ cbs')"
  unfolding delivers_def
proof (intro allI impI)
  fix c rest assume c: "ready c" "base_ok S c" "ctx_input c = (ws @ ws') @ rest"
  have "ctx_input c = ws @ (ws' @ rest)" using c(3) by simp
  from assms(1) [unfolded delivers_def, rule_format, OF c(1,2) this] obtain d where
    d: "parse_readout_contents False c = parse_readout_contents False d" "base_ok S d"
      "ready d" "ctx_log d = ctx_log c @ cbs" "ctx_input d = ws' @ rest" unfolding delivered_def by blast
  from assms(2) [unfolded delivers_def, rule_format, OF d(3,2,5)] obtain c' where "parse_readout_contents False d = parse_readout_contents False c'" "base_ok S c'"
    "delivered (ctx_log d @ cbs') rest c'" by blast
  with d show "\<exists>c'. parse_readout_contents False c = parse_readout_contents False c' \<and> base_ok S c' \<and>
      delivered (ctx_log c @ cbs @ cbs') rest c'" by auto
qed

lemma system_frame_header_type: "get_frame_type hdr = FT_SystemEvent \<Longrightarrow> crate < 7 \<Longrightarrow>
   get_frame_type (system_frame_header (int crate) hdr) = FT_SystemEvent"
proof -
  assume t: "get_frame_type hdr = FT_SystemEvent" and "crate < 7"
  have "\<not> bit (of_nat crate :: u32) n" if "4 \<le> n" for n
    using \<open>crate < 7\<close> that bit_of_nat_less [of crate 3 n] by simp
  then have "get_frame_type (system_frame_header (int crate) hdr) = get_frame_type hdr"
    by (intro bit_word_eqI) (auto simp: bit_fields system_frame_header_def bit_or_iff bit_push_bit_iff)
  with t show ?thesis by simp
qed

lemma write_listfile_event_delivers:
  assumes "holds dest W" "1 < unat maxWords" "unat maxWords < 2 ^ 13" "listfile_event_ok S e"
  shows "\<exists>dest' ws. write_listfile_event maxWords e dest = Inr dest' \<and> holds dest' (W @ ws) \<and>
     delivers S ws (listfile_callbacks maxWords e)"
proof (cases e)
  case (Readout crate ev mds)
  with assms(4) have ev: "event_input S crate ev mds" "mds \<noteq> []" by simp_all
  then have "list_all size_consistency_check mds" "crate < 8" "ev < 15"
    by (auto simp: event_input_def list_all2_conv_all_nth list_all_length fits_def)
  from write_event_data_words [OF assms(1-3) ev(2) this] obtain dest' fs cur where
    w: "write_event_data dest (int crate) (int ev) mds maxWords = Inr dest'"
    "holds dest' (W @ event_words crate ev fs cur)" "event_frames (unat maxWords) mds fs cur" by blast
  have "delivers S (event_words crate ev fs cur) (listfile_callbacks maxWords e)"
    unfolding delivers_def Readout listfile_callbacks.simps
    using parse_event [OF w(3) assms(3) _ _ _ ev(1)] by blast
  with w Readout show ?thesis by auto
next
  case (System crate hdr ws)
  let ?h = "system_frame_header (int crate) hdr"
  from System assms(4) have h: "crate < 7" "get_frame_type hdr = FT_SystemEvent" by simp_all
  from write_system_event_words [OF assms(1,2) h] obtain dest' where
    w: "write_system_event dest (int crate) (hdr # ws) maxWords = Inr dest'"
    "holds dest' (W @ concat (system_frames ?h (unat maxWords) ws))" by blast
  have "delivers S (concat (system_frames ?h (unat maxWords) ws)) (listfile_callbacks maxWords e)"
    unfolding delivers_def System listfile_callbacks.simps Let_def
    using parse_system_frames [OF assms(3) _ system_frame_header_type [OF h(2,1)]] assms(2) by simp
  with w System show ?thesis by auto
qed

definition write_listfile_buffer :: "u32 \<Rightarrow> listfile_event list \<Rightarrow> ReadoutBuffer result" where
  "write_listfile_buffer maxWords es = result_foldM (write_listfile_event maxWords) es (ReadoutBuffer_init 0)"

lemma write_events_delivers:
  assumes "holds dest W" "1 < unat maxWords" "unat maxWords < 2 ^ 13" "list_all (listfile_event_ok S) es"
  shows "\<exists>dest' ws. result_foldM (write_listfile_event maxWords) es dest = Inr dest' \<and> holds dest' (W @ ws) \<and>
     delivers S ws (concat (map (listfile_callbacks maxWords) es))"
  using assms
proof (induction es arbitrary: dest W)
  case Nil
  have "delivers S [] []" by (auto simp: delivers_def delivered_def)
  with Nil show ?case by (intro exI [of _ dest] exI [of _ "[]"]) simp
next
  case (Cons e es)
  from write_listfile_event_delivers [OF Cons.prems(1-3), of S e] Cons.prems(4) obtain d ws where
    d: "write_listfile_event maxWords e dest = Inr d" "holds d (W @ ws)" "delivers S ws (listfile_callbacks maxWords e)"
    by auto
  from Cons.IH [OF d(2) Cons.prems(2,3)] Cons.prems(4) obtain dest' ws' where
    "result_foldM (write_listfile_event maxWords) es d = Inr dest'" "holds dest' ((W @ ws) @ ws')"
    "delivers S ws' (concat (map (listfile_callbacks maxWords) es))" by auto
  with d delivers_append show ?case
    by (intro exI [of _ dest'] exI [of _ "ws @ ws'"]) simp
qed

lemma ready_simps [simp]:
  "ready (upd_counters f c) = ready c" "ready (set_input i c) = ready c"
  "ready (upd_state (lastBufferNumber_update g) c) = ready c"
  by (simp_all add: ready_def idle_def)

lemma ready_note_buffer_loss: "ready c \<Longrightarrow> ready (note_buffer_loss False n c)"
  "ctx_log (note_buffer_loss e n c) = ctx_log c"
  by (simp_all add: note_buffer_loss_def Let_def)

lemma parse_delivers:
  assumes "delivers S ws cbs" "ready c" "base_ok S c"
  shows "\<exists>c'. parse_readout_buffer USB n ws c = (c', Inr Ok) \<and> ready c' \<and> base_ok S c' \<and> ctx_log c' = ctx_log c @ cbs"
proof -
  let ?c = "set_input ws (note_buffer_loss False n c)"
  have "head_ok S c" using assms(2,3) by (simp add: head_ok_def ready_def)
  then have c: "ready ?c" "base_ok S ?c" "ctx_input ?c = ws @ []" "ctx_log ?c = ctx_log c"
    using assms(2) ready_note_buffer_loss by (simp_all add: note_buffer_loss_sound head_ok_base)
  from assms(1) [unfolded delivers_def, rule_format, OF c(1-3)] obtain d where
    d: "parse_readout_contents False ?c = parse_readout_contents False d" "base_ok S d" "ready d"
      "ctx_log d = ctx_log c @ cbs" "ctx_input d = []" unfolding delivered_def c(4) by blast
  then have p: "parse_readout_contents False ?c = (d, Inr Ok)" by (simp add: parse_readout_contents.simps)
  show ?thesis
  proof (cases "ws = []")
    case True
    then have "parse_readout_contents False ?c = (?c, Inr Ok)" by (simp add: parse_readout_contents.simps)
    with p have "?c = d" by simp
    then show ?thesis
      using True d by (simp add: parse_readout_buffer_def parse_readout_buffer_usb_def usb_buffer_loop.simps buffer_processed_def)
  next
    case False
    then have "usb_buffer_loop ?c = (upd_counters (count_parse_result Ok) d, Inr Ok)"
      using p d(5) by (subst usb_buffer_loop.simps) (simp add: usb_buffer_loop.simps [of "upd_counters _ d"] Let_def)
    then show ?thesis
      using d by (simp add: parse_readout_buffer_def parse_readout_buffer_usb_def buffer_processed_def)
  qed
qed

lemma ready_parser_start: "make_readout_parser stacks = Inr st \<Longrightarrow> ready (parser_start st)"
  by (cases "build_readout_structure stacks")
    (auto simp: make_readout_parser_def ready_def idle_def parser_start_def Let_def)

text \<open>The buffers a parser is given, with their numbers.\<close>

definition numbered_buffers :: "u32 list \<Rightarrow> ReadoutBuffer list \<Rightarrow> (ConnectionType \<times> u32 \<times> u32 list) list" where
  "numbered_buffers ns bufs = map (\<lambda>(n, buf). (USB, n, viewU32 buf)) (zip ns bufs)"

lemma roundtrip_from:
  assumes "1 < unat maxWords" "unat maxWords < 2 ^ 13" "ready c" "base_ok S c"
    and "list_all (list_all (listfile_event_ok S)) batches" "length ns = length batches"
  shows "\<exists>bufs c'. result_mapM (write_listfile_buffer maxWords) batches = Inr bufs \<and>
     consume_all consume_buffer (numbered_buffers ns bufs) c = Inr (c', replicate (length batches) Ok) \<and>
     ctx_log c' = ctx_log c @ concat (map (listfile_callbacks maxWords) (concat batches))"
  using assms
proof (induction batches arbitrary: c ns)
  case Nil
  then show ?case by (simp add: numbered_buffers_def)
next
  case (Cons es batches)
  from Cons.prems(6) obtain n ns' where ns: "ns = n # ns'" "length ns' = length batches" by (cases ns) auto
  from write_events_delivers [OF holds_init Cons.prems(1,2), of S es 0] Cons.prems(5) obtain buf ws where
    b: "write_listfile_buffer maxWords es = Inr buf" "holds buf ws"
      "delivers S ws (concat (map (listfile_callbacks maxWords) es))"
    by (auto simp: write_listfile_buffer_def)
  from parse_delivers [OF b(3) Cons.prems(3,4), of n] obtain d where
    d: "parse_readout_buffer USB n ws c = (d, Inr Ok)" "ready d" "base_ok S d"
      "ctx_log d = ctx_log c @ concat (map (listfile_callbacks maxWords) es)" by blast
  from Cons.IH [OF Cons.prems(1,2) d(2,3) _ ns(2)] Cons.prems(5) obtain bufs c' where
    "result_mapM (write_listfile_buffer maxWords) batches = Inr bufs"
    "consume_all consume_buffer (numbered_buffers ns' bufs) d = Inr (c', replicate (length batches) Ok)"
    "ctx_log c' = ctx_log d @ concat (map (listfile_callbacks maxWords) (concat batches))" by auto
  moreover have "consume_buffer (USB, n, viewU32 buf) c = (d, Inr Ok)"
    using d(1) holds_view [OF b(2)] by (simp add: consume_buffer_def)
  ultimately show ?case
    using b d ns by (intro exI [of _ "buf # bufs"] exI [of _ c']) (simp add: numbered_buffers_def)
qed

section \<open>Properties\<close>

text \<open>
  C2. What the listfile generator writes, the readout parser reads back. Readout
  and system events are written into buffers, any number of events per buffer,
  with frames of at most \<open>maxWords\<close> words. The writer never fails an assertion,
  and a new parser for the readout stacks that is given the buffers, with any
  buffer numbers, returns \<open>Ok\<close> for each of them and calls back with exactly the
  same events in the same order: crate index, event index and the prefix, dynamic
  and suffix words of every module, however they were split into continuation and
  block frames, and each system event with its words in order, one call per frame.
  The module data have to fit the readout structure, see \<open>fits\<close>.
\<close>

theorem readout_roundtrip:
  assumes "make_readout_parser stacks = Inr st" "1 < unat maxWords" "unat maxWords < 2 ^ 13"
    and "list_all (list_all (listfile_event_ok (readoutStructure st))) batches" "length ns = length batches"
  shows "\<exists>bufs c. result_mapM (write_listfile_buffer maxWords) batches = Inr bufs \<and>
     consume_all consume_buffer (numbered_buffers ns bufs) (parser_start st) =
       Inr (c, replicate (length batches) Ok) \<and>
     ctx_log c = concat (map (listfile_callbacks maxWords) (concat batches))"
  using roundtrip_from [OF assms(2,3) ready_parser_start [OF assms(1)] head_ok_base [OF parser_start_ok [OF assms(1)]] assms(4,5)]
  by (simp add: parser_start_def)

theorem readout_roundtrip_witness:
  "let b = StackCommandBuilder_init\<lparr>m_groups :=
             [Group_init\<lparr>g_commands := [StackCommand_init\<lparr>sc_type := WriteMarker\<rparr>]\<rparr>]\<rparr>;
       st = projr (make_readout_parser [b]);
       md = \<lparr>md_data = [0xDEADBEEF], md_prefixSize = 1, md_dynamicSize = 0, md_suffixSize = 0, md_hasDynamic = False\<rparr>;
       batches = [[Readout 1 0 [md], System 2 0xFA006000 [1, 2, 3, 4]], [Readout 1 0 [md]]]
   in \<exists>bufs c. result_mapM (write_listfile_buffer 3) batches = Inr bufs \<and>
     consume_all consume_buffer (numbered_buffers [7, 8] bufs) (parser_start st) = Inr (c, [Ok, Ok]) \<and>
     ctx_log c = concat (map (listfile_callbacks 3) (concat batches))"
proof -
  let ?b = "StackCommandBuilder_init\<lparr>m_groups :=
      [Group_init\<lparr>g_commands := [StackCommand_init\<lparr>sc_type := WriteMarker\<rparr>]\<rparr>]\<rparr>"
  let ?md = "\<lparr>md_data = [0xDEADBEEF], md_prefixSize = 1, md_dynamicSize = 0, md_suffixSize = 0, md_hasDynamic = False\<rparr> :: ModuleData"
  let ?bs = "[[Readout 1 0 [?md], System 2 0xFA006000 [1, 2, 3, 4]], [Readout 1 0 [?md]]]"
  note defs = make_readout_parser_def build_readout_structure_def build_group_structure_def
    parse_module_readout_commands_def module_readout_step_def add_fixed_def Group_init_def Let_def
  have make: "make_readout_parser [?b] = Inr (projr (make_readout_parser [?b]))" by (simp add: defs)
  have "list_all (list_all (listfile_event_ok (readoutStructure (projr (make_readout_parser [?b]))))) ?bs"
    by (simp add: defs event_input_def fits_def size_consistency_check_def dynamic_view_def get_frame_type_def
        StackCommandBuilder_init_def StackCommand_init_def)
  from readout_roundtrip [OF make _ _ this, of 3 "[7, 8]"] show ?thesis unfolding Let_def by (simp del: listfile_callbacks.simps)
qed

end
