(* ===== verification/Mvlc_Bits.thy ===== *)
theory Mvlc_Bits
  imports Mvlc_Prelude
begin

text \<open>
  The bit tricks of \<open>util/bits.h\<close> in their portable versions, without processor
  intrinsics: gathering and scattering the bits selected by a mask, counting bits
  and counting trailing zeroes. The lemmas relate them to the list of the
  positions of the bits that are set.
\<close>

section \<open>Definitions\<close>

text \<open>The positions of the bits that are set, in ascending order.\<close>

definition positions :: "u32 \<Rightarrow> nat list" where
  "positions m = filter (bit m) [0..<32]"

lemma positions_simps [simp]:
  "positions 0 = []" "distinct (positions m)" "sorted (positions m)"
  "set (positions m) = {n. bit m n}"
  using bit_bounds(3) by (auto simp: positions_def intro: sorted_wrt_filter)

lemma positions_eq_Nil [simp]: "positions m = [] \<longleftrightarrow> m = 0"
proof -
  have "(\<forall>n. \<not> bit m n) \<longleftrightarrow> m = 0" by (auto intro: bit_word_eqI)
  then show ?thesis using positions_simps(4) [of m] by (metis empty_Collect_eq set_empty)
qed

lemma and_minus_lowest:
  fixes q :: u32
  assumes "odd q"
  shows "q AND - q = 1"
proof -
  have "q AND - q = q AND (NOT q + 1)" by (simp only: minus_eq_not_plus_1)
  also have "NOT q + 1 = NOT q OR 1"
    using assms by (intro disjunctive_add) (auto simp: bit_not_iff bit_1_iff bit_0)
  also have "q AND (NOT q OR 1) = 1"
    using assms by (intro bit_word_eqI) (auto simp: bit_and_iff bit_or_iff bit_not_iff bit_1_iff bit_0)
  finally show ?thesis .
qed

lemma lowest_bit:
  assumes "positions m = k # ps"
  shows "k < 32" "bit m k" "m AND - m = 2 ^ k" "positions (m XOR 2 ^ k) = ps"
proof -
  have set: "{n. bit m n} = insert k (set ps)" using positions_simps(4) [of m] assms by simp
  then show "bit m k" by auto
  then show "k < 32" using bit_bounds(3) by blast
  have "sorted (k # ps)" "distinct (k # ps)" using assms positions_simps by metis+
  then have less: "\<not> bit m j" if "j < k" for j using that set by force
  define q where "q = drop_bit k m"
  have "take_bit k m = 0" using less by (intro bit_word_eqI) (auto simp: bit_take_bit_iff)
  then have m: "m = push_bit k q"
    using bits_ident [of k m] by (simp add: q_def)
  have "odd q" using \<open>bit m k\<close> by (simp add: q_def bit_iff_odd_drop_bit)
  from and_minus_lowest [OF this] show "m AND - m = 2 ^ k"
    by (simp add: m flip: push_bit_minus push_bit_and)
  have bits: "bit (m XOR 2 ^ k) n \<longleftrightarrow> bit m n \<and> n \<noteq> k" for n
    using \<open>bit m k\<close> \<open>k < 32\<close> by (auto simp: bit_xor_iff bit_exp_iff possible_bit_word dest: bit_bounds(3))
  have "bit (m XOR 2 ^ k) = (\<lambda>n. bit m n \<and> n \<noteq> k)" using bits by blast
  then have "positions (m XOR 2 ^ k) = filter (\<lambda>n. n \<noteq> k) (positions m)"
    by (simp add: positions_def conj_commute)
  also have "\<dots> = ps" using \<open>distinct (k # ps)\<close> by (auto simp: assms intro: filter_True)
  finally show "positions (m XOR 2 ^ k) = ps" .
qed

lemma clear_lowest_bit: "m \<noteq> 0 \<Longrightarrow> length (positions (m XOR (m AND - m))) < length (positions m)"
  using lowest_bit [of m] by (cases "positions m") auto

section \<open>Definitions\<close>

function bit_gather_loop :: "u32 \<Rightarrow> u32 \<Rightarrow> u32 \<Rightarrow> u32 \<Rightarrow> u32" where
  "bit_gather_loop w m z b =
     (if m = 0 then z
      else let i = m AND - m
        in bit_gather_loop w (m XOR i) (z + (if i AND w \<noteq> 0 then b else 0)) (push_bit 1 b))"
  by pat_completeness auto
termination
  by (relation "measure (\<lambda>(w, m, z, b). length (positions m))") (auto intro: clear_lowest_bit)

declare bit_gather_loop.simps [simp del]

definition bit_gather :: "u32 \<Rightarrow> u32 \<Rightarrow> u32" where
  "bit_gather w m = bit_gather_loop w m 0 1"

function bit_scatter_loop :: "u32 \<Rightarrow> u32 \<Rightarrow> u32 \<Rightarrow> u32 \<Rightarrow> u32" where
  "bit_scatter_loop w m z b =
     (if m = 0 then z
      else let i = m AND - m
        in bit_scatter_loop w (m XOR i) (z + (if b AND w \<noteq> 0 then i else 0)) (push_bit 1 b))"
  by pat_completeness auto
termination
  by (relation "measure (\<lambda>(w, m, z, b). length (positions m))") (auto intro: clear_lowest_bit)

declare bit_scatter_loop.simps [simp del]

definition bit_scatter :: "u32 \<Rightarrow> u32 \<Rightarrow> u32" where
  "bit_scatter w m = bit_scatter_loop w m 0 1"

definition number_of_set_bits :: "u32 \<Rightarrow> int" where
  "number_of_set_bits i =
     (let i = i - (drop_bit 1 i AND 0x55555555);
          i = (i AND 0x33333333) + (drop_bit 2 i AND 0x33333333)
      in uint (drop_bit 24 (((i + drop_bit 4 i) AND 0x0F0F0F0F) * 0x01010101)))"

definition MultiplyDeBruijnBitPosition :: "int list" where
  "MultiplyDeBruijnBitPosition =
     [0, 1, 28, 2, 29, 14, 24, 3, 30, 22, 20, 15, 25, 17, 4, 8,
      31, 27, 13, 23, 21, 19, 16, 7, 26, 12, 18, 6, 11, 5, 10, 9]"

definition trailing_zeroes :: "u32 \<Rightarrow> int" where
  "trailing_zeroes v = MultiplyDeBruijnBitPosition ! unat (drop_bit 27 ((v AND - v) * 0x077CB531))"

section \<open>Gathering and scattering\<close>

lemma and_exp_eq_0: "(2 ^ k AND w :: u32) = 0 \<longleftrightarrow> \<not> bit w k"
  by (subst and.commute) (rule and_exp_eq_0_iff_not_bit)

lemma bit_gather_loop_eq:
  "bit_gather_loop w m z b = z + b * horner_sum of_bool 2 (map (bit w) (positions m))"
proof (induction w m z b rule: bit_gather_loop.induct)
  case (1 w m z b)
  show ?case
  proof (cases "positions m")
    case Nil
    then show ?thesis by (simp add: bit_gather_loop.simps)
  next
    case (Cons k ps)
    then have "m \<noteq> 0" using positions_eq_Nil by (metis list.simps(3))
    note low = lowest_bit [OF Cons]
    from \<open>m \<noteq> 0\<close> "1.IH" [OF \<open>m \<noteq> 0\<close> refl] show ?thesis
      by (subst bit_gather_loop.simps)
        (simp add: Let_def low Cons and_exp_eq_0 push_bit_eq_mult algebra_simps)
  qed
qed

text \<open>Bit \<open>n\<close> of the result is the bit of \<open>w\<close> at the position of the \<open>n\<close>th bit of the mask.\<close>

lemma bit_gather_iff: "bit (bit_gather w m) n \<longleftrightarrow> n < length (positions m) \<and> bit w (positions m ! n)"
proof -
  have "length (positions m) \<le> 32" by (simp add: positions_def) (metis diff_zero length_filter_le length_upt)
  then show ?thesis
    by (auto simp: bit_gather_def bit_gather_loop_eq bit_horner_sum_bit_word_iff)
qed

fun scatter_to :: "u32 \<Rightarrow> nat list \<Rightarrow> nat \<Rightarrow> u32" where
  "scatter_to w [] j = 0"
| "scatter_to w (p # ps) j = of_bool (bit w j) * 2 ^ p + scatter_to w ps (Suc j)"

lemma bit_scatter_loop_eq: "bit_scatter_loop w m z (2 ^ j) = z + scatter_to w (positions m) j"
proof (induction "length (positions m)" arbitrary: m z j)
  case 0
  then show ?case by (simp add: bit_scatter_loop.simps)
next
  case (Suc l)
  then obtain k ps where Cons: "positions m = k # ps" by (cases "positions m") auto
  then have "m \<noteq> 0" using positions_eq_Nil by (metis list.simps(3))
  note low = lowest_bit [OF Cons]
  have "bit_scatter_loop w m z (2 ^ j) =
      bit_scatter_loop w (m XOR 2 ^ k) (z + (if bit w j then 2 ^ k else 0)) (2 ^ Suc j)"
    using \<open>m \<noteq> 0\<close> by (subst bit_scatter_loop.simps) (simp add: Let_def low and_exp_eq_0 push_bit_eq_mult mult.commute)
  also have "\<dots> = z + (if bit w j then 2 ^ k else 0) + scatter_to w (positions (m XOR 2 ^ k)) (Suc j)"
    using Suc.hyps(2) by (intro Suc.hyps(1)) (simp add: low Cons)
  finally show ?case by (simp add: low Cons)
qed

lemma bit_scatter_to:
  "distinct ps \<Longrightarrow> bit (scatter_to w ps j) n \<longleftrightarrow> n < 32 \<and> (\<exists>i < length ps. ps ! i = n \<and> bit w (j + i))"
proof (induction ps arbitrary: j n)
  case (Cons p ps)
  let ?a = "of_bool (bit w j) * 2 ^ p :: u32"
  have a: "bit ?a n \<longleftrightarrow> n < 32 \<and> n = p \<and> bit w j" for n
    by (auto simp: bit_exp_iff possible_bit_word)
  note IH = Cons.IH [of "Suc j"]
  have "\<not> bit ?a n \<or> \<not> bit (scatter_to w ps (Suc j)) n" for n
    using Cons.prems by (auto simp: a IH)
  then have "bit (scatter_to w (p # ps) j) n \<longleftrightarrow> bit ?a n \<or> bit (scatter_to w ps (Suc j)) n"
    by (simp only: scatter_to.simps bit_disjunctive_add_iff)
  also have "\<dots> \<longleftrightarrow> n < 32 \<and> (\<exists>i < length (p # ps). (p # ps) ! i = n \<and> bit w (j + i))"
    using Cons.prems by (auto simp: a IH less_Suc_eq_0_disj)
  finally show ?case .
qed simp

lemma bit_scatter_iff:
  "bit (bit_scatter w m) n \<longleftrightarrow> (\<exists>i < length (positions m). positions m ! i = n \<and> bit w i)"
proof -
  have "positions m ! i < 32" if "i < length (positions m)" for i
    using that nth_mem [OF that] bit_bounds(3) by simp
  then show ?thesis
    using bit_scatter_loop_eq [of w m 0 0] by (auto simp: bit_scatter_def bit_scatter_to)
qed

section \<open>Counting\<close>

lemma trailing_zeroes_lowest:
  assumes "positions v = k # ps"
  shows "trailing_zeroes v = int k"
proof -
  have "list_all (\<lambda>k. MultiplyDeBruijnBitPosition ! unat (drop_bit 27 (2 ^ k * 0x077CB531 :: u32)) = int k) [0..<32]"
    by (simp add: MultiplyDeBruijnBitPosition_def upt_rec)
  then show ?thesis
    using lowest_bit(1,3) [OF assms] by (simp add: trailing_zeroes_def list_all_iff)
qed

text \<open>The word made of four bytes.\<close>

definition of_bytes :: "u8 \<Rightarrow> u8 \<Rightarrow> u8 \<Rightarrow> u8 \<Rightarrow> u32" where
  "of_bytes a b c d = ucast a + 2 ^ 8 * ucast b + 2 ^ 16 * ucast c + 2 ^ 24 * ucast d"

lemma bit_of_bytes:
  "bit (of_bytes a b c d) n \<longleftrightarrow>
     (if n < 8 then bit a n else if n < 16 then bit b (n - 8) else if n < 24 then bit c (n - 16)
      else bit d (n - 24))"
proof -
  have part: "bit (2 ^ k * ucast (x :: u8) :: u32) n \<longleftrightarrow> k \<le> n \<and> n < 32 \<and> bit x (n - k)" for k x n
    by (auto simp: bit_ucast_iff bit_push_bit_iff possible_bit_word mult.commute simp flip: push_bit_eq_mult)
  have part0: "bit (ucast (x :: u8) :: u32) n \<longleftrightarrow> bit x n" for x n
    by (auto simp: bit_ucast_iff possible_bit_word dest: bit_bounds(1))
  have bound: "bit x n \<Longrightarrow> n < 8" for x :: u8 and n by (rule bit_bounds(1))
  have 1: "bit (ucast a + 2 ^ 8 * ucast b :: u32) n \<longleftrightarrow> bit (ucast a :: u32) n \<or> bit (2 ^ 8 * ucast b :: u32) n" for n
    by (rule bit_disjunctive_add_iff) (unfold part part0, auto dest: bound)
  have 2: "bit (ucast a + 2 ^ 8 * ucast b + 2 ^ 16 * ucast c :: u32) n \<longleftrightarrow>
      bit (ucast a + 2 ^ 8 * ucast b :: u32) n \<or> bit (2 ^ 16 * ucast c :: u32) n" for n
    by (rule bit_disjunctive_add_iff) (unfold 1 part part0, auto dest: bound)
  have 3: "bit (of_bytes a b c d) n \<longleftrightarrow> bit (ucast a + 2 ^ 8 * ucast b + 2 ^ 16 * ucast c :: u32) n \<or>
      bit (2 ^ 24 * ucast d :: u32) n"
    unfolding of_bytes_def by (rule bit_disjunctive_add_iff) (unfold 1 2 part part0, auto dest: bound)
  show ?thesis unfolding 3 2 1 part part0 by (auto dest: bound)
qed

lemma ucast_plus: "unat x + unat y < 256 \<Longrightarrow> (ucast (x + y) :: u32) = ucast x + ucast y" for x y :: u8
proof -
  assume less: "unat x + unat y < 256"
  have e: "(ucast (z :: u8) :: u32) = of_nat (unat z)" for z
    using unsigned_less [of z] by (simp add: word_unat_eq_iff unsigned_ucast_eq unat_of_nat take_bit_nat_eq_self)
  have "unat (x + y) = unat x + unat y" using less by (simp add: unat_word_ariths)
  then show ?thesis unfolding e by simp
qed

lemma of_bytes_sum:
  assumes "unat a + unat b + unat c + unat d < 256"
  shows "drop_bit 24 (of_bytes a b c d * 0x01010101) = ucast (a + b + c + d)"
proof -
  have s: "unat (a + b) = unat a + unat b" "unat (a + b + c) = unat a + unat b + unat c"
    using assms by (simp_all add: unat_word_ariths)
  have u: "(ucast (a + b) :: u32) = ucast a + ucast b" "(ucast (a + b + c) :: u32) = ucast a + ucast b + ucast c"
    "(ucast (a + b + c + d) :: u32) = ucast a + ucast b + ucast c + ucast d"
    using assms s by (simp_all add: ucast_plus)
  have poly: "(A + X * B + X ^ 2 * C + X ^ 3 * D) * (1 + X + X ^ 2 + X ^ 3) =
      A + X * (A + B) + X ^ 2 * (A + B + C) + X ^ 3 * (A + B + C + D) +
      X ^ 4 * (B + C + D + X * (C + D) + X ^ 2 * D)" for A B C D X :: u32
    by (simp add: algebra_simps eval_nat_numeral)
  have "of_bytes a b c d * 0x01010101 = of_bytes a (a + b) (a + b + c) (a + b + c + d)"
  proof -
    have X: "1 + 2 ^ 8 + (2 ^ 8)\<^sup>2 + (2 ^ 8) ^ 3 = (0x01010101 :: u32)" "((2 :: u32) ^ 8)\<^sup>2 = 2 ^ 16"
      "((2 :: u32) ^ 8) ^ 3 = 2 ^ 24" "((2 :: u32) ^ 8) ^ 4 = 0" by simp_all
    show ?thesis
      using poly [of "ucast a" "2 ^ 8" "ucast b" "ucast c" "ucast d"]
      unfolding of_bytes_def u X(1) unfolding X(2-4) mult_zero_left add_0_right .
  qed
  then show ?thesis
    by (intro u32_eqI) (auto simp: bit_drop_bit_eq bit_of_bytes bit_ucast_iff possible_bit_word dest: bit_bounds(1))
qed

text \<open>The word made of a list of nibbles, the lowest one first.\<close>

definition of_nibbles :: "4 word list \<Rightarrow> u32" where
  "of_nibbles ns = word_of_int (horner_sum uint 16 ns)"

lemma bit_of_nibbles:
  "bit (of_nibbles ns) n \<longleftrightarrow> n < 32 \<and> n div 4 < length ns \<and> bit (ns ! (n div 4)) (n mod 4)"
  using bit_horner_sum_uint_exp_iff [of ns n]
  by (simp add: of_nibbles_def bit_word_of_int_iff)

lemma of_nibbles_and: "length xs = length ys \<Longrightarrow> of_nibbles xs AND of_nibbles ys = of_nibbles (map2 (AND) xs ys)"
  by (rule u32_eqI) (auto simp: bit_and_iff bit_of_nibbles)

lemma nibble_index:
  assumes "n mod 4 + k < (4 :: nat)"
  shows "(k + n) div 4 = n div 4" "(k + n) mod 4 = k + n mod 4"
proof -
  have "a < 4 \<Longrightarrow> (a + 4 * q) div 4 = q \<and> (a + 4 * q) mod 4 = a" for a q :: nat by simp
  moreover have k: "k + n = (n mod 4 + k) + 4 * (n div 4)" by (simp only: ac_simps mod_mult_div_eq)
  ultimately have "(k + n) div 4 = n div 4 \<and> (k + n) mod 4 = n mod 4 + k" using assms by metis
  then show "(k + n) div 4 = n div 4" "(k + n) mod 4 = k + n mod 4"
    by (simp_all only: add.commute)
qed

lemma of_nibbles_mask:
  assumes "\<And>j. bit m j \<Longrightarrow> j + k < 4" "length ns = 8"
  shows "drop_bit k (of_nibbles ns) AND of_nibbles (replicate 8 m) = of_nibbles (map (\<lambda>x. drop_bit k x AND m) ns)"
proof (rule u32_eqI)
  fix n :: nat assume n: "n < 32"
  have "(k + n) div 4 = n div 4" "(k + n) mod 4 = k + n mod 4" if "bit m (n mod 4)"
    using assms(1) [OF that] by (simp_all only: nibble_index)
  then show "bit (drop_bit k (of_nibbles ns) AND of_nibbles (replicate 8 m)) n \<longleftrightarrow>
      bit (of_nibbles (map (\<lambda>x. drop_bit k x AND m) ns)) n"
    using n assms by (fastforce simp: bit_and_iff bit_of_nibbles bit_drop_bit_eq)
qed

lemma of_nibbles_minus:
  "list_all2 (\<le>) ys xs \<Longrightarrow> of_nibbles xs - of_nibbles ys = of_nibbles (map2 (-) xs ys)"
proof -
  assume "list_all2 (\<le>) ys xs"
  moreover have u: "uint (y - x) = uint y - uint x" if "x \<le> y" for x y :: "4 word"
    using that unat_sub [of x y] by (simp only: uint_nat) (simp add: word_le_nat_alt of_nat_diff)
  ultimately have "horner_sum uint 16 xs - horner_sum uint 16 ys = horner_sum uint 16 (map2 (-) xs ys)"
    by (induction rule: list_all2_induct) (simp_all add: u)
  then show ?thesis unfolding of_nibbles_def by (metis wi_hom_sub)
qed

lemma of_nibbles_plus:
  "list_all2 (\<lambda>x y. unat x + unat y < 16) xs ys \<Longrightarrow> of_nibbles xs + of_nibbles ys = of_nibbles (map2 (+) xs ys)"
proof -
  assume "list_all2 (\<lambda>x y. unat x + unat y < 16) xs ys"
  moreover have u: "uint (x + y) = uint x + uint y" if "unat x + unat y < 16" for x y :: "4 word"
  proof -
    have "unat (x + y) = unat x + unat y" using that by (simp add: unat_word_ariths)
    then show ?thesis by (simp only: uint_nat of_nat_add)
  qed
  ultimately have "horner_sum uint 16 xs + horner_sum uint 16 ys = horner_sum uint 16 (map2 (+) xs ys)"
    by (induction rule: list_all2_induct) (simp_all add: u)
  then show ?thesis unfolding of_nibbles_def by (metis wi_hom_add)
qed

lemma of_nibbles_shift: "length xs = 7 \<Longrightarrow> drop_bit 4 (of_nibbles (x # xs)) = of_nibbles (xs @ [0])"
proof (rule u32_eqI)
  fix n :: nat assume "length xs = 7" "n < 32"
  moreover have "(4 + n) div 4 = Suc (n div 4)" "(4 + n) mod 4 = n mod 4" by simp_all
  ultimately show "bit (drop_bit 4 (of_nibbles (x # xs))) n \<longleftrightarrow> bit (of_nibbles (xs @ [0])) n"
    by (auto simp: bit_drop_bit_eq bit_of_nibbles nth_append)
qed

lemma map2_map: "map2 g xs (map f xs) = map (\<lambda>x. g x (f x)) xs" "map2 g (map h xs) (map f xs) = map (\<lambda>x. g (h x) (f x)) xs"
  by (induction xs) simp_all

text \<open>The first two steps on a single nibble.\<close>

definition swar1 :: "4 word \<Rightarrow> 4 word" where "swar1 x = x - (drop_bit 1 x AND 5)"
definition swar2 :: "4 word \<Rightarrow> 4 word" where "swar2 x = (drop_bit 0 (swar1 x) AND 3) + (drop_bit 2 (swar1 x) AND 3)"

lemma swar_nibble:
  "drop_bit 1 x AND 5 \<le> x" "unat (drop_bit 0 (swar1 x) AND 3) + unat (drop_bit 2 (swar1 x) AND 3) < 16"
  "unat (swar2 x) = length (filter (bit x) [0..<4])" "unat (swar2 x) \<le> 4"
proof -
  let ?P = "\<lambda>x. drop_bit 1 x AND 5 \<le> x \<and> unat (drop_bit 0 (swar1 x) AND 3) + unat (drop_bit 2 (swar1 x) AND 3) < 16 \<and>
     unat (swar2 x) = length (filter (bit x) [0..<4]) \<and> unat (swar2 x) \<le> 4"
  have "list_all (\<lambda>n. ?P (of_nat n)) [0..<16]" by (simp add: swar1_def swar2_def upt_rec)
  moreover have "unat x < 16" using unsigned_less [of x] by simp
  ultimately have "?P (of_nat (unat x))" unfolding list_all_iff by fastforce
  then show "drop_bit 1 x AND 5 \<le> x" "unat (drop_bit 0 (swar1 x) AND 3) + unat (drop_bit 2 (swar1 x) AND 3) < 16"
    "unat (swar2 x) = length (filter (bit x) [0..<4])" "unat (swar2 x) \<le> 4" by simp_all
qed

lemma replicate_8: "replicate 8 x = [x, x, x, x, x, x, x, x]"
  by (simp add: numeral_eq_Suc)

lemma swar_masks:
  "0x55555555 = of_nibbles (replicate 8 5)" "0x33333333 = of_nibbles (replicate 8 3)"
  "0x0F0F0F0F = of_nibbles [15, 0, 15, 0, 15, 0, 15, 0]"
  by (simp_all add: of_nibbles_def replicate_8)

lemma bit_nibble_masks: "bit (5 :: 4 word) j \<Longrightarrow> j + 1 < 4" "bit (3 :: 4 word) j \<Longrightarrow> j + k < 4" if "k \<le> 2"
proof -
  have "list_all (\<lambda>j. (bit (5 :: 4 word) j \<longrightarrow> j + 1 < 4) \<and> (bit (3 :: 4 word) j \<longrightarrow> j + 2 < 4)) [0..<4]" by (simp add: upt_rec)
  moreover have "bit w j \<Longrightarrow> j < 4" for w :: "4 word" using bit_word_bound [of w j] by simp
  ultimately show "bit (5 :: 4 word) j \<Longrightarrow> j + 1 < 4" "bit (3 :: 4 word) j \<Longrightarrow> j + k < 4"
    using that unfolding list_all_iff by fastforce+
qed

lemma swar_steps:
  assumes "length ns = 8"
  defines "i1 \<equiv> of_nibbles ns - (drop_bit 1 (of_nibbles ns) AND 0x55555555)"
  shows "(i1 AND 0x33333333) + (drop_bit 2 i1 AND 0x33333333) = of_nibbles (map swar2 ns)"
proof -
  have "list_all2 (\<le>) (map (\<lambda>x. drop_bit 1 x AND 5) ns) ns"
    using swar_nibble(1) by (simp add: list_all2_conv_all_nth)
  then have i1: "i1 = of_nibbles (map swar1 ns)"
    using of_nibbles_mask [where m = 5 and k = 1 and ns = ns] bit_nibble_masks(1) [of 0] assms(1)
    unfolding i1_def swar_masks by (simp add: of_nibbles_minus map2_map swar1_def [abs_def])
  have "list_all2 (\<lambda>x y. unat x + unat y < 16) (map (\<lambda>x. drop_bit 0 (swar1 x) AND 3) ns)
     (map (\<lambda>x. drop_bit 2 (swar1 x) AND 3) ns)"
    using swar_nibble(2) by (simp add: list_all2_conv_all_nth)
  from of_nibbles_plus [OF this] show ?thesis
    using of_nibbles_mask [where m = 3 and k = 0 and ns = "map swar1 ns"] bit_nibble_masks(2) [of 0]
      of_nibbles_mask [where m = 3 and k = 2 and ns = "map swar1 ns"] bit_nibble_masks(2) [of 2] assms(1)
    unfolding swar_masks i1 by (simp add: map2_map swar2_def [abs_def] comp_def)
qed

lemma of_nibbles_Cons: "of_nibbles [] = 0" "of_nibbles (x # xs) = ucast (ucast x :: u8) + 16 * of_nibbles xs"
proof -
  have "(ucast (ucast x :: u8) :: u32) = word_of_int (uint x)"
    by (simp add: ucast_up_ucast is_up.rep_eq flip: ucast_eq)
  then show "of_nibbles [] = 0" "of_nibbles (x # xs) = ucast (ucast x :: u8) + 16 * of_nibbles xs"
    by (simp_all add: of_nibbles_def)
qed

lemma swar_sum:
  assumes "list_all (\<lambda>f. unat f \<le> 4) fs" "length fs = 8"
  defines "i \<equiv> of_nibbles fs"
  shows "uint (drop_bit 24 (((i + drop_bit 4 i) AND 0x0F0F0F0F) * 0x01010101)) = int (sum_list (map unat fs))"
proof -
  obtain f0 f1 f2 f3 f4 f5 f6 f7 where fs: "fs = [f0, f1, f2, f3, f4, f5, f6, f7]"
    using assms(2) by (auto simp: numeral_eq_Suc length_Suc_conv)
  have le: "unat f0 \<le> 4" "unat f1 \<le> 4" "unat f2 \<le> 4" "unat f3 \<le> 4" "unat f4 \<le> 4" "unat f5 \<le> 4"
    "unat f6 \<le> 4" "unat f7 \<le> 4" using assms(1) by (simp_all add: fs)
  have shift: "drop_bit 4 i = of_nibbles [f1, f2, f3, f4, f5, f6, f7, 0]"
    unfolding i_def fs by (subst of_nibbles_shift) simp_all
  have "i + drop_bit 4 i = of_nibbles [f0 + f1, f1 + f2, f2 + f3, f3 + f4, f4 + f5, f5 + f6, f6 + f7, f7]"
    unfolding shift unfolding i_def fs using le by (subst of_nibbles_plus) simp_all
  moreover have "x AND 15 = x" for x :: "4 word"
    using take_bit_word_self [of x 4] unsigned_less [of x] by (simp add: mask_simps)
  ultimately have "(i + drop_bit 4 i) AND 0x0F0F0F0F = of_nibbles [f0 + f1, 0, f2 + f3, 0, f4 + f5, 0, f6 + f7, 0]"
    unfolding swar_masks by (simp add: of_nibbles_and)
  also have "\<dots> = of_bytes (ucast (f0 + f1)) (ucast (f2 + f3)) (ucast (f4 + f5)) (ucast (f6 + f7))"
    by (simp add: of_nibbles_Cons of_bytes_def)
  finally have bytes: "(i + drop_bit 4 i) AND 0x0F0F0F0F =
      of_bytes (ucast (f0 + f1)) (ucast (f2 + f3)) (ucast (f4 + f5)) (ucast (f6 + f7))" .
  have unat_u8: "unat (ucast (x + y) :: u8) = unat x + unat y" if "unat x \<le> 4" "unat y \<le> 4" for x y :: "4 word"
    using that by (simp add: unsigned_ucast_eq unat_word_ariths take_bit_nat_eq_self)
  note sums = unat_u8 [OF le(1,2)] unat_u8 [OF le(3,4)] unat_u8 [OF le(5,6)] unat_u8 [OF le(7,8)]
  have "drop_bit 24 (((i + drop_bit 4 i) AND 0x0F0F0F0F) * 0x01010101) =
      ucast (ucast (f0 + f1) + ucast (f2 + f3) + ucast (f4 + f5) + ucast (f6 + f7) :: u8)"
    unfolding bytes using le by (intro of_bytes_sum) (simp add: sums)
  moreover have "unat (ucast (ucast (f0 + f1) + ucast (f2 + f3) + ucast (f4 + f5) + ucast (f6 + f7) :: u8) :: u32) =
      sum_list (map unat fs)"
    using le by (simp add: unsigned_ucast_eq unat_word_ariths sums take_bit_nat_eq_self fs)
  ultimately show ?thesis by (simp only: uint_nat)
qed

lemma number_of_set_bits_nibbles:
  assumes "length ns = 8"
  shows "number_of_set_bits (of_nibbles ns) = int (\<Sum>x\<leftarrow>ns. length (filter (bit x) [0..<4]))"
  using swar_sum [of "map swar2 ns"] swar_steps [OF assms] swar_nibble(3,4) assms
  by (simp add: number_of_set_bits_def list_all_iff comp_def Let_def)

lemma number_of_set_bits_eq: "number_of_set_bits i = int (length (positions i))"
proof -
  define ns where "ns = map (\<lambda>k. ucast (drop_bit (4 * k) i) :: 4 word) [0..<8]"
  have i: "of_nibbles ns = i"
    by (rule u32_eqI) (auto simp: ns_def bit_of_nibbles bit_ucast_iff bit_drop_bit_eq possible_bit_word)
  have part: "length (filter (bit (ucast (drop_bit k i) :: 4 word)) [0..<4]) = length (filter (bit i) [k..<k + 4])" for k
  proof -
    have "[k..<k + 4] = map (\<lambda>n. n + k) [0..<4]" by (simp add: map_add_upt add.commute del: upt_Suc)
    moreover have "filter (bit (ucast (drop_bit k i) :: 4 word)) [0..<4] = filter (\<lambda>n. bit i (n + k)) [0..<4]"
      by (rule filter_cong) (auto simp: bit_ucast_iff bit_drop_bit_eq add.commute possible_bit_word)
    ultimately show ?thesis by (simp add: filter_map comp_def del: upt_Suc)
  qed
  have "[0..<32] = concat (map (\<lambda>k. [4 * k..<4 * k + 4]) [0..<8])" by (simp add: upt_conv_Cons)
  then have "length (positions i) = (\<Sum>k\<leftarrow>[0..<8]. length (filter (bit i) [4 * k..<4 * k + 4]))"
    unfolding positions_def by (simp only: filter_concat length_concat map_map comp_def)
  then have "number_of_set_bits (of_nibbles ns) = int (length (positions i))"
    by (simp add: number_of_set_bits_nibbles ns_def comp_def part del: upt_Suc)
  then show ?thesis by (simp add: i)
qed

lemma length_positions: "length (positions m) = card {n. bit m n}"
  using distinct_card [of "positions m"] by simp

lemma gather_of_scatter: "bit_gather (bit_scatter w m) m = take_bit (length (positions m)) w"
  by (rule bit_word_eqI) (auto simp: bit_gather_iff bit_scatter_iff bit_take_bit_iff nth_eq_iff_index_eq)

lemma scatter_of_gather: "bit_scatter (bit_gather w m) m = w AND m"
proof (rule bit_word_eqI)
  fix n
  have "bit m n \<longleftrightarrow> (\<exists>i < length (positions m). positions m ! i = n)"
    using positions_simps(4) [of m] by (metis in_set_conv_nth mem_Collect_eq)
  then show "bit (bit_scatter (bit_gather w m) m) n \<longleftrightarrow> bit (w AND m) n"
    by (auto simp: bit_gather_iff bit_scatter_iff bit_and_iff)
qed

section \<open>Properties\<close>

text \<open>
  C28. \<open>bit_gather\<close> and \<open>bit_scatter\<close> are inverse to each other, as their comments
  say: gathering what was scattered to a mask returns as many low bits of the
  word as the mask has bits, scattering what was gathered returns the bits of the
  word under the mask.
\<close>

theorem gather_scatter_inverse:
  "bit_gather (bit_scatter w m) m = take_bit (card {n. bit m n}) w \<and>
   bit_scatter (bit_gather w m) m = w AND m"
  by (simp add: gather_of_scatter scatter_of_gather length_positions)

text \<open>
  C27. The bit counting tricks agree with their definitions for every 32-bit word:
  \<open>number_of_set_bits\<close> is the number of bits that are set, \<open>trailing_zeroes\<close> the
  position of the lowest of them (and 0 for the word 0).
\<close>

theorem bit_counts_correct:
  "number_of_set_bits v = int (card {n. bit v n}) \<and>
   trailing_zeroes v = (if v = 0 then 0 else int (LEAST n. bit v n))"
proof (cases "positions v")
  case Nil
  then show ?thesis
    by (simp add: number_of_set_bits_eq) (simp add: trailing_zeroes_def MultiplyDeBruijnBitPosition_def)
next
  case (Cons k ps)
  have "sorted (k # ps)" "set (k # ps) = {n. bit v n}" using Cons positions_simps by metis+
  then have "(LEAST n. bit v n) = k" by (intro Least_equality) auto
  moreover have "v \<noteq> 0" using Cons by (metis list.simps(3) positions_eq_Nil)
  ultimately show ?thesis
    using trailing_zeroes_lowest [OF Cons] by (simp add: number_of_set_bits_eq length_positions)
qed

end
