(* ===== verification/Mvlc_Data_Filter.thy ===== *)
theory Mvlc_Data_Filter
  imports Mvlc_Bits Mvlc_Text "HOL-Library.Char_ord"
begin

text \<open>
  The bit filters of \<open>util/data_filter.h/.cc\<close>: a pattern of 32 characters selects
  words by the bits marked \<open>0\<close> and \<open>1\<close> and extracts the bits marked with a
  letter. The model is the build without processor intrinsics; the lemmas show
  that it extracts the same value as the build that always gathers bits.
\<close>

section \<open>Filters\<close>

abbreviation (input) FilterSize :: nat where "FilterSize \<equiv> 32"

record DataFilter =
  df_filter :: "char list"
  matchMask :: u32
  matchValue :: u32
  matchWordIndex :: int

record CacheEntry =
  extractMask :: u32
  extractBits :: u8
  needGather :: bool
  extractShift :: u8

definition remove_spaces :: "string \<Rightarrow> string" where
  "remove_spaces input = filter (\<lambda>c. c \<noteq> CHR '' '') input"

text \<open>A loop over the bits of a filter that sets the bits of a word.\<close>

definition bits_where :: "(nat \<Rightarrow> bool) \<Rightarrow> u32" where
  "bits_where p = fold (\<lambda>i m. if p i then m OR push_bit i 1 else m) [0..<FilterSize] 0"

definition make_filter :: "string \<Rightarrow> int \<Rightarrow> DataFilter result" where
  "make_filter filterRaw wordIndex =
     (let flt = remove_spaces filterRaw
      in if FilterSize < length flt then Inl LengthError
         else let cs = rev flt @ replicate (FilterSize - length flt) (CHR ''X'')
           in Inr \<lparr>df_filter = cs,
                   matchMask = bits_where (\<lambda>i. cs ! i \<in> {CHR ''0'', CHR ''1'', CHR 0x00, CHR 0x01}),
                   matchValue = bits_where (\<lambda>i. cs ! i \<in> {CHR ''1'', CHR 0x01}),
                   matchWordIndex = wordIndex\<rparr>)"

definition matches :: "DataFilter \<Rightarrow> u32 \<Rightarrow> int \<Rightarrow> bool" where
  "matches flt value wordIndex \<longleftrightarrow>
     (matchWordIndex flt < 0 \<or> matchWordIndex flt = wordIndex) \<and>
     value AND matchMask flt = matchValue flt"

text \<open>The state of the loop: the mask, and whether a marker, a gap and a marker after it were seen.\<close>

definition cache_step :: "DataFilter \<Rightarrow> char \<Rightarrow> nat \<Rightarrow> u32 \<times> bool \<times> bool \<times> bool \<Rightarrow> u32 \<times> bool \<times> bool \<times> bool" where
  "cache_step flt marker i st =
     (case st of (m, gather, markerSeen, gapSeen) \<Rightarrow>
      if tolower (df_filter flt ! i) = marker
      then (m OR push_bit i 1, gather \<or> (markerSeen \<and> gapSeen), True, gapSeen)
      else (m, gather, markerSeen, gapSeen \<or> markerSeen))"

definition make_cache_entry :: "DataFilter \<Rightarrow> char \<Rightarrow> CacheEntry" where
  "make_cache_entry flt marker =
     (case fold (cache_step flt (tolower marker)) [0..<FilterSize] (0, False, False, False) of
        (m, gather, _) \<Rightarrow>
          \<lparr>extractMask = m, extractBits = word_of_int (number_of_set_bits m),
           needGather = gather, extractShift = word_of_int (trailing_zeroes m)\<rparr>)"

definition extract_entry :: "CacheEntry \<Rightarrow> u32 \<Rightarrow> u32" where
  "extract_entry cache value =
     (let shift = unat (extractShift cache);
          result = drop_bit shift (value AND extractMask cache)
      in if needGather cache then bit_gather result (drop_bit shift (extractMask cache)) else result)"

definition extract_marker :: "DataFilter \<Rightarrow> u32 \<Rightarrow> char \<Rightarrow> u32" where
  "extract_marker flt value marker = extract_entry (make_cache_entry flt marker) value"

definition get_extract_bits :: "DataFilter \<Rightarrow> char \<Rightarrow> u8" where
  "get_extract_bits flt marker = extractBits (make_cache_entry flt marker)"

definition get_extract_mask :: "DataFilter \<Rightarrow> char \<Rightarrow> u32" where
  "get_extract_mask flt marker = extractMask (make_cache_entry flt marker)"

definition get_extract_shift :: "DataFilter \<Rightarrow> char \<Rightarrow> u8" where
  "get_extract_shift flt marker = extractShift (make_cache_entry flt marker)"

definition filter_to_string :: "DataFilter \<Rightarrow> string" where
  "filter_to_string flt = rev (df_filter flt)"

section \<open>Filters with caches\<close>

record FilterWithCaches =
  fwc_filter :: DataFilter
  fwc_markers :: "char list"
  fwc_caches :: "CacheEntry list"

definition isalpha :: "char \<Rightarrow> bool" where
  "isalpha c \<longleftrightarrow> (let n = of_char c :: nat in (65 \<le> n \<and> n \<le> 90) \<or> (97 \<le> n \<and> n \<le> 122))"

text \<open>The markers are collected in an ordered set.\<close>

definition make_filter_with_caches :: "string \<Rightarrow> FilterWithCaches result" where
  "make_filter_with_caches pattern =
     (let markers = sort (remdups (map tolower (filter isalpha pattern)))
      in result_map (\<lambda>f. \<lparr>fwc_filter = f, fwc_markers = markers,
                         fwc_caches = map (make_cache_entry f) markers\<rparr>)
           (make_filter pattern (- 1)))"

definition get_cache_entry :: "FilterWithCaches \<Rightarrow> char \<Rightarrow> CacheEntry option" where
  "get_cache_entry filters marker =
     (if \<not> isalpha marker then None
      else case List.find (\<lambda>p. fst p = tolower marker) (zip (fwc_markers filters) (fwc_caches filters)) of
             None \<Rightarrow> None
           | Some (_, entry) \<Rightarrow> Some entry)"

definition matches_caches :: "FilterWithCaches \<Rightarrow> u32 \<Rightarrow> int \<Rightarrow> bool" where
  "matches_caches flt value wordIndex = matches (fwc_filter flt) value wordIndex"

definition extract_caches :: "FilterWithCaches \<Rightarrow> u32 \<Rightarrow> char \<Rightarrow> u64 option" where
  "extract_caches filters value marker =
     map_option (\<lambda>cache. ucast (extract_entry cache value)) (get_cache_entry filters (tolower marker))"

section \<open>The loops over the bits\<close>

lemma bit_push_one: "bit (push_bit i 1 :: u32) n \<longleftrightarrow> n = i \<and> i < 32"
  by (auto simp: bit_exp_iff possible_bit_word)

lemma bit_bits_where: "bit (bits_where p) n \<longleftrightarrow> n < 32 \<and> p n"
proof -
  have "bit (fold (\<lambda>i m. if p i then m OR push_bit i 1 else m) [0..<k] 0 :: u32) n \<longleftrightarrow> n < k \<and> p n"
    if "k \<le> 32" for k
    using that by (induction k) (auto simp: bit_or_iff bit_push_one less_Suc_eq simp del: push_bit_of_1)
  then show ?thesis by (simp add: bits_where_def)
qed

text \<open>What the loop of \<open>make_cache_entry\<close> has seen after \<open>k\<close> bits.\<close>

definition cache_seen :: "(nat \<Rightarrow> bool) \<Rightarrow> nat \<Rightarrow> u32 \<times> bool \<times> bool \<times> bool \<Rightarrow> bool" where
  "cache_seen M k st =
     (case st of (m, gather, markerSeen, gapSeen) \<Rightarrow>
      (\<forall>n. bit m n \<longleftrightarrow> n < k \<and> M n) \<and>
      (gather \<longleftrightarrow> (\<exists>l < k. \<exists>j < l. \<exists>i < j. M i \<and> \<not> M j \<and> M l)) \<and>
      (markerSeen \<longleftrightarrow> (\<exists>i < k. M i)) \<and>
      (gapSeen \<longleftrightarrow> (\<exists>j < k. \<exists>i < j. M i \<and> \<not> M j)))"

lemma ex_less_Suc: "(\<exists>l < Suc k. P l) \<longleftrightarrow> (\<exists>l < k. P l) \<or> P k"
  by (auto simp: less_Suc_eq)

lemma cache_seen_step:
  assumes "cache_seen M k st" "k < 32" "M = (\<lambda>i. tolower (df_filter flt ! i) = marker)"
  shows "cache_seen M (Suc k) (cache_step flt marker k st)"
proof -
  obtain m gather markerSeen gapSeen where st: "st = (m, gather, markerSeen, gapSeen)" by (cases st)
  have m: "\<forall>n. bit m n \<longleftrightarrow> n < k \<and> M n"
    and gather: "gather \<longleftrightarrow> (\<exists>l < k. \<exists>j < l. \<exists>i < j. M i \<and> \<not> M j \<and> M l)"
    and markerSeen: "markerSeen \<longleftrightarrow> (\<exists>i < k. M i)"
    and gapSeen: "gapSeen \<longleftrightarrow> (\<exists>j < k. \<exists>i < j. M i \<and> \<not> M j)"
    using assms(1) by (auto simp: cache_seen_def st)
  have M: "tolower (df_filter flt ! k) = marker \<longleftrightarrow> M k" by (simp add: assms(3))
  have both: "markerSeen \<and> gapSeen \<longleftrightarrow> gapSeen"
    unfolding markerSeen gapSeen by (meson order_less_trans)
  have "\<forall>n. bit (m OR push_bit k 1) n \<longleftrightarrow> n < Suc k \<and> M n" if "M k"
    using m that \<open>k < 32\<close> by (auto simp: bit_or_iff bit_push_one less_Suc_eq simp del: push_bit_of_1)
  moreover have "\<forall>n. bit m n \<longleftrightarrow> n < Suc k \<and> M n" if "\<not> M k"
    using m that by (auto simp: less_Suc_eq)
  ultimately show ?thesis
    unfolding cache_seen_def cache_step_def st prod.case M ex_less_Suc gather [symmetric] gapSeen [symmetric]
      markerSeen [symmetric] both
    by (auto simp: gapSeen gather markerSeen)
qed

lemma cache_seen_fold:
  assumes "M = (\<lambda>i. tolower (df_filter flt ! i) = marker)"
  shows "k \<le> 32 \<Longrightarrow> cache_seen M k (fold (cache_step flt marker) [0..<k] (0, False, False, False))"
proof (induction k)
  case 0
  show ?case by (simp add: cache_seen_def)
next
  case (Suc k)
  then show ?case using cache_seen_step [OF _ _ assms] by simp
qed

lemma make_cache_entry_spec:
  fixes flt marker
  defines "M \<equiv> \<lambda>i. tolower (df_filter flt ! i) = tolower marker"
    and "c \<equiv> make_cache_entry flt marker"
  shows "bit (extractMask c) n \<longleftrightarrow> n < 32 \<and> M n"
    and "needGather c \<longleftrightarrow> (\<exists>l < 32. \<exists>j < l. \<exists>i < j. M i \<and> \<not> M j \<and> M l)"
    and "extractBits c = word_of_int (number_of_set_bits (extractMask c))"
    and "extractShift c = word_of_int (trailing_zeroes (extractMask c))"
  using cache_seen_fold [OF meta_eq_to_obj_eq [OF M_def], of 32]
  by (auto simp: c_def make_cache_entry_def cache_seen_def split: prod.splits)

section \<open>Extraction\<close>

lemma positions_unique:
  assumes "sorted xs" "distinct xs" "set xs = {n. bit m n}"
  shows "positions m = xs"
  using assms by (intro sorted_distinct_set_unique) simp_all

lemma sorted_map_minus: "sorted (map (\<lambda>p. p - k) xs)" if "sorted xs" for xs :: "nat list"
  using that by (induction xs) (auto simp: diff_le_mono)

lemma positions_drop_bit:
  assumes "positions m = k # ps"
  shows "positions (drop_bit k m) = map (\<lambda>p. p - k) (positions m)"
proof (rule positions_unique)
  have le: "k \<le> p" if "p \<in> set (positions m)" for p
    using that positions_simps(3) [of m] unfolding assms by auto
  show "sorted (map (\<lambda>p. p - k) (positions m))" by (rule sorted_map_minus) simp
  show "distinct (map (\<lambda>p. p - k) (positions m))"
    using le by (auto simp: distinct_map inj_on_def) (metis le_add_diff_inverse2)
  show "set (map (\<lambda>p. p - k) (positions m)) = {n. bit (drop_bit k m) n}"
    using le by (force simp: bit_drop_bit_eq image_iff)
qed

lemma gather_shifted:
  assumes "positions m = k # ps"
  shows "bit_gather (drop_bit k (w AND m)) (drop_bit k m) = bit_gather w m"
proof (rule bit_word_eqI)
  fix n
  have "k \<le> p \<and> bit m p" if "p \<in> set (positions m)" for p
    using that positions_simps(3,4) [of m] unfolding assms by auto
  then have "n < length (positions m) \<Longrightarrow> k \<le> positions m ! n \<and> bit m (positions m ! n)"
    using nth_mem by blast
  then show "bit (bit_gather (drop_bit k (w AND m)) (drop_bit k m)) n \<longleftrightarrow> bit (bit_gather w m) n"
    by (auto simp: bit_gather_iff positions_drop_bit [OF assms] bit_drop_bit_eq bit_and_iff)
qed

lemma gather_contiguous:
  assumes "positions m = k # ps" and convex: "\<And>i j l. i < j \<Longrightarrow> j < l \<Longrightarrow> bit m i \<Longrightarrow> bit m l \<Longrightarrow> bit m j"
  shows "bit_gather w m = drop_bit k (w AND m)"
proof (rule bit_word_eqI)
  fix n
  define h where "h = last (positions m)"
  have "positions m ! i \<le> h" if "i < length (positions m)" for i
    using that sorted_nth_mono [OF positions_simps(3) [of m], of i "length (positions m) - 1"]
      last_conv_nth [of "positions m"] by (simp add: h_def assms(1) del: last.simps nth_Cons_0)
  moreover have "k \<le> positions m ! i" if "i < length (positions m)" for i
    using that sorted_nth_mono [OF positions_simps(3) [of m], of 0 i] by (simp add: assms(1))
  ultimately have range: "k \<le> p \<and> p \<le> h" if "bit m p" for p
    using that positions_simps(4) [of m] by (metis in_set_conv_nth mem_Collect_eq)
  have ends: "bit m k" "bit m h"
    using positions_simps(4) [of m] last_in_set [of "positions m"] unfolding assms(1) h_def by auto
  have "bit m p" if "k \<le> p" "p \<le> h" for p
    using that ends convex [of k p h] by (metis le_neq_implies_less)
  then have "positions m = [k..<Suc h]"
    using range by (intro positions_unique) (auto simp: less_Suc_eq_le simp del: upt_Suc)
  moreover have "bit m (k + n) \<longleftrightarrow> n < Suc h - k"
    using range [of "k + n"] \<open>\<And>p. k \<le> p \<Longrightarrow> p \<le> h \<Longrightarrow> bit m p\<close> [of "k + n"] by auto
  ultimately show "bit (bit_gather w m) n \<longleftrightarrow> bit (drop_bit k (w AND m)) n"
    by (auto simp: bit_gather_iff bit_drop_bit_eq bit_and_iff simp del: upt_Suc)
qed

lemma trailing_zeroes_u8:
  assumes "positions m = k # ps"
  shows "unat (word_of_int (trailing_zeroes m) :: u8) = k"
proof -
  have "k < 32" by (rule lowest_bit(1) [OF assms])
  then show ?thesis by (simp add: trailing_zeroes_lowest [OF assms] unat_of_nat take_bit_nat_eq_self)
qed

lemma extract_entry_gathers:
  "extract_entry (make_cache_entry flt marker) v = bit_gather v (extractMask (make_cache_entry flt marker))"
proof (cases "positions (extractMask (make_cache_entry flt marker))")
  case Nil
  then show ?thesis by (simp add: extract_entry_def bit_gather_def bit_gather_loop.simps Let_def)
next
  case (Cons k ps)
  let ?c = "make_cache_entry flt marker"
  let ?M = "\<lambda>i. tolower (df_filter flt ! i) = tolower marker"
  have shift: "unat (extractShift ?c) = k"
    using trailing_zeroes_u8 [OF Cons] by (simp add: make_cache_entry_spec(4))
  show ?thesis
  proof (cases "needGather ?c")
    case True
    then show ?thesis using gather_shifted [OF Cons] by (simp add: extract_entry_def shift Let_def)
  next
    case False
    have "bit (extractMask ?c) j"
      if "i < j" "j < l" "bit (extractMask ?c) i" "bit (extractMask ?c) l" for i j l
      using that False unfolding make_cache_entry_spec by (meson order_less_trans)
    then have "bit_gather v (extractMask ?c) = drop_bit k (v AND extractMask ?c)"
      by (rule gather_contiguous [OF Cons])
    with False show ?thesis by (simp add: extract_entry_def shift Let_def)
  qed
qed

section \<open>Patterns\<close>

lemma make_filter_eq_Inr:
  assumes "make_filter pattern idx = Inr flt"
  defines "p \<equiv> remove_spaces pattern"
  shows "length p \<le> 32" "df_filter flt = rev p @ replicate (32 - length p) (CHR ''X'')" "length (df_filter flt) = 32"
    and "bit (matchMask flt) n \<longleftrightarrow> n < 32 \<and> df_filter flt ! n \<in> {CHR ''0'', CHR ''1'', CHR 0x00, CHR 0x01}"
    and "bit (matchValue flt) n \<longleftrightarrow> n < 32 \<and> df_filter flt ! n \<in> {CHR ''1'', CHR 0x01}"
    and "matchWordIndex flt = idx"
  using assms by (auto simp: make_filter_def Let_def bit_bits_where split: if_splits)

lemma df_filter_nth:
  assumes "make_filter pattern idx = Inr flt" "n < 32"
  shows "df_filter flt ! n =
    (if n < length (remove_spaces pattern) then rev (remove_spaces pattern) ! n else CHR ''X'')"
  using make_filter_eq_Inr(1,2) [OF assms(1)] assms(2) by (simp add: nth_append)

lemma masked_eq_iff: "v AND m = (a :: u32) \<longleftrightarrow> (\<forall>n < 32. bit a n \<longleftrightarrow> bit v n \<and> bit m n)"
  by (auto simp: bit_eq_iff bit_and_iff)

lemma matches_iff:
  assumes "make_filter pattern idx = Inr flt"
  defines "p \<equiv> rev (remove_spaces pattern)"
  shows "matches flt v w \<longleftrightarrow> (idx < 0 \<or> idx = w) \<and>
    (\<forall>n < length p. (p ! n \<in> {CHR ''0'', CHR 0x00} \<longrightarrow> \<not> bit v n) \<and> (p ! n \<in> {CHR ''1'', CHR 0x01} \<longrightarrow> bit v n))"
proof -
  have "v AND matchMask flt = matchValue flt \<longleftrightarrow>
    (\<forall>n < 32. (df_filter flt ! n \<in> {CHR ''0'', CHR 0x00} \<longrightarrow> \<not> bit v n) \<and>
       (df_filter flt ! n \<in> {CHR ''1'', CHR 0x01} \<longrightarrow> bit v n))"
    unfolding masked_eq_iff make_filter_eq_Inr(4,5) [OF assms(1)] by auto
  also have "\<dots> \<longleftrightarrow> (\<forall>n < length p. (p ! n \<in> {CHR ''0'', CHR 0x00} \<longrightarrow> \<not> bit v n) \<and>
       (p ! n \<in> {CHR ''1'', CHR 0x01} \<longrightarrow> bit v n))"
    using df_filter_nth [OF assms(1)] make_filter_eq_Inr(1) [OF assms(1)] by (auto simp: p_def split: if_splits)
  finally show ?thesis by (simp add: matches_def make_filter_eq_Inr(6) [OF assms(1)])
qed

lemma remove_spaces_idem: "CHR '' '' \<notin> set s \<Longrightarrow> remove_spaces s = s"
  by (induction s) (auto simp: remove_spaces_def)

lemma filter_to_string_eq:
  assumes "make_filter pattern idx = Inr flt"
  shows "filter_to_string flt = replicate (32 - length (remove_spaces pattern)) (CHR ''X'') @ remove_spaces pattern"
    and "make_filter (filter_to_string flt) idx = Inr flt"
proof -
  let ?s = "replicate (32 - length (remove_spaces pattern)) (CHR ''X'') @ remove_spaces pattern"
  show s: "filter_to_string flt = ?s"
    using make_filter_eq_Inr(2) [OF assms] by (simp add: filter_to_string_def)
  have "remove_spaces ?s = ?s" by (rule remove_spaces_idem) (auto simp: remove_spaces_def)
  then show "make_filter (filter_to_string flt) idx = Inr flt"
    using assms make_filter_eq_Inr(1) [OF assms] unfolding s by (auto simp: make_filter_def Let_def split: if_splits)
qed

section \<open>Filters with caches\<close>

lemma tolower_idem [simp]: "tolower (tolower c) = tolower c"
  by (simp add: tolower_def Let_def)

lemma tolower_simps:
  "tolower (CHR ''a'') = CHR ''a''" "tolower (CHR ''A'') = CHR ''a''" "tolower (CHR ''B'') = CHR ''b''"
  "tolower (CHR ''c'') = CHR ''c''" "tolower (CHR ''X'') = CHR ''x''"
  by code_simp+

lemma find_zip_map:
  "List.find (\<lambda>p. fst p = y) (zip xs (map g xs)) = (if y \<in> set xs then Some (y, g y) else None)"
  by (induction xs) auto

lemma make_cache_entry_tolower [simp]: "make_cache_entry flt (tolower marker) = make_cache_entry flt marker"
  by (simp add: make_cache_entry_def)

lemma get_cache_entry_eq:
  assumes "make_filter_with_caches pattern = Inr f"
  shows "get_cache_entry f marker =
    (if isalpha marker \<and> (\<exists>c \<in> set pattern. isalpha c \<and> tolower c = tolower marker)
     then Some (make_cache_entry (fwc_filter f) marker) else None)"
proof -
  have "tolower marker \<in> tolower ` {c \<in> set pattern. isalpha c} \<longleftrightarrow>
      (\<exists>c \<in> set pattern. isalpha c \<and> tolower c = tolower marker)"
    by (force simp: image_iff)
  moreover obtain x where "f = \<lparr>fwc_filter = x, fwc_markers = sort (remdups (map tolower (filter isalpha pattern))),
      fwc_caches = map (make_cache_entry x) (sort (remdups (map tolower (filter isalpha pattern))))\<rparr>"
    using assms by (auto simp: make_filter_with_caches_def Let_def)
  ultimately show ?thesis by (simp add: get_cache_entry_def find_zip_map)
qed

lemma isalpha_tolower [simp]: "isalpha (tolower c) = isalpha c"
  by (auto simp: isalpha_def tolower_def Let_def)

section \<open>Properties\<close>

text \<open>
  C26. Extracting the bits of a marker gives the same value as gathering the bits of
  the marker's mask, whatever the shape of the marker's positions: the shortcut
  that only shifts when the positions are contiguous is sound, and the portable
  build agrees with the build that always gathers. The mask has a bit for every
  position that carries the marker, in upper or lower case.
\<close>

theorem extract_marker_gathers:
  "extract_marker flt v marker = bit_gather v (get_extract_mask flt marker) \<and>
   (bit (get_extract_mask flt marker) n \<longleftrightarrow> n < 32 \<and> tolower (df_filter flt ! n) = tolower marker) \<and>
   unat (get_extract_bits flt marker) = card {i. i < 32 \<and> tolower (df_filter flt ! i) = tolower marker}"
proof (intro conjI)
  let ?m = "extractMask (make_cache_entry flt marker)"
  show "extract_marker flt v marker = bit_gather v (get_extract_mask flt marker)"
    by (simp add: extract_marker_def get_extract_mask_def extract_entry_gathers)
  have len: "length (positions ?m) \<le> 32"
    by (simp add: positions_def) (metis diff_zero length_filter_le length_upt)
  show "unat (get_extract_bits flt marker) = card {i. i < 32 \<and> tolower (df_filter flt ! i) = tolower marker}"
    using len length_positions [of ?m]
    by (simp add: get_extract_bits_def make_cache_entry_spec number_of_set_bits_eq unat_of_nat take_bit_nat_eq_self)
qed (simp add: get_extract_mask_def make_cache_entry_spec)

text \<open>
  C29. A filter made from a pattern accepts a word exactly when the word index is the
  requested one (or none was requested) and the word has a cleared bit wherever
  the pattern, read from its end, has a \<open>0\<close> and a set bit wherever it has a \<open>1\<close>.
\<close>

theorem make_filter_matches:
  assumes "make_filter pattern idx = Inr flt"
  defines "p \<equiv> rev (remove_spaces pattern)"
  shows "matches flt v w \<longleftrightarrow> (idx < 0 \<or> idx = w) \<and>
    (\<forall>n < length p. (p ! n \<in> {CHR ''0'', CHR 0x00} \<longrightarrow> \<not> bit v n) \<and> (p ! n \<in> {CHR ''1'', CHR 0x01} \<longrightarrow> bit v n))"
  unfolding p_def by (rule matches_iff [OF assms(1)])

theorem make_filter_matches_witness:
  "\<exists>flt. make_filter ''01 AA'' (- 1) = Inr flt \<and> matches flt 6 0 \<and> \<not> matches flt 14 0"
proof -
  obtain flt where flt: "make_filter ''01 AA'' (- 1) = Inr flt"
    by (simp add: make_filter_def remove_spaces_def Let_def)
  have "matches flt 6 0" "\<not> matches flt 14 0"
    unfolding make_filter_matches [OF flt] by (simp_all add: remove_spaces_def All_less_Suc bit_numeral_rec)
  with flt show ?thesis by blast
qed

text \<open>
  C30. Printing a filter gives its pattern without spaces, filled up to 32 characters
  with \<open>X\<close>, and reading the printed text gives the same filter; a pattern is
  refused only if it has more than 32 characters that are not spaces.
\<close>

theorem filter_string_roundtrip:
  "case make_filter pattern idx of
     Inl e \<Rightarrow> e = LengthError \<and> 32 < length (remove_spaces pattern)
   | Inr flt \<Rightarrow>
       filter_to_string flt = replicate (32 - length (remove_spaces pattern)) (CHR ''X'') @ remove_spaces pattern \<and>
       make_filter (filter_to_string flt) idx = Inr flt"
proof (cases "make_filter pattern idx")
  case (Inl e)
  then show ?thesis by (simp add: make_filter_def Let_def split: if_splits)
next
  case (Inr flt)
  then show ?thesis using filter_to_string_eq [OF Inr] by simp
qed

text \<open>
  C31. A filter with caches extracts, for each letter that occurs in its pattern, the
  bits of that letter, and nothing for any other character.
\<close>

theorem extract_caches_correct:
  assumes "make_filter_with_caches pattern = Inr f"
  shows "extract_caches f v marker =
    (if isalpha marker \<and> (\<exists>c \<in> set pattern. isalpha c \<and> tolower c = tolower marker)
     then Some (ucast (bit_gather v (get_extract_mask (fwc_filter f) marker))) else None)"
  by (simp add: extract_caches_def get_cache_entry_eq [OF assms] extract_entry_gathers get_extract_mask_def)

lemma bit_five: "bit (5 :: u32) n \<longleftrightarrow> n = 0 \<or> n = 2"
proof -
  have "(5 :: u32) = 2 ^ 0 OR 2 ^ 2" by simp
  then show ?thesis by (simp only: bit_or_iff bit_exp_iff) (auto simp: possible_bit_word)
qed

theorem extract_caches_correct_witness:
  "\<exists>f. make_filter_with_caches ''aBa'' = Inr f \<and> extract_caches f 5 (CHR ''A'') = Some 3 \<and>
     extract_caches f 5 (CHR ''c'') = None"
proof -
  obtain f where f: "make_filter_with_caches ''aBa'' = Inr f"
    by (simp add: make_filter_with_caches_def make_filter_def remove_spaces_def Let_def)
  then have df: "df_filter (fwc_filter f) = ''aBa'' @ replicate 29 (CHR ''X'')"
    by (auto simp: make_filter_with_caches_def make_filter_def remove_spaces_def Let_def)
  have "bit (get_extract_mask (fwc_filter f) (CHR ''A'')) n \<longleftrightarrow> n = 0 \<or> n = 2" for n
    unfolding get_extract_mask_def make_cache_entry_spec(1) df
    by (auto simp: nth_append nth_Cons' tolower_simps)
  then have "get_extract_mask (fwc_filter f) (CHR ''A'') = 5"
    using bit_five by (intro bit_word_eqI) blast
  then show ?thesis
    using extract_caches_correct [OF f, of 5 "CHR ''A''"] extract_caches_correct [OF f, of 5 "CHR ''c''"] f
    by (simp add: isalpha_def tolower_simps bit_gather_def bit_gather_loop.simps)
qed

end
