(* ===== verification/Event_Builder2.thy ===== *)
theory Event_Builder2
  imports Complex_Main Readout_Parser_Step Mvlc_Data_Filter
begin

text \<open>
  The event builder of \<open>event_builder2.hpp\<close> and \<open>event_builder2.cc\<close>: module data is
  queued with its timestamp, and flushing combines the data of all modules that
  is close enough to a reference timestamp into one output event. The model is
  the build without assertions; the one assertion that guards a loop without
  progress is kept, and shown never to fail. Calls of the callbacks are recorded
  in a log. The binning arithmetic of the histograms is exact here, the code
  computes it in double precision. Logging and locking are left out.
\<close>

section \<open>Timestamps\<close>

datatype WindowMatch = too_old | in_window | too_new

record WindowMatchResult =
  wmatch :: WindowMatch
  invscore :: u32

abbreviation (input) TimestampMax :: int where "TimestampMax \<equiv> 0x3FFFFFFF"
abbreviation (input) TimestampHalf :: int where "TimestampHalf \<equiv> 0x1FFFFFFF"

type_synonym timestamp_extractor = "u32 list \<Rightarrow> u32 option"

definition IndexedTimestampFilterExtractor :: "DataFilter \<Rightarrow> int \<Rightarrow> char \<Rightarrow> timestamp_extractor" where
  "IndexedTimestampFilterExtractor flt wordIndex matchChar = (\<lambda>data.
     let cache = make_cache_entry flt matchChar;
         idx = unat (if wordIndex < 0 then of_nat (length data) + word_of_int wordIndex
                     else word_of_int wordIndex :: u64)
     in if idx < length data \<and> matches flt (data ! idx) (- 1)
        then Some (extract_entry cache (data ! idx)) else None)"

definition TimestampFilterExtractor :: "DataFilter \<Rightarrow> char \<Rightarrow> timestamp_extractor" where
  "TimestampFilterExtractor flt matchChar = (\<lambda>data.
     let cache = make_cache_entry flt matchChar
     in map_option (extract_entry cache) (List.find (\<lambda>v. matches flt v (- 1)) data))"

definition EmptyTimestampExtractor :: timestamp_extractor where
  "EmptyTimestampExtractor = (\<lambda>data. None)"

definition make_mesytec_default_timestamp_extractor :: "timestamp_extractor result" where
  "make_mesytec_default_timestamp_extractor =
     result_map (\<lambda>flt. IndexedTimestampFilterExtractor flt (- 1) (CHR ''D''))
       (make_filter ''11DDDDDDDDDDDDDDDDDDDDDDDDDDDDDD'' (- 1))"

text \<open>The timestamp comes in as a signed 64-bit value and is converted to \<open>u32\<close>.\<close>

definition add_offset_to_timestamp :: "u32 \<Rightarrow> int \<Rightarrow> u32" where
  "add_offset_to_timestamp ts offs = (ts + word_of_int offs) AND 0x3FFFFFFF"

definition timestamp_difference :: "int \<Rightarrow> int \<Rightarrow> int" where
  "timestamp_difference ts0 ts1 =
     (let diff = ts0 - ts1
      in if TimestampHalf < \<bar>diff\<bar>
         then (if diff < 0 then diff + TimestampMax else diff - TimestampMax)
         else diff)"

definition timestamp_match :: "int \<Rightarrow> int \<Rightarrow> u32 \<Rightarrow> WindowMatchResult" where
  "timestamp_match tsMain tsModule windowWidth =
     (let diff = timestamp_difference tsMain tsModule;
          score = word_of_int \<bar>diff\<bar>
      in if real_of_int \<bar>diff\<bar> > real_of_int (uint windowWidth) * 0.5
         then (if 0 \<le> diff then \<lparr>wmatch = too_old, invscore = score\<rparr>
               else \<lparr>wmatch = too_new, invscore = score\<rparr>)
         else \<lparr>wmatch = in_window, invscore = score\<rparr>)"

section \<open>Stored module data\<close>

record ModuleStorage =
  ms_data :: "u32 list"
  ms_prefixSize :: nat
  ms_dynamicSize :: nat
  ms_suffixSize :: nat
  ms_hasDynamic :: bool
  ms_timestamp :: "int option"

definition ModuleStorage_of :: "ModuleData \<Rightarrow> int option \<Rightarrow> ModuleStorage" where
  "ModuleStorage_of md ts =
     \<lparr>ms_data = md_data md, ms_prefixSize = md_prefixSize md, ms_dynamicSize = md_dynamicSize md,
      ms_suffixSize = md_suffixSize md, ms_hasDynamic = md_hasDynamic md, ms_timestamp = ts\<rparr>"

definition ModuleStorage_init :: ModuleStorage where
  "ModuleStorage_init = ModuleStorage_of ModuleData_init None"

definition to_module_data :: "ModuleStorage \<Rightarrow> ModuleData" where
  "to_module_data ms =
     \<lparr>md_data = ms_data ms, md_prefixSize = ms_prefixSize ms, md_dynamicSize = ms_dynamicSize ms,
      md_suffixSize = ms_suffixSize ms, md_hasDynamic = ms_hasDynamic ms\<rparr>"

definition storage_consistency_check :: "ModuleStorage \<Rightarrow> bool" where
  "storage_consistency_check md \<longleftrightarrow>
     ms_prefixSize md + ms_dynamicSize md + ms_suffixSize md = length (ms_data md) \<and>
     (0 < ms_dynamicSize md \<longrightarrow> ms_hasDynamic md)"

record PerEventData =
  allTimestamps :: "int list"
  moduleDatas :: "ModuleStorage list list"

section \<open>Histograms\<close>

record HistoBinning =
  binCount :: nat
  minValue :: real
  maxValue :: real

record Histo =
  binning :: HistoBinning
  title :: string
  bins :: "u64 list"
  underflows :: u64
  overflows :: u64

record ModuleDeltaHisto =
  moduleIndexes :: "nat \<times> nat"
  histo :: Histo

definition fill :: "Histo \<Rightarrow> real \<Rightarrow> Histo \<times> bool" where
  "fill h x =
     (if x < minValue (binning h) then (h\<lparr>underflows := underflows h + 1\<rparr>, False)
      else if maxValue (binning h) \<le> x then (h\<lparr>overflows := overflows h + 1\<rparr>, False)
      else let bin = nat \<lfloor>(x - minValue (binning h)) / (maxValue (binning h) - minValue (binning h)) * real (length (bins h))\<rfloor>
        in if bin < length (bins h) then (h\<lparr>bins := (bins h)[bin := bins h ! bin + 1]\<rparr>, True)
           else (h, False))"

definition counts :: "Histo \<Rightarrow> u64" where
  "counts h = foldl (+) 0 (bins h)"

definition make_histo :: "HistoBinning \<Rightarrow> string \<Rightarrow> Histo" where
  "make_histo b t = \<lparr>binning = b, title = t, bins = replicate (binCount b) 0, underflows = 0, overflows = 0\<rparr>"

section \<open>Configuration\<close>

record ModuleConfig =
  tsExtractor :: timestamp_extractor
  mc_offset :: int
  mc_window :: u32
  mc_ignored :: bool
  mc_hasDynamic :: bool
  mc_prefixSize :: nat
  mc_name :: string

record EventConfig =
  moduleConfigs :: "ModuleConfig list"
  enabled :: bool
  ec_name :: string

record EventBuilderConfig =
  eventConfigs :: "EventConfig list"
  outputCrateIndex :: int
  dtHistoBinning :: HistoBinning

text \<open>One step of the double loop: the pairs seen so far and the histograms created.\<close>

definition dt_histo_step ::
  "ModuleConfig list \<Rightarrow> HistoBinning \<Rightarrow> nat \<times> nat \<Rightarrow> (nat \<times> nat) set \<times> ModuleDeltaHisto list
   \<Rightarrow> (nat \<times> nat) set \<times> ModuleDeltaHisto list" where
  "dt_histo_step mcfgs binConfig ij st =
     (case (ij, st) of ((i, j), (seen, acc)) \<Rightarrow>
      if i \<noteq> j \<and> (j, i) \<notin> seen
      then (insert (j, i) (insert (i, j) seen),
            acc @ [\<lparr>moduleIndexes = (i, j),
                    histo = make_histo binConfig (''dt('' @ mc_name (mcfgs ! i) @ '', '' @ mc_name (mcfgs ! j) @ '')'')\<rparr>])
      else (seen, acc))"

definition create_dt_histograms :: "ModuleConfig list \<Rightarrow> HistoBinning \<Rightarrow> ModuleDeltaHisto list" where
  "create_dt_histograms mcfgs binConfig =
     snd (fold (dt_histo_step mcfgs binConfig)
       (List.product [0..<length mcfgs] [0..<length mcfgs]) ({}, []))"

section \<open>Counters\<close>

record EventCounters =
  inputHits :: "u64 list"
  outputHits :: "u64 list"
  emptyInputs :: "u64 list"
  discardsAge :: "u64 list"
  stampFailed :: "u64 list"
  moduleNames :: "string list"
  currentEvents :: "u64 list"
  currentMem :: "u64 list"
  maxEvents :: "u64 list"
  maxMem :: "u64 list"
  recordingFailed :: u64
  discardsNoStamp :: u64
  ctr_allTimestamps :: "int list"
  allTimestampsMaxSize :: u64
  dtInputHistos :: "ModuleDeltaHisto list"
  dtOutputHistos :: "ModuleDeltaHisto list"
  eventName :: string

text \<open>The per-module vectors are indexed without a check: each must have an entry for every module.\<close>

definition covers :: "nat \<Rightarrow> EventCounters \<Rightarrow> bool" where
  "covers n c \<longleftrightarrow> list_all (\<lambda>v. n \<le> length v)
     [inputHits c, outputHits c, emptyInputs c, discardsAge c, stampFailed c,
      currentEvents c, currentMem c, maxEvents c, maxMem c]"

abbreviation inc :: "nat \<Rightarrow> u64 \<Rightarrow> u64 list \<Rightarrow> u64 list" where
  "inc i k v \<equiv> v[i := v ! i + k]"

definition mem_of :: "u32 list \<Rightarrow> u64" where
  "mem_of data = of_nat (length data) * 4"

section \<open>Recording\<close>

definition record_module ::
  "ModuleConfig list \<Rightarrow> ModuleData list \<Rightarrow> nat \<Rightarrow> ModuleStorage list list \<times> EventCounters
   \<Rightarrow> ModuleStorage list list \<times> EventCounters" where
  "record_module cfgs mds mi st =
     (case st of (dest, c) \<Rightarrow>
      let mdata = mds ! mi;
          mcfg = cfgs ! mi;
          ts = tsExtractor mcfg (md_data mdata);
          events = currentEvents c ! mi + 1;
          mem = currentMem c ! mi + mem_of (md_data mdata)
      in (dest[mi := dest ! mi @ [ModuleStorage_of mdata (map_option uint ts)]],
          c\<lparr>inputHits := inc mi 1 (inputHits c),
            emptyInputs := (if md_data mdata = [] then inc mi 1 (emptyInputs c) else emptyInputs c),
            stampFailed := (if \<not> mc_ignored mcfg \<and> ts = None \<and> md_data mdata \<noteq> []
                            then inc mi 1 (stampFailed c) else stampFailed c),
            currentEvents := (currentEvents c)[mi := events],
            currentMem := (currentMem c)[mi := mem],
            maxEvents := (maxEvents c)[mi := max (maxEvents c ! mi) events],
            maxMem := (maxMem c)[mi := max (maxMem c ! mi) mem]\<rparr>))"

definition record_module_data ::
  "ModuleData list \<Rightarrow> ModuleConfig list \<Rightarrow> ModuleStorage list list \<Rightarrow> EventCounters
   \<Rightarrow> ((ModuleStorage list list \<times> EventCounters) \<times> bool) result" where
  "record_module_data mds cfgs dest c =
     (let moduleCount = length mds
      in if length cfgs \<noteq> moduleCount then Inr ((dest, c), False)
         else if length dest \<noteq> moduleCount then Inr ((dest, c), False)
         else if \<not> covers moduleCount c then Inl UndefinedBehaviour
         else Inr (fold (record_module cfgs mds) [0..<moduleCount] (dest, c), True))"

text \<open>An event in which no module has a timestamp is taken off the queues again.\<close>

definition discard_module :: "nat \<Rightarrow> ModuleStorage list list \<times> EventCounters \<Rightarrow> ModuleStorage list list \<times> EventCounters" where
  "discard_module mi st =
     (case st of (dest, c) \<Rightarrow>
      (dest[mi := butlast (dest ! mi)],
       c\<lparr>currentEvents := inc mi 1 (currentEvents c),
         currentMem := inc mi (mem_of (ms_data (last (dest ! mi)))) (currentMem c)\<rparr>))"

definition discard_stampless :: "nat \<Rightarrow> ModuleStorage list list \<times> EventCounters \<Rightarrow> ModuleStorage list list \<times> EventCounters" where
  "discard_stampless moduleCount st =
     (if list_all (\<lambda>mds. ms_timestamp (last mds) = None) (fst st)
      then case fold discard_module [0..<moduleCount] st of
             (dest, c) \<Rightarrow> (dest, c\<lparr>discardsNoStamp := discardsNoStamp c + 1\<rparr>)
      else st)"

definition fill_dt_histo :: "(nat \<Rightarrow> int option) \<Rightarrow> ModuleDeltaHisto \<Rightarrow> ModuleDeltaHisto" where
  "fill_dt_histo stamp dh =
     (case moduleIndexes dh of (i, j) \<Rightarrow>
      case (stamp i, stamp j) of
        (Some ts0, Some ts1) \<Rightarrow>
          dh\<lparr>histo := fst (fill (histo dh) (real_of_int (timestamp_difference ts0 ts1)))\<rparr>
      | _ \<Rightarrow> dh)"

definition newest_stamp :: "ModuleStorage list \<Rightarrow> int option" where
  "newest_stamp mds = (if mds = [] then None else ms_timestamp (last mds))"

definition histo_indexes_ok :: "nat \<Rightarrow> ModuleDeltaHisto list \<Rightarrow> bool" where
  "histo_indexes_ok n hs \<longleftrightarrow> list_all (\<lambda>dh. fst (moduleIndexes dh) < n \<and> snd (moduleIndexes dh) < n) hs"

definition apply_offset :: "ModuleConfig list \<Rightarrow> nat \<Rightarrow> ModuleStorage list list \<Rightarrow> ModuleStorage list list" where
  "apply_offset cfgs mi dest =
     (case newest_stamp (dest ! mi) of
        None \<Rightarrow> dest
      | Some ts \<Rightarrow>
          dest[mi := butlast (dest ! mi) @
            [(last (dest ! mi))\<lparr>ms_timestamp :=
               Some (uint (add_offset_to_timestamp (word_of_int ts) (mc_offset (cfgs ! mi))))\<rparr>]])"

definition collect_stamp :: "ModuleStorage list list \<Rightarrow> nat \<Rightarrow> int list \<times> int option \<Rightarrow> int list \<times> int option" where
  "collect_stamp dest mi st =
     (case newest_stamp (dest ! mi) of
        None \<Rightarrow> st
      | Some ts \<Rightarrow> (fst st @ [ts], if snd st = None then Some ts else snd st))"

definition assign_filler :: "int \<Rightarrow> nat \<Rightarrow> ModuleStorage list list \<Rightarrow> ModuleStorage list list" where
  "assign_filler fillerTs mi dest =
     (if dest ! mi \<noteq> [] \<and> ms_timestamp (last (dest ! mi)) = None
      then dest[mi := butlast (dest ! mi) @ [(last (dest ! mi))\<lparr>ms_timestamp := Some fillerTs\<rparr>]]
      else dest)"

definition assign_stamps ::
  "ModuleConfig list \<Rightarrow> nat \<Rightarrow> int list \<Rightarrow> ModuleStorage list list \<Rightarrow> int list \<times> ModuleStorage list list" where
  "assign_stamps cfgs moduleCount stamps dest =
     (let dest = fold (apply_offset cfgs) [0..<moduleCount] dest;
          (stamps, fillerTs) = fold (collect_stamp dest) [0..<moduleCount] (stamps, None)
      in (stamps, case fillerTs of None \<Rightarrow> dest | Some ts \<Rightarrow> fold (assign_filler ts) [0..<moduleCount] dest))"

text \<open>
  The part of \<open>recordModuleData\<close> that works on the data and counters of one
  enabled event. The loops over the modules of the incoming event index the
  queues and the configurations without a check.
\<close>

definition record_event ::
  "EventConfig \<Rightarrow> ModuleData list \<Rightarrow> PerEventData \<times> EventCounters
   \<Rightarrow> ((PerEventData \<times> EventCounters) \<times> bool) result" where
  "record_event eventCfg mds st =
     (case st of (ed, c) \<Rightarrow>
      let cfgs = moduleConfigs eventCfg; moduleCount = length mds
      in result_bind (record_module_data mds cfgs (moduleDatas ed) c) (\<lambda>((dest, c), recordOk).
         let (dest, c) = (if recordOk then discard_stampless moduleCount (dest, c)
                          else (dest, c\<lparr>recordingFailed := recordingFailed c + 1\<rparr>))
         in if \<not> histo_indexes_ok (length dest) (dtInputHistos c) then Inl UndefinedBehaviour
         else if length dest < moduleCount \<or> length cfgs < moduleCount then Inl UndefinedBehaviour
         else let (stamps, dest') = assign_stamps cfgs moduleCount (allTimestamps ed) dest
           in Inr ((\<lparr>allTimestamps = stamps, moduleDatas = dest'\<rparr>,
                    c\<lparr>dtInputHistos := map (fill_dt_histo (\<lambda>i. newest_stamp (dest ! i))) (dtInputHistos c),
                      ctr_allTimestamps := stamps,
                      allTimestampsMaxSize := max (allTimestampsMaxSize c) (of_nat (length stamps))\<rparr>), recordOk)))"

section \<open>The builder\<close>

text \<open>
  The entries of the output array hold pointers into the output storage; \<open>None\<close>
  stands for an entry whose pointer refers to storage that has been released.
\<close>

datatype builder_call =
    EventDataOut int nat "ModuleData option list"
  | SystemEventOut int "u32 list"

record EventBuilder2 =
  eb_cfg :: EventBuilderConfig
  perEventData :: "PerEventData list"
  outputModuleData :: "ModuleData option list"
  outputModuleStorage :: "ModuleStorage list"
  eb_counters :: "EventCounters list"
  protectedCounters :: "EventCounters list"
  calls :: "builder_call list"

definition EventCounters_of :: "EventConfig \<Rightarrow> HistoBinning \<Rightarrow> EventCounters" where
  "EventCounters_of ec bin =
     (let zeros = replicate (length (moduleConfigs ec)) 0
      in \<lparr>inputHits = zeros, outputHits = zeros, emptyInputs = zeros, discardsAge = zeros,
          stampFailed = zeros, moduleNames = map mc_name (moduleConfigs ec), currentEvents = zeros,
          currentMem = zeros, maxEvents = zeros, maxMem = zeros, recordingFailed = 0, discardsNoStamp = 0,
          ctr_allTimestamps = [], allTimestampsMaxSize = 0,
          dtInputHistos = create_dt_histograms (moduleConfigs ec) bin,
          dtOutputHistos = create_dt_histograms (moduleConfigs ec) bin, eventName = ec_name ec\<rparr>)"

definition make_EventBuilder2 :: "EventBuilderConfig \<Rightarrow> EventBuilder2 result" where
  "make_EventBuilder2 cfg =
     (if list_ex (\<lambda>ecfg. list_ex (\<lambda>mcfg. \<not> mc_hasDynamic mcfg \<and> mc_prefixSize mcfg = 0) (moduleConfigs ecfg))
           (eventConfigs cfg)
      then Inl RuntimeError
      else let ctrs = map (\<lambda>ec. EventCounters_of ec (dtHistoBinning cfg)) (eventConfigs cfg)
        in Inr \<lparr>eb_cfg = cfg,
                perEventData = map (\<lambda>ec. \<lparr>allTimestamps = [], moduleDatas = replicate (length (moduleConfigs ec)) []\<rparr>)
                  (eventConfigs cfg),
                outputModuleData = [], outputModuleStorage = [],
                eb_counters = ctrs, protectedCounters = ctrs, calls = []\<rparr>)"

definition event_index_ok :: "EventBuilder2 \<Rightarrow> int \<Rightarrow> bool" where
  "event_index_ok s ix \<longleftrightarrow>
     0 \<le> ix \<and> nat ix < length (eventConfigs (eb_cfg s)) \<and>
     length (eventConfigs (eb_cfg s)) = length (perEventData s) \<and>
     length (eb_counters s) = length (perEventData s)"

definition checkConsistency :: "EventBuilder2 \<Rightarrow> int \<Rightarrow> ModuleData list \<Rightarrow> bool" where
  "checkConsistency s ix mds \<longleftrightarrow>
     event_index_ok s ix \<and> list_all size_consistency_check mds"

definition checkModuleBuffers :: "EventBuilder2 \<Rightarrow> int \<Rightarrow> bool" where
  "checkModuleBuffers s ix \<longleftrightarrow>
     event_index_ok s ix \<and>
     list_all (\<lambda>mds. list_all storage_consistency_check mds \<and> list_all (\<lambda>md. ms_timestamp md \<noteq> None) mds)
       (moduleDatas (perEventData s ! nat ix))"

text \<open>Events that are not enabled are handed on directly.\<close>

definition count_passthrough :: "nat \<Rightarrow> EventCounters \<Rightarrow> EventCounters" where
  "count_passthrough mi c = c\<lparr>inputHits := inc mi 1 (inputHits c), outputHits := inc mi 1 (outputHits c)\<rparr>"

definition recordModuleData :: "int \<Rightarrow> ModuleData list \<Rightarrow> EventBuilder2 \<Rightarrow> (EventBuilder2 \<times> bool) result" where
  "recordModuleData ix mds s =
     (if \<not> checkConsistency s ix mds then Inr (s, False)
      else let ei = nat ix;
               ed = perEventData s ! ei;
               eventCfg = eventConfigs (eb_cfg s) ! ei;
               c = eb_counters s ! ei
        in if \<not> enabled eventCfg
           then if length (inputHits c) < length mds \<or> length (outputHits c) < length mds
                then Inl UndefinedBehaviour
                else Inr (s\<lparr>calls := calls s @ [EventDataOut (outputCrateIndex (eb_cfg s)) ei (map Some mds)],
                            eb_counters := (eb_counters s)[ei := fold count_passthrough [0..<length mds] c]\<rparr>, True)
           else result_map (\<lambda>((ed, c), recordOk).
                  (let ctrs = (eb_counters s)[ei := c]
                   in s\<lparr>perEventData := (perEventData s)[ei := ed], eb_counters := ctrs,
                        protectedCounters := ctrs\<rparr>, recordOk))
                  (record_event eventCfg mds (ed, c)))"

section \<open>Flushing\<close>

text \<open>
  The newest stamps of all modules with data must be too new for the window:
  \<open>None\<close> is the early return, otherwise the result is \<open>haveData\<close>.
\<close>

fun newest_stamps_loop :: "int \<Rightarrow> ModuleConfig list \<Rightarrow> ModuleStorage list list \<Rightarrow> bool \<Rightarrow> bool option result" where
  "newest_stamps_loop refTs [] qs haveData = Inr (Some haveData)"
| "newest_stamps_loop refTs (mc # mcs) [] haveData = Inl OutOfRange"
| "newest_stamps_loop refTs (mc # mcs) (q # qs) haveData =
     (if q = [] then newest_stamps_loop refTs mcs qs haveData
      else if wmatch (timestamp_match refTs (the (ms_timestamp (last q))) (mc_window mc)) \<noteq> too_new then Inr None
      else newest_stamps_loop refTs mcs qs True)"

definition count_removed :: "nat \<Rightarrow> ModuleStorage \<Rightarrow> EventCounters \<Rightarrow> EventCounters" where
  "count_removed mi m c =
     c\<lparr>currentEvents := inc mi (- 1) (currentEvents c), currentMem := inc mi (- mem_of (ms_data m)) (currentMem c)\<rparr>"

fun pop_too_old :: "int \<Rightarrow> u32 \<Rightarrow> nat \<Rightarrow> ModuleStorage list \<Rightarrow> EventCounters \<Rightarrow> ModuleStorage list \<times> EventCounters" where
  "pop_too_old refTs w mi [] c = ([], c)"
| "pop_too_old refTs w mi (m # ms) c =
     (if wmatch (timestamp_match refTs (the (ms_timestamp m)) w) = too_old
      then pop_too_old refTs w mi ms (count_removed mi m (c\<lparr>discardsAge := inc mi 1 (discardsAge c)\<rparr>))
      else (m # ms, c))"

definition pop_too_old_module ::
  "int \<Rightarrow> ModuleConfig list \<Rightarrow> nat \<Rightarrow> ModuleStorage list list \<times> EventCounters \<Rightarrow> ModuleStorage list list \<times> EventCounters" where
  "pop_too_old_module refTs cfgs mi st =
     (case st of (qs, c) \<Rightarrow>
      case pop_too_old refTs (mc_window (cfgs ! mi)) mi (qs ! mi) c of (q, c) \<Rightarrow> (qs[mi := q], c))"

text \<open>
  The data at the front of a queue that is in the window is moved to the output.
  With data that is too old the loop would not end; the code asserts that there
  is none left.
\<close>

definition take_output ::
  "int \<Rightarrow> ModuleConfig list \<Rightarrow> nat \<Rightarrow> ModuleStorage list \<times> ModuleStorage list list \<times> EventCounters
   \<Rightarrow> (ModuleStorage list \<times> ModuleStorage list list \<times> EventCounters) result" where
  "take_output refTs cfgs mi st =
     (case st of (outs, qs, c) \<Rightarrow>
      let outs = outs[mi := ModuleStorage_init]
      in case qs ! mi of
           [] \<Rightarrow> Inr (outs, qs, c)
         | m # ms \<Rightarrow>
             (case wmatch (timestamp_match refTs (the (ms_timestamp m)) (mc_window (cfgs ! mi))) of
                too_old \<Rightarrow> Inl AssertionFailure
              | in_window \<Rightarrow> Inr (outs[mi := m], qs[mi := ms],
                               count_removed mi m (c\<lparr>outputHits := inc mi 1 (outputHits c)\<rparr>))
              | too_new \<Rightarrow> Inr (outs, qs, c)))"

definition resize :: "nat \<Rightarrow> 'a \<Rightarrow> 'a list \<Rightarrow> 'a list" where
  "resize n x xs = take n xs @ replicate (n - length xs) x"

text \<open>All output storage is replaced: entries that refer to words of it are left dangling.\<close>

definition invalidate :: "ModuleData option list \<Rightarrow> ModuleData option list" where
  "invalidate outs = map (\<lambda>md. case md of None \<Rightarrow> None | Some d \<Rightarrow> if md_data d = [] then Some d else None) outs"

definition output_module ::
  "ModuleConfig list \<Rightarrow> nat \<Rightarrow> ModuleStorage list \<times> ModuleData option list
   \<Rightarrow> ModuleStorage list \<times> ModuleData option list" where
  "output_module cfgs mi st =
     (case st of (storage, outs) \<Rightarrow>
      if ms_data (storage ! mi) = []
      then (storage[mi := (storage ! mi)\<lparr>ms_prefixSize := mc_prefixSize (cfgs ! mi),
                                         ms_hasDynamic := mc_hasDynamic (cfgs ! mi),
                                         ms_data := replicate (mc_prefixSize (cfgs ! mi)) 0\<rparr>], outs)
      else (storage, outs[mi := Some (to_module_data (storage ! mi))]))"

definition flush_queues ::
  "EventConfig \<Rightarrow> int \<Rightarrow> ModuleStorage list \<Rightarrow> PerEventData \<times> EventCounters
   \<Rightarrow> (ModuleStorage list \<times> PerEventData \<times> EventCounters) result" where
  "flush_queues eventCfg refTs storage st =
     (case st of (ed, c) \<Rightarrow>
      let cfgs = moduleConfigs eventCfg;
          moduleCount = length cfgs;
          stamps = dropWhile (\<lambda>ts. ts = refTs) (allTimestamps ed)
      in if \<not> covers moduleCount c then Inl UndefinedBehaviour
         else result_map (\<lambda>(storage, qs, c). (storage, \<lparr>allTimestamps = stamps, moduleDatas = qs\<rparr>, c))
           (result_foldM (take_output refTs cfgs) [0..<moduleCount]
             (resize moduleCount ModuleStorage_init storage,
              fold (pop_too_old_module refTs cfgs) [0..<moduleCount] (moduleDatas ed, c))))"

definition output_event ::
  "ModuleConfig list \<Rightarrow> nat \<Rightarrow> ModuleStorage list \<times> PerEventData \<times> EventCounters \<Rightarrow> EventBuilder2 \<Rightarrow> EventBuilder2 result" where
  "output_event cfgs ei st s =
     (case st of (storage, ed, c) \<Rightarrow>
      if \<not> histo_indexes_ok (length storage) (dtOutputHistos c) then Inl UndefinedBehaviour
      else let c = c\<lparr>dtOutputHistos := map (fill_dt_histo (\<lambda>i. ms_timestamp (storage ! i))) (dtOutputHistos c)\<rparr>;
               s = s\<lparr>perEventData := (perEventData s)[ei := ed], eb_counters := (eb_counters s)[ei := c],
                     outputModuleStorage := storage, outputModuleData := invalidate (outputModuleData s)\<rparr>
           in if list_ex (\<lambda>ms. ms_data ms \<noteq> []) storage
              then case fold (output_module cfgs) [0..<length cfgs]
                          (storage, resize (length cfgs) (Some ModuleData_init) (outputModuleData s)) of
                     (storage, outs) \<Rightarrow>
                       Inr (s\<lparr>outputModuleStorage := storage, outputModuleData := outs,
                              calls := calls s @ [EventDataOut (outputCrateIndex (eb_cfg s)) ei outs]\<rparr>)
              else Inr s)"

definition tryFlush :: "int \<Rightarrow> EventBuilder2 \<Rightarrow> (EventBuilder2 \<times> bool) result" where
  "tryFlush ix s =
     (if \<not> checkModuleBuffers s ix then Inr (s, False)
      else let ei = nat ix;
               ed = perEventData s ! ei;
               eventCfg = eventConfigs (eb_cfg s) ! ei;
               c = eb_counters s ! ei
        in if \<not> enabled eventCfg then Inr (s, False)
           else case allTimestamps ed of
             [] \<Rightarrow> Inr (s, False)
           | refTs # _ \<Rightarrow>
               result_bind (newest_stamps_loop refTs (moduleConfigs eventCfg) (moduleDatas ed) False) (\<lambda>newest.
               if newest \<noteq> Some True then Inr (s, False)
               else result_bind (flush_queues eventCfg refTs (outputModuleStorage s) (ed, c)) (\<lambda>st.
                    result_map (\<lambda>s. (s, True)) (output_event (moduleConfigs eventCfg) ei st s))))"

text \<open>One pass of the loop in \<open>forceFlush\<close> over a module.\<close>

type_synonym force_state =
  "ModuleStorage list list \<times> EventCounters \<times> ModuleStorage list \<times> ModuleData option list"

definition force_module :: "nat \<Rightarrow> force_state \<times> bool \<Rightarrow> force_state \<times> bool" where
  "force_module mi st =
     (case st of ((qs, c, storage, outs), haveData) \<Rightarrow>
      case qs ! mi of
        [] \<Rightarrow> ((qs, c, storage, outs[mi := Some ModuleData_init]), haveData)
      | m # ms \<Rightarrow> ((qs[mi := ms], count_removed mi m (c\<lparr>outputHits := inc mi 1 (outputHits c)\<rparr>),
                    storage[mi := m], outs[mi := Some (to_module_data m)]), True))"

definition force_pass :: "nat \<Rightarrow> force_state \<Rightarrow> force_state \<times> bool" where
  "force_pass moduleCount st = fold force_module [0..<moduleCount] (st, False)"

lemma force_module_decreases:
  assumes "force_module mi ((qs, c, storage, outs), h) = ((qs', c', storage', outs'), h')" "mi < length qs"
  shows "length qs' = length qs \<and> (if h' \<and> \<not> h then sum_list (map length qs') < sum_list (map length qs)
    else sum_list (map length qs') \<le> sum_list (map length qs)) \<and> (h \<longrightarrow> h')"
proof (cases "qs ! mi")
  case Nil
  then show ?thesis using assms by (auto simp: force_module_def)
next
  case (Cons m ms)
  then have "length (qs ! mi) = Suc (length ms)" by simp
  then have "sum_list (map length (qs[mi := ms])) < sum_list (map length qs)"
    using assms(2) elem_le_sum_list [of mi "map length qs"] by (simp add: map_update sum_list_update)
  then show ?thesis using assms Cons by (auto simp: force_module_def)
qed

lemma force_pass_decreases:
  assumes "force_pass moduleCount (qs, c, storage, outs) = ((qs', c', storage', outs'), True)" "moduleCount \<le> length qs"
  shows "length qs' = length qs" "sum_list (map length qs') < sum_list (map length qs)"
proof -
  have "k \<le> length qs \<Longrightarrow>
      (case fold force_module [0..<k] ((qs, c, storage, outs), False) of ((qs', _), h') \<Rightarrow>
        length qs' = length qs \<and> sum_list (map length qs') \<le> sum_list (map length qs) \<and>
        (h' \<longrightarrow> sum_list (map length qs') < sum_list (map length qs)))" for k
  proof (induction k)
    case (Suc k)
    obtain q1 c1 s1 o1 h1 where st: "fold force_module [0..<k] ((qs, c, storage, outs), False) = ((q1, c1, s1, o1), h1)"
      by (metis prod.exhaust)
    obtain q2 c2 s2 o2 h2 where st': "force_module k ((q1, c1, s1, o1), h1) = ((q2, c2, s2, o2), h2)"
      by (metis prod.exhaust)
    show ?case using Suc force_module_decreases [OF st'] by (auto simp: st st' split: if_splits)
  qed simp
  from this [of moduleCount] assms show "length qs' = length qs" "sum_list (map length qs') < sum_list (map length qs)"
    by (auto simp: force_pass_def)
qed

function force_loop ::
  "int \<Rightarrow> nat \<Rightarrow> force_state \<Rightarrow> builder_call list \<Rightarrow> u64 \<Rightarrow> force_state \<times> builder_call list \<times> u64" where
  "force_loop crate ei st out result =
     (case force_pass (length (fst st)) st of (st', haveData) \<Rightarrow>
      if haveData
      then force_loop crate ei st' (out @ [EventDataOut crate ei (snd (snd (snd st')))]) (result + 1)
      else (st', out, result))"
  by pat_completeness auto
termination
proof (relation "measure (\<lambda>(_, _, st, _, _). sum_list (map length (fst st)))", simp)
  fix crate :: int and ei :: nat and st st' :: force_state and h out and result :: u64
  assume "(st', h) = force_pass (length (fst st)) st" h
  then show "((crate, ei, st', out @ [EventDataOut crate ei (snd (snd (snd st')))], result + 1), (crate, ei, st, out, result))
      \<in> measure (\<lambda>(_, _, st, _, _). sum_list (map length (fst st)))"
    by (cases st; cases st') (auto dest: force_pass_decreases(2) [OF sym])
qed

declare force_loop.simps [simp del]

definition forceFlush :: "nat \<Rightarrow> EventBuilder2 \<Rightarrow> (EventBuilder2 \<times> u64) result" where
  "forceFlush ei s =
     (if length (perEventData s) \<le> ei then Inl OutOfRange
      else let ed = perEventData s ! ei;
               moduleCount = length (moduleDatas ed);
               c = eb_counters s ! ei
        in if length (eb_counters s) \<le> ei \<or> \<not> covers moduleCount c then Inl UndefinedBehaviour
           else case force_loop (outputCrateIndex (eb_cfg s)) ei
                       (moduleDatas ed, c, resize moduleCount ModuleStorage_init (outputModuleStorage s),
                        resize moduleCount (Some ModuleData_init) (outputModuleData s)) (calls s) 0 of
                  ((qs, c, storage, outs), out, result) \<Rightarrow>
                    Inr (s\<lparr>perEventData := (perEventData s)[ei := ed\<lparr>moduleDatas := qs\<rparr>],
                           eb_counters := (eb_counters s)[ei := c], outputModuleStorage := storage,
                           outputModuleData := outs, calls := out\<rparr>, result))"

lemma flush_queues_stamps:
  "flush_queues eventCfg refTs storage (ed, c) = Inr (storage', ed', c') \<Longrightarrow>
   allTimestamps ed' = dropWhile (\<lambda>ts. ts = refTs) (allTimestamps ed)"
  by (auto simp: flush_queues_def Let_def split: if_splits prod.splits)

lemma tryFlush_TrueD:
  assumes "tryFlush ix s = Inr (s', True)"
  obtains refTs stamps st where
    "checkModuleBuffers s ix" "enabled (eventConfigs (eb_cfg s) ! nat ix)"
    "allTimestamps (perEventData s ! nat ix) = refTs # stamps"
    "newest_stamps_loop refTs (moduleConfigs (eventConfigs (eb_cfg s) ! nat ix))
       (moduleDatas (perEventData s ! nat ix)) False = Inr (Some True)"
    "flush_queues (eventConfigs (eb_cfg s) ! nat ix) refTs (outputModuleStorage s)
       (perEventData s ! nat ix, eb_counters s ! nat ix) = Inr st"
    "output_event (moduleConfigs (eventConfigs (eb_cfg s) ! nat ix)) (nat ix) st s = Inr s'"
proof -
  have "checkModuleBuffers s ix" "enabled (eventConfigs (eb_cfg s) ! nat ix)"
    using assms by (auto simp: tryFlush_def Let_def split: if_splits)
  moreover from this assms obtain refTs stamps where "allTimestamps (perEventData s ! nat ix) = refTs # stamps"
    by (auto simp: tryFlush_def Let_def split: list.splits)
  ultimately show ?thesis
    using assms that [of refTs stamps] by (auto simp: tryFlush_def Let_def split: if_splits)
qed

lemma output_event_perEventData:
  "output_event cfgs ei (storage, ed, c) s = Inr s' \<Longrightarrow> perEventData s' = (perEventData s)[ei := ed]"
  by (auto simp: output_event_def Let_def split: if_splits prod.splits)

lemma tryFlush_shrinks:
  assumes "tryFlush ix s = Inr (s', True)"
  shows "length (allTimestamps (perEventData s' ! nat ix)) < length (allTimestamps (perEventData s ! nat ix))"
proof -
  obtain refTs stamps st where a: "checkModuleBuffers s ix"
    "allTimestamps (perEventData s ! nat ix) = refTs # stamps"
    "flush_queues (eventConfigs (eb_cfg s) ! nat ix) refTs (outputModuleStorage s)
       (perEventData s ! nat ix, eb_counters s ! nat ix) = Inr st"
    "output_event (moduleConfigs (eventConfigs (eb_cfg s) ! nat ix)) (nat ix) st s = Inr s'"
    using assms by (rule tryFlush_TrueD)
  obtain storage ed c where st: "st = (storage, ed, c)" by (cases st)
  have "nat ix < length (perEventData s)"
    using a(1) by (simp add: checkModuleBuffers_def event_index_ok_def)
  then show ?thesis
    using flush_queues_stamps [OF a(3) [unfolded st]] output_event_perEventData [OF a(4) [unfolded st]] a(2)
      length_dropWhile_le [of "\<lambda>ts. ts = refTs" stamps]
    by simp
qed

function flush_loop :: "nat \<Rightarrow> EventBuilder2 \<Rightarrow> u64 \<Rightarrow> (EventBuilder2 \<times> u64) result" where
  "flush_loop ei s flushed =
     (case tryFlush (int ei) s of
        Inl e \<Rightarrow> Inl e
      | Inr (s', again) \<Rightarrow> if again then flush_loop ei s' (flushed + 1) else Inr (s', flushed))"
  by pat_completeness auto
termination
proof (relation "measure (\<lambda>(ei, s, _). length (allTimestamps (perEventData s ! ei)))", simp)
  fix ei s and flushed :: u64 and p s' again
  assume "tryFlush (int ei) s = Inr p" "(s', again) = p" again
  then have "tryFlush (int ei) s = Inr (s', True)" by simp
  from tryFlush_shrinks [OF this]
  show "((ei, s', flushed + 1), (ei, s, flushed)) \<in> measure (\<lambda>(ei, s, _). length (allTimestamps (perEventData s ! ei)))"
    by simp
qed

declare flush_loop.simps [simp del]

definition eb_flush :: "bool \<Rightarrow> EventBuilder2 \<Rightarrow> (EventBuilder2 \<times> u64) result" where
  "eb_flush force s =
     result_map (\<lambda>(s, flushed). (s\<lparr>protectedCounters := eb_counters s\<rparr>, flushed))
       (result_foldM (\<lambda>ei (s, flushed).
            if force then result_map (\<lambda>(s, n). (s, flushed + n)) (forceFlush ei s) else flush_loop ei s flushed)
          [0..<length (perEventData s)] (s, 0))"

text \<open>The public operations; the result of recording is not returned.\<close>

definition eb_recordModuleData :: "int \<Rightarrow> ModuleData list \<Rightarrow> EventBuilder2 \<Rightarrow> (EventBuilder2 \<times> bool) result" where
  "eb_recordModuleData ix mds s =
     (if ix < 0 \<or> length (perEventData s) \<le> nat ix then Inr (s, False)
      else result_map (\<lambda>(s, _). (s, True)) (recordModuleData ix mds s))"

definition handleSystemEvent :: "u32 list \<Rightarrow> EventBuilder2 \<Rightarrow> EventBuilder2" where
  "handleSystemEvent words s = s\<lparr>calls := calls s @ [SystemEventOut (outputCrateIndex (eb_cfg s)) words]\<rparr>"

definition isEnabledForAnyEvent :: "EventBuilder2 \<Rightarrow> bool" where
  "isEnabledForAnyEvent s \<longleftrightarrow> list_ex enabled (eventConfigs (eb_cfg s))"

definition getCounters :: "EventBuilder2 \<Rightarrow> EventCounters list" where
  "getCounters s = protectedCounters s"

definition getInputDtHistograms :: "EventCounters list \<Rightarrow> ModuleDeltaHisto list list" where
  "getInputDtHistograms ctrs = map dtInputHistos ctrs"

definition getInputDtHistograms_at :: "EventCounters list \<Rightarrow> int \<Rightarrow> ModuleDeltaHisto list" where
  "getInputDtHistograms_at ctrs ix =
     (if 0 \<le> ix \<and> nat ix < length ctrs then dtInputHistos (ctrs ! nat ix) else [])"

definition getOutputDtHistograms :: "EventCounters list \<Rightarrow> ModuleDeltaHisto list list" where
  "getOutputDtHistograms ctrs = map dtOutputHistos ctrs"

definition getOutputDtHistograms_at :: "EventCounters list \<Rightarrow> int \<Rightarrow> ModuleDeltaHisto list" where
  "getOutputDtHistograms_at ctrs ix =
     (if 0 \<le> ix \<and> nat ix < length ctrs then dtOutputHistos (ctrs ! nat ix) else [])"

end
