(* ===== verification/Event_Builder2_Invariant.thy ===== *)
theory Event_Builder2_Invariant
  imports Event_Builder2
begin

text \<open>
  The state invariant of the event builder: the shape of its vectors, the
  timestamps of the queued data, and the balance of the counters of each module
  with the length of its queue.
\<close>

section \<open>The balance of the counters\<close>

definition sized :: "nat \<Rightarrow> EventCounters \<Rightarrow> bool" where
  "sized n c \<longleftrightarrow> list_all (\<lambda>v. length v = n)
     [inputHits c, outputHits c, emptyInputs c, discardsAge c, stampFailed c,
      currentEvents c, currentMem c, maxEvents c, maxMem c]"

text \<open>\<open>d\<close> is the number of events without any timestamp that were discarded.\<close>

definition balanced :: "nat \<Rightarrow> (nat \<Rightarrow> u64) \<Rightarrow> ModuleStorage list list \<times> EventCounters \<Rightarrow> bool" where
  "balanced n d st \<longleftrightarrow> (case st of (qs, c) \<Rightarrow>
     length qs = n \<and> sized n c \<and>
     (\<forall>mi < n. inputHits c ! mi = outputHits c ! mi + discardsAge c ! mi + of_nat (length (qs ! mi)) + d mi \<and>
        currentEvents c ! mi = of_nat (length (qs ! mi)) + 2 * d mi))"

definition static_part :: "EventCounters \<Rightarrow> u64 \<times> u64 \<times> ModuleDeltaHisto list \<times> ModuleDeltaHisto list" where
  "static_part c = (recordingFailed c, discardsNoStamp c, dtInputHistos c, dtOutputHistos c)"

lemma covers_sized: "sized n c \<Longrightarrow> covers n c"
  by (simp add: sized_def covers_def)

lemmas balance_defs = balanced_def sized_def

lemma balanced_record_module:
  assumes "balanced n d st" "mi < n"
  shows "balanced n d (record_module cfgs mds mi st)"
  using assms by (cases st) (simp add: balance_defs record_module_def Let_def nth_list_update add_ac)

lemma count_removed_simps [simp]:
  "inputHits (count_removed mi m c) = inputHits c" "outputHits (count_removed mi m c) = outputHits c"
  "discardsAge (count_removed mi m c) = discardsAge c" "stampFailed (count_removed mi m c) = stampFailed c"
  "emptyInputs (count_removed mi m c) = emptyInputs c" "maxEvents (count_removed mi m c) = maxEvents c"
  "maxMem (count_removed mi m c) = maxMem c"
  "currentEvents (count_removed mi m c) = inc mi (- 1) (currentEvents c)"
  "length (currentMem (count_removed mi m c)) = length (currentMem c)"
  by (simp_all add: count_removed_def)

lemma balanced_discard_module:
  assumes "balanced n d st" "mi < n" "fst st ! mi \<noteq> []"
  shows "balanced n (d(mi := d mi + 1)) (discard_module mi st)"
proof -
  have "of_nat (length (fst st ! mi)) = 1 + of_nat (length (butlast (fst st ! mi)) :: nat) + (0 :: u64)"
    using assms(3) by (cases "fst st ! mi" rule: rev_cases) auto
  then show ?thesis
    using assms by (cases st) (auto simp: balance_defs discard_module_def nth_list_update algebra_simps)
qed

lemma balanced_lengths:
  assumes "balanced n d (qs, c)" "length qs' = n" "\<And>mi. mi < n \<Longrightarrow> length (qs' ! mi) = length (qs ! mi)"
  shows "balanced n d (qs', c)"
  using assms by (simp add: balance_defs)

lemma balanced_count_removed:
  assumes "balanced n d (qs, c)" "mi < n" "qs ! mi = m # ms"
  shows "balanced n d (qs[mi := ms], count_removed mi m (c\<lparr>discardsAge := inc mi 1 (discardsAge c)\<rparr>))"
    and "balanced n d (qs[mi := ms], count_removed mi m (c\<lparr>outputHits := inc mi 1 (outputHits c)\<rparr>))"
  using assms by (simp_all add: balance_defs nth_list_update add_ac)

lemma static_part_simps [simp]:
  "static_part (count_removed mi m c) = static_part c"
  "static_part (c\<lparr>discardsAge := v\<rparr>) = static_part c" "static_part (c\<lparr>outputHits := v\<rparr>) = static_part c"
  by (simp_all add: static_part_def count_removed_def)

lemma static_part_steps [simp]:
  "static_part (snd (record_module cfgs mds mi st)) = static_part (snd st)"
  "static_part (snd (discard_module mi st)) = static_part (snd st)"
  by (simp_all add: static_part_def record_module_def discard_module_def Let_def split: prod.split)

section \<open>The stamps of an incoming event\<close>

definition stamp_ok :: "int \<Rightarrow> bool" where
  "stamp_ok ts \<longleftrightarrow> 0 \<le> ts \<and> ts < 2 ^ 30"

definition entry_ok :: "ModuleStorage \<Rightarrow> bool" where
  "entry_ok m \<longleftrightarrow> storage_consistency_check m \<and> (case ms_timestamp m of None \<Rightarrow> False | Some ts \<Rightarrow> stamp_ok ts)"

text \<open>The newest entry of a queue may still lack its stamp, or hold one of 32 bits.\<close>

definition newest_open :: "ModuleStorage list \<Rightarrow> bool" where
  "newest_open q \<longleftrightarrow> q = [] \<or> list_all entry_ok (butlast q) \<and> storage_consistency_check (last q)"

lemma entry_ok_open: "list_all entry_ok q \<Longrightarrow> newest_open q"
  by (cases q rule: rev_cases) (auto simp: newest_open_def entry_ok_def)

lemma stamp_ok_offset: "stamp_ok (uint (add_offset_to_timestamp ts offs))"
proof -
  have "add_offset_to_timestamp ts offs = take_bit 30 (ts + word_of_int offs)"
    by (simp add: add_offset_to_timestamp_def mask_simps)
  then show ?thesis
    using take_bit_int_less_exp [of 30 "uint (ts + word_of_int offs)"] by (simp add: stamp_ok_def unsigned_take_bit_eq)
qed

text \<open>What the three loops do to a single queue.\<close>

definition offset_queue :: "ModuleConfig \<Rightarrow> ModuleStorage list \<Rightarrow> ModuleStorage list" where
  "offset_queue mc q = (case newest_stamp q of
     None \<Rightarrow> q
   | Some ts \<Rightarrow> butlast q @ [(last q)\<lparr>ms_timestamp :=
       Some (uint (add_offset_to_timestamp (word_of_int ts) (mc_offset mc)))\<rparr>])"

definition fill_queue :: "int \<Rightarrow> ModuleStorage list \<Rightarrow> ModuleStorage list" where
  "fill_queue ts q = (if q \<noteq> [] \<and> ms_timestamp (last q) = None
     then butlast q @ [(last q)\<lparr>ms_timestamp := Some ts\<rparr>] else q)"

lemma update_same: "xs ! i = x \<Longrightarrow> xs[i := x] = xs"
  by (metis list_update_id)

lemma loops_on_queues:
  "apply_offset cfgs = (\<lambda>mi qs. qs[mi := offset_queue (cfgs ! mi) (qs ! mi)])"
  "assign_filler ts = (\<lambda>mi qs. qs[mi := fill_queue ts (qs ! mi)])"
  by (auto simp: fun_eq_iff apply_offset_def offset_queue_def assign_filler_def fill_queue_def update_same
      split: option.split)

lemma offset_queue_simps [simp]:
  "length (offset_queue mc q) = length q" "offset_queue mc q = [] \<longleftrightarrow> q = []"
  "newest_stamp (offset_queue mc q) =
     map_option (\<lambda>ts. uint (add_offset_to_timestamp (word_of_int ts) (mc_offset mc))) (newest_stamp q)"
  by (auto simp: offset_queue_def newest_stamp_def split: option.splits)

lemma fill_queue_length [simp]: "length (fill_queue ts q) = length q"
  by (auto simp: fill_queue_def)

lemma offset_queue_open:
  assumes "newest_open q"
  shows "newest_open (offset_queue mc q)"
  using assms by (cases q rule: rev_cases)
    (auto simp: newest_open_def offset_queue_def newest_stamp_def storage_consistency_check_def split: option.split)

lemma newest_stamp_offset_ok: "newest_stamp (offset_queue mc q) = Some ts \<Longrightarrow> stamp_ok ts"
  by (auto simp: stamp_ok_offset)

lemma fill_queue_ok:
  assumes "newest_open q" "\<And>t. newest_stamp q = Some t \<Longrightarrow> stamp_ok t" "stamp_ok ts"
  shows "list_all entry_ok (fill_queue ts q)"
  using assms by (cases q rule: rev_cases)
    (auto simp: newest_open_def fill_queue_def newest_stamp_def entry_ok_def storage_consistency_check_def split: option.split)

lemma collect_stamps:
  "fold (collect_stamp dest) is (stamps, filler) =
     (stamps @ List.map_filter (\<lambda>i. newest_stamp (dest ! i)) is,
      case filler of Some t \<Rightarrow> Some t | None \<Rightarrow> (case List.map_filter (\<lambda>i. newest_stamp (dest ! i)) is of [] \<Rightarrow> None | t # _ \<Rightarrow> Some t))"
  by (induction "is" arbitrary: stamps filler)
     (auto simp: collect_stamp_def List.map_filter_simps split: option.split)

lemma map_filter_eq_Nil: "List.map_filter f xs = [] \<longleftrightarrow> (\<forall>x \<in> set xs. f x = None)"
  by (induction xs) (auto simp: List.map_filter_simps split: option.split)

lemma set_map_filter: "t \<in> set (List.map_filter f xs) \<longleftrightarrow> (\<exists>x \<in> set xs. f x = Some t)"
  by (induction xs) (auto simp: List.map_filter_simps split: option.split)

lemma assign_stamps_ok:
  assumes dest: "length dest = n" "k \<le> n" "\<forall>j < k. newest_open (dest ! j)"
    and rest: "\<forall>j < n. k \<le> j \<longrightarrow> list_all entry_ok (dest ! j)"
    and some: "(\<exists>j < k. newest_stamp (dest ! j) \<noteq> None) \<or> (\<forall>j < k. list_all entry_ok (dest ! j))"
    and stamps: "list_all stamp_ok stamps"
    and result: "assign_stamps cfgs k stamps dest = (stamps', dest')"
  shows "length dest' = n" "\<And>j. j < n \<Longrightarrow> length (dest' ! j) = length (dest ! j)"
    "\<And>j. j < n \<Longrightarrow> list_all entry_ok (dest' ! j)" "list_all stamp_ok stamps'"
proof -
  define off where "off = fold (apply_offset cfgs) [0..<k] dest"
  have off: "length off = n" "j < n \<Longrightarrow> off ! j = (if j < k then offset_queue (cfgs ! j) (dest ! j) else dest ! j)" for j
    using fold_update_nth [where n = k and xs = dest and g = "\<lambda>mi. offset_queue (cfgs ! mi)"] dest(1,2) by (simp_all add: off_def loops_on_queues)
  define ts where "ts = List.map_filter (\<lambda>i. newest_stamp (off ! i)) [0..<k]"
  have ts: "list_all stamp_ok ts"
    using off(2) dest(2) by (auto simp: ts_def list_all_iff set_map_filter stamp_ok_offset)
  have eq: "stamps' = stamps @ ts"
    "dest' = (case ts of [] \<Rightarrow> off | t # _ \<Rightarrow> fold (assign_filler t) [0..<k] off)"
    using result by (auto simp: assign_stamps_def Let_def collect_stamps ts_def split: list.splits simp flip: off_def)
  show "list_all stamp_ok stamps'" using ts stamps by (simp add: eq)
  show "length dest' = n" "\<And>j. j < n \<Longrightarrow> length (dest' ! j) = length (dest ! j)"
    using fold_update_nth [where n = k and xs = off and g = "\<lambda>_. fill_queue t" for t] off dest(2)
    by (auto simp: eq loops_on_queues split: list.split)
  fix j assume j: "j < n"
  show "list_all entry_ok (dest' ! j)"
  proof (cases ts)
    case Nil
    then have none: "\<forall>i < k. newest_stamp (off ! i) = None" by (simp add: ts_def map_filter_eq_Nil)
    then have "\<forall>i < k. newest_stamp (dest ! i) = None" using off dest(2) by simp
    with some rest j have "list_all entry_ok (dest ! j)" "j < k \<Longrightarrow> newest_stamp (dest ! j) = None"
      by (cases "j < k"; auto)+
    then show ?thesis using j off by (auto simp: eq Nil offset_queue_def)
  next
    case (Cons t ts')
    then have "stamp_ok t" using ts by simp
    then show ?thesis
      using fold_update_nth(2) [of k off j "\<lambda>_. fill_queue t"] off dest rest j newest_stamp_offset_ok
      by (auto simp: eq Cons loops_on_queues intro!: fill_queue_ok offset_queue_open)
  qed
qed

section \<open>Recording an event\<close>

definition event_ok :: "EventConfig \<Rightarrow> PerEventData \<times> EventCounters \<Rightarrow> bool" where
  "event_ok ec st \<longleftrightarrow> (case st of (ed, c) \<Rightarrow>
     let n = length (moduleConfigs ec)
     in balanced n (\<lambda>_. discardsNoStamp c) (moduleDatas ed, c) \<and>
        histo_indexes_ok n (dtInputHistos c) \<and> histo_indexes_ok n (dtOutputHistos c) \<and>
        list_all (list_all entry_ok) (moduleDatas ed) \<and> list_all stamp_ok (allTimestamps ed))"

lemma fst_record_module:
  "fst (record_module cfgs mds mi st) = (fst st)[mi := fst st ! mi @
     [ModuleStorage_of (mds ! mi) (map_option uint (tsExtractor (cfgs ! mi) (md_data (mds ! mi))))]]"
  by (simp add: record_module_def Let_def split: prod.split)

lemma fst_discard_module: "fst (discard_module mi st) = (fst st)[mi := butlast (fst st ! mi)]"
  by (simp add: discard_module_def split: prod.split)

lemma record_queues:
  fixes cfgs mds dest c
  defines "r \<equiv> fold (record_module cfgs mds) [0..<length mds] (dest, c)"
  assumes n: "length dest = length mds" and ok: "list_all size_consistency_check mds" "list_all (list_all entry_ok) dest"
    and bal: "balanced (length mds) d (dest, c)"
  shows "balanced (length mds) d r" "static_part (snd r) = static_part c"
    "\<And>j. j < length mds \<Longrightarrow> fst r ! j \<noteq> [] \<and> butlast (fst r ! j) = dest ! j \<and> newest_open (fst r ! j)"
proof -
  show "balanced (length mds) d r" "static_part (snd r) = static_part c"
    using fold_upt_invariant [where n = "length mds" and s = "(dest, c)" and f = "record_module cfgs mds"
        and P = "\<lambda>_ st. balanced (length mds) d st \<and> static_part (snd st) = static_part c"]
      bal balanced_record_module by (auto simp: r_def)
  define new where "new mi = ModuleStorage_of (mds ! mi) (map_option uint (tsExtractor (cfgs ! mi) (md_data (mds ! mi))))" for mi
  have r: "fst r = fold (\<lambda>mi qs. qs[mi := qs ! mi @ [new mi]]) [0..<length mds] dest"
    unfolding r_def by (subst fold_fst [where h = "\<lambda>mi qs. qs[mi := qs ! mi @ [new mi]]"])
      (simp_all add: fst_record_module new_def)
  fix j assume j: "j < length mds"
  then have "fst r ! j = dest ! j @ [new j]"
    using fold_update_nth(2) [of "length mds" dest j "\<lambda>mi q. q @ [new mi]"] n by (simp add: r)
  moreover have "storage_consistency_check (new j)" "list_all entry_ok (dest ! j)"
    using ok j n by (auto simp: new_def list_all_length storage_consistency_check_def ModuleStorage_of_def
        size_consistency_check_def)
  ultimately show "fst r ! j \<noteq> [] \<and> butlast (fst r ! j) = dest ! j \<and> newest_open (fst r ! j)"
    by (simp add: newest_open_def)
qed

lemma balanced_discard_all:
  assumes "balanced n (\<lambda>_. e) st" "\<forall>j < n. fst st ! j \<noteq> []"
  shows "balanced n (\<lambda>_. e + 1) (fold discard_module [0..<n] st)"
    "static_part (snd (fold discard_module [0..<n] st)) = static_part (snd st)"
    "j < n \<Longrightarrow> fst (fold discard_module [0..<n] st) ! j = butlast (fst st ! j)"
proof -
  define P where "P i s \<longleftrightarrow> balanced n (\<lambda>mi. if mi < i then e + 1 else e) s \<and>
      static_part (snd s) = static_part (snd st) \<and> (\<forall>j < n. i \<le> j \<longrightarrow> fst s ! j \<noteq> [])" for i s
  have len: "length (fst s) = n" if "balanced n d s" for d s using that by (auto simp: balance_defs split: prod.splits)
  have "P n (fold discard_module [0..<n] st)"
  proof (rule fold_upt_invariant [where P = P])
    show "P 0 st" using assms by (simp add: P_def)
    fix i s assume i: "i < n" "P i s"
    have "(\<lambda>mi. if mi < i then e + 1 else e)(i := e + 1) = (\<lambda>mi. if mi < Suc i then e + 1 else e)"
      by (auto simp: fun_eq_iff)
    then show "P (Suc i) (discard_module i s)"
      using i balanced_discard_module [of n "\<lambda>mi. if mi < i then e + 1 else e" s i] len
      by (auto simp: P_def fst_discard_module)
  qed
  moreover have "balanced n (\<lambda>mi. if mi < n then e + 1 else e) s = balanced n (\<lambda>_. e + 1) s" for s
    by (auto simp: balance_defs split: prod.split)
  ultimately show "balanced n (\<lambda>_. e + 1) (fold discard_module [0..<n] st)"
    "static_part (snd (fold discard_module [0..<n] st)) = static_part (snd st)"
    by (simp_all add: P_def)
  have "fst (fold discard_module [0..<n] st) = fold (\<lambda>mi qs. qs[mi := butlast (qs ! mi)]) [0..<n] (fst st)"
    by (rule fold_fst) (simp add: fst_discard_module)
  then show "j < n \<Longrightarrow> fst (fold discard_module [0..<n] st) ! j = butlast (fst st ! j)"
    using fold_update_nth(2) [of n "fst st" j "\<lambda>_. butlast"] len [OF assms(1)] by simp
qed

lemma histo_indexes_fill [simp]: "histo_indexes_ok n (map (fill_dt_histo f) hs) = histo_indexes_ok n hs"
proof -
  have "moduleIndexes (fill_dt_histo f dh) = moduleIndexes dh" for dh
    by (simp add: fill_dt_histo_def split: prod.split option.split)
  then show ?thesis by (simp add: histo_indexes_ok_def list_all_iff)
qed

lemma balanced_other_fields [simp]:
  "balanced n d (qs, c\<lparr>dtInputHistos := h, ctr_allTimestamps := ts, allTimestampsMaxSize := m\<rparr>) = balanced n d (qs, c)"
  "balanced n d (qs, c\<lparr>dtOutputHistos := h\<rparr>) = balanced n d (qs, c)"
  "balanced n d (qs, c\<lparr>recordingFailed := k\<rparr>) = balanced n d (qs, c)"
  "balanced n d (qs, c\<lparr>discardsNoStamp := k\<rparr>) = balanced n d (qs, c)"
  by (simp_all add: balance_defs)

text \<open>The queues and counters before the stamps are assigned.\<close>

definition recorded :: "nat \<Rightarrow> nat \<Rightarrow> ModuleStorage list list \<times> EventCounters \<Rightarrow> bool" where
  "recorded n k st \<longleftrightarrow> (case st of (dest, c) \<Rightarrow>
     balanced n (\<lambda>_. discardsNoStamp c) (dest, c) \<and> histo_indexes_ok n (dtInputHistos c) \<and> histo_indexes_ok n (dtOutputHistos c) \<and>
     (\<forall>j < k. newest_open (dest ! j)) \<and> (\<forall>j < n. k \<le> j \<longrightarrow> list_all entry_ok (dest ! j)) \<and>
     ((\<exists>j < k. newest_stamp (dest ! j) \<noteq> None) \<or> (\<forall>j < k. list_all entry_ok (dest ! j))))"

lemma recorded_discard:
  fixes cfgs mds dest c
  defines "r \<equiv> fold (record_module cfgs mds) [0..<length mds] (dest, c)"
  assumes n: "length dest = length mds" and ok: "list_all size_consistency_check mds" "list_all (list_all entry_ok) dest"
    and bal: "balanced (length mds) (\<lambda>_. discardsNoStamp c) (dest, c)"
    and histos: "histo_indexes_ok (length mds) (dtInputHistos c)" "histo_indexes_ok (length mds) (dtOutputHistos c)"
  shows "recorded (length mds) (length mds) (discard_stampless (length mds) r)"
proof -
  note r = record_queues [OF n ok bal, where cfgs = cfgs, folded r_def]
  obtain dest' c' where r': "r = (dest', c')" by (cases r)
  have static: "discardsNoStamp c' = discardsNoStamp c" "dtInputHistos c' = dtInputHistos c"
    "dtOutputHistos c' = dtOutputHistos c"
    using r(2) by (simp_all add: r' static_part_def)
  have len: "length dest' = length mds" using r(1) by (simp add: r' balanced_def)
  show ?thesis
  proof (cases "list_all (\<lambda>q. ms_timestamp (last q) = None) dest'")
    case True
    obtain d2 c2 where fold: "fold discard_module [0..<length mds] r = (d2, c2)" by fastforce
    have ne: "\<forall>j < length mds. fst r ! j \<noteq> []" using r(3) by blast
    note disc = balanced_discard_all [OF r(1) ne, unfolded fold fst_conv snd_conv]
    have c2: "discardsNoStamp c2 = discardsNoStamp c" "dtInputHistos c2 = dtInputHistos c" "dtOutputHistos c2 = dtOutputHistos c"
      using disc(2) static by (simp_all add: r' static_part_def)
    have "\<forall>j < length mds. list_all entry_ok (d2 ! j)"
      using disc(3) r(3) ok(2) n by (auto simp: list_all_length)
    then show ?thesis
      using True disc(1) c2 histos entry_ok_open
      by (simp add: discard_stampless_def fold [unfolded r'] r' recorded_def)
  next
    case False
    then obtain j where "j < length mds" "ms_timestamp (last (dest' ! j)) \<noteq> None"
      by (auto simp: list_all_length len)
    then have "\<exists>j < length mds. newest_stamp (dest' ! j) \<noteq> None"
      using r(3) by (auto simp: newest_stamp_def r')
    then show ?thesis
      using False r(1,3) static histos by (simp add: discard_stampless_def r' recorded_def)
  qed
qed

lemma recorded_event_ok:
  assumes rec: "recorded (length (moduleConfigs ec)) k (dest, c)" and k: "k \<le> length (moduleConfigs ec)"
    and stamps: "list_all stamp_ok ts" and result: "assign_stamps (moduleConfigs ec) k ts dest = (ts', dest')"
  shows "event_ok ec (\<lparr>allTimestamps = ts', moduleDatas = dest'\<rparr>,
    c\<lparr>dtInputHistos := map (fill_dt_histo f) (dtInputHistos c), ctr_allTimestamps := ts', allTimestampsMaxSize := m\<rparr>)"
proof -
  have len: "length dest = length (moduleConfigs ec)" using rec by (simp add: recorded_def balanced_def)
  have "length dest' = length (moduleConfigs ec)"
      "\<And>j. j < length (moduleConfigs ec) \<Longrightarrow> length (dest' ! j) = length (dest ! j)"
      "\<And>j. j < length (moduleConfigs ec) \<Longrightarrow> list_all entry_ok (dest' ! j)" "list_all stamp_ok ts'"
    using assign_stamps_ok [OF len k _ _ _ stamps result] rec by (simp_all add: recorded_def)
  then show ?thesis
    using rec balanced_lengths [of _ _ dest c dest'] by (simp add: event_ok_def recorded_def Let_def list_all_length)
qed

lemma record_event_ok:
  assumes ok: "event_ok ec (ed, c)" and size: "list_all size_consistency_check mds"
    and n: "length mds \<le> length (moduleConfigs ec)"
  shows "\<exists>st. record_event ec mds (ed, c) = Inr (st, length mds = length (moduleConfigs ec)) \<and> event_ok ec st"
proof -
  have ev: "balanced (length (moduleConfigs ec)) (\<lambda>_. discardsNoStamp c) (moduleDatas ed, c)"
    "histo_indexes_ok (length (moduleConfigs ec)) (dtInputHistos c)" "histo_indexes_ok (length (moduleConfigs ec)) (dtOutputHistos c)"
    "list_all (list_all entry_ok) (moduleDatas ed)" "list_all stamp_ok (allTimestamps ed)"
    using ok by (simp_all add: event_ok_def Let_def)
  have len: "length (moduleDatas ed) = length (moduleConfigs ec)" and "sized (length (moduleConfigs ec)) c"
    using ev(1) by (simp_all add: balanced_def)
  then have covers: "covers (length (moduleConfigs ec)) c" using covers_sized by blast
  show ?thesis
  proof (cases "length mds = length (moduleConfigs ec)")
    case True
    define r where "r = fold (record_module (moduleConfigs ec) mds) [0..<length mds] (moduleDatas ed, c)"
    obtain dest c1 where d: "discard_stampless (length mds) r = (dest, c1)" by fastforce
    have rec: "recorded (length (moduleConfigs ec)) (length mds) (dest, c1)"
      using recorded_discard [OF _ size ev(4), where c = c and cfgs = "moduleConfigs ec"] ev len d by (simp add: r_def True)
    obtain ts dest' where a: "assign_stamps (moduleConfigs ec) (length mds) (allTimestamps ed) dest = (ts, dest')"
      by fastforce
    have "record_module_data mds (moduleConfigs ec) (moduleDatas ed) c = Inr (r, True)"
      using True len covers by (simp add: record_module_data_def r_def)
    then show ?thesis
      using recorded_event_ok [OF rec n ev(5) a] rec d a True
      by (simp add: record_event_def recorded_def balanced_def Let_def case_prod_beta)
  next
    case False
    let ?c = "c\<lparr>recordingFailed := recordingFailed c + 1\<rparr>"
    have rec: "recorded (length (moduleConfigs ec)) (length mds) (moduleDatas ed, ?c)"
      using ev len n entry_ok_open by (simp add: recorded_def list_all_length)
    obtain ts dest' where a: "assign_stamps (moduleConfigs ec) (length mds) (allTimestamps ed) (moduleDatas ed) = (ts, dest')"
      by fastforce
    have "record_module_data mds (moduleConfigs ec) (moduleDatas ed) c = Inr ((moduleDatas ed, c), False)"
      using False by (simp add: record_module_data_def Let_def)
    then show ?thesis
      using recorded_event_ok [OF rec n ev(5) a] ev n len a False
      by (simp add: record_event_def Let_def)
  qed
qed

lemma record_event_undefined:
  assumes "event_ok ec (ed, c)" "length (moduleConfigs ec) < length mds"
  shows "record_event ec mds (ed, c) = Inl UndefinedBehaviour"
  using assms by (simp add: record_event_def record_module_data_def event_ok_def balanced_def Let_def)

section \<open>Flushing an event\<close>

abbreviation stored_match :: "int \<Rightarrow> ModuleConfig \<Rightarrow> ModuleStorage \<Rightarrow> WindowMatch" where
  "stored_match refTs mc m \<equiv> wmatch (timestamp_match refTs (the (ms_timestamp m)) (mc_window mc))"

text \<open>
  What flushing does with one queue: data that is too old is dropped, and the
  next data is taken if it is in the window.
\<close>

definition flush_queue :: "int \<Rightarrow> ModuleConfig \<Rightarrow> ModuleStorage list \<Rightarrow> ModuleStorage option \<times> ModuleStorage list" where
  "flush_queue refTs mc q =
     (case dropWhile (\<lambda>m. stored_match refTs mc m = too_old) q of
        [] \<Rightarrow> (None, [])
      | m # ms \<Rightarrow> if stored_match refTs mc m = in_window then (Some m, ms) else (None, m # ms))"

definition output_storage :: "ModuleStorage option \<Rightarrow> ModuleStorage" where
  "output_storage out = (case out of None \<Rightarrow> ModuleStorage_init | Some m \<Rightarrow> m)"

lemma pop_too_old_ok:
  assumes "pop_too_old refTs (mc_window mc) mi q c = (q', c')" "balanced n d (qs, c)" "mi < n" "qs ! mi = q"
  shows "q' = dropWhile (\<lambda>m. stored_match refTs mc m = too_old) q \<and> balanced n d (qs[mi := q'], c') \<and>
    static_part c' = static_part c"
  using assms
proof (induction q arbitrary: c qs)
  case Nil
  then show ?case by (auto simp: update_same)
next
  case (Cons m ms)
  show ?case
  proof (cases "stored_match refTs mc m = too_old")
    case True
    have "mi < length qs" using Cons.prems by (simp add: balanced_def)
    then show ?thesis
      using Cons.IH [OF _ balanced_count_removed(1) [OF Cons.prems(2,3,4)]] Cons.prems True by auto
  next
    case False
    then have "q' = m # ms" "c' = c" using Cons.prems(1) by simp_all
    then show ?thesis using Cons.prems(2-4) False by (simp add: update_same)
  qed
qed

lemma pop_too_old_all:
  assumes "balanced n d (qs, c)" "length cfgs = n"
  obtains qs' c' where "fold (pop_too_old_module refTs cfgs) [0..<n] (qs, c) = (qs', c')"
    "balanced n d (qs', c')" "static_part c' = static_part c"
    "\<forall>j < n. qs' ! j = dropWhile (\<lambda>m. stored_match refTs (cfgs ! j) m = too_old) (qs ! j)"
proof -
  define P where "P i st \<longleftrightarrow> (case st of (qs', c') \<Rightarrow> balanced n d (qs', c') \<and> static_part c' = static_part c \<and>
    (\<forall>j < n. qs' ! j = (if j < i then dropWhile (\<lambda>m. stored_match refTs (cfgs ! j) m = too_old) (qs ! j) else qs ! j)))"
    for i st
  have "P n (fold (pop_too_old_module refTs cfgs) [0..<n] (qs, c))"
  proof (rule fold_upt_invariant [where P = P])
    show "P 0 (qs, c)" using assms by (simp add: P_def)
    fix i st assume i: "i < n" "P i st"
    obtain q1 c1 where st: "st = (q1, c1)" by (cases st)
    obtain q' c' where pop: "pop_too_old refTs (mc_window (cfgs ! i)) i (q1 ! i) c1 = (q', c')" by fastforce
    have "pop_too_old_module refTs cfgs i st = (q1[i := q'], c')" by (simp add: pop_too_old_module_def st pop)
    moreover have "length q1 = n" "q1 ! i = qs ! i" "balanced n d (q1, c1)" "static_part c1 = static_part c"
      using i by (auto simp: P_def st balanced_def)
    ultimately show "P (Suc i) (pop_too_old_module refTs cfgs i st)"
      using i pop_too_old_ok [OF pop, of n d q1] by (auto simp: P_def st nth_list_update less_Suc_eq)
  qed
  then show ?thesis using that by (auto simp: P_def split: prod.splits)
qed

lemma take_output_all:
  assumes "balanced n d (qs, c)" "length cfgs = n" "length outs = n"
    and "\<forall>j < n. qs ! j = dropWhile (\<lambda>m. stored_match refTs (cfgs ! j) m = too_old) (qs0 ! j)"
  shows "\<exists>st. result_foldM (take_output refTs cfgs) [0..<n] (outs, qs, c) = Inr st \<and>
    (case st of (outs', qs', c') \<Rightarrow> balanced n d (qs', c') \<and> static_part c' = static_part c \<and> length outs' = n \<and>
      (\<forall>j < n. outs' ! j = output_storage (fst (flush_queue refTs (cfgs ! j) (qs0 ! j))) \<and>
         qs' ! j = snd (flush_queue refTs (cfgs ! j) (qs0 ! j))))"
proof -
  define P where "P i st \<longleftrightarrow> (case st of (outs', qs', c') \<Rightarrow>
      balanced n d (qs', c') \<and> static_part c' = static_part c \<and> length outs' = n \<and>
      (\<forall>j < n. if j < i then outs' ! j = output_storage (fst (flush_queue refTs (cfgs ! j) (qs0 ! j))) \<and>
         qs' ! j = snd (flush_queue refTs (cfgs ! j) (qs0 ! j)) else qs' ! j = qs ! j))" for i st
  have "\<exists>st. result_foldM (take_output refTs cfgs) [0..<n] (outs, qs, c) = Inr st \<and> P n st"
  proof (rule result_foldM_upt_invariant [where P = P])
    show "P 0 (outs, qs, c)" using assms by (simp add: P_def)
    fix i st assume i: "i < n" "P i st"
    obtain o1 q1 c1 where st: "st = (o1, q1, c1)" by (cases st)
    have q: "q1 ! i = dropWhile (\<lambda>m. stored_match refTs (cfgs ! i) m = too_old) (qs0 ! i)"
      and bal: "balanced n d (q1, c1)" and len: "length q1 = n" "length o1 = n"
      using i assms(4) by (auto simp: P_def st balanced_def)
    have next_ok: "P (Suc i) (o1[i := output_storage out], q', c')"
      if "flush_queue refTs (cfgs ! i) (qs0 ! i) = (out, q' ! i)" "balanced n d (q', c')"
        "static_part c' = static_part c1" "\<forall>j < n. j \<noteq> i \<longrightarrow> q' ! j = q1 ! j" for out q' c'
    proof -
      have old: "static_part c1 = static_part c" "\<forall>j < n. if j < i then o1 ! j = output_storage (fst (flush_queue refTs (cfgs ! j) (qs0 ! j))) \<and>
         q1 ! j = snd (flush_queue refTs (cfgs ! j) (qs0 ! j)) else q1 ! j = qs ! j"
        using i(2) by (simp_all add: P_def st)
      have "if j < Suc i then o1[i := output_storage out] ! j = output_storage (fst (flush_queue refTs (cfgs ! j) (qs0 ! j))) \<and>
         q' ! j = snd (flush_queue refTs (cfgs ! j) (qs0 ! j)) else q' ! j = qs ! j" if "j < n" for j
        using old(2) \<open>flush_queue refTs (cfgs ! i) (qs0 ! i) = (out, q' ! i)\<close>
          \<open>\<forall>j < n. j \<noteq> i \<longrightarrow> q' ! j = q1 ! j\<close> that i(1) len by (cases "j = i") simp_all
      then show ?thesis using that old(1) len by (simp add: P_def)
    qed
    show "\<exists>st'. take_output refTs cfgs i st = Inr st' \<and> P (Suc i) st'"
    proof (cases "q1 ! i")
      case Nil
      then have "take_output refTs cfgs i st = Inr (o1[i := ModuleStorage_init], q1, c1)"
        "flush_queue refTs (cfgs ! i) (qs0 ! i) = (None, q1 ! i)"
        by (simp_all add: take_output_def st flush_queue_def flip: q)
      then show ?thesis using next_ok [of None q1 c1] bal by (simp add: output_storage_def)
    next
      case (Cons m ms)
      then have dw: "dropWhile (\<lambda>m. stored_match refTs (cfgs ! i) m = too_old) (qs0 ! i) = m # ms" using q by simp
      then have old: "stored_match refTs (cfgs ! i) m \<noteq> too_old" unfolding dropWhile_eq_Cons_conv by blast
      have fq: "flush_queue refTs (cfgs ! i) (qs0 ! i) =
          (if stored_match refTs (cfgs ! i) m = in_window then (Some m, ms) else (None, m # ms))"
        by (simp add: flush_queue_def dw)
      show ?thesis
      proof (cases "stored_match refTs (cfgs ! i) m")
        case in_window
        then have "take_output refTs cfgs i st = Inr (o1[i := m], q1[i := ms],
            count_removed i m (c1\<lparr>outputHits := inc i 1 (outputHits c1)\<rparr>))"
          by (simp add: take_output_def st Cons)
        then show ?thesis
          using next_ok [OF _ balanced_count_removed(2) [OF bal i(1) Cons], of "Some m"] i len fq in_window
          by (simp add: output_storage_def)
      next
        case too_new
        then have "take_output refTs cfgs i st = Inr (o1[i := ModuleStorage_init], q1, c1)"
          by (simp add: take_output_def st Cons)
        then show ?thesis
          using next_ok [of None q1 c1] bal Cons fq too_new by (simp add: output_storage_def)
      qed (use old in simp)
    qed
  qed
  then show ?thesis by (auto simp: P_def)
qed

lemma flush_queue_ok: "list_all entry_ok q \<Longrightarrow> list_all entry_ok (snd (flush_queue refTs mc q))"
proof -
  assume ok: "list_all entry_ok q"
  have "set (dropWhile P q) \<subseteq> set q" for P by (metis set_dropWhileD subsetI)
  then have "list_all entry_ok (dropWhile P q)" for P using ok by (auto simp: list_all_iff)
  from this [of "\<lambda>m. stored_match refTs mc m = too_old"] show ?thesis
    unfolding flush_queue_def by (auto split: list.split)
qed

text \<open>A flushed event: the queues and the output of every module, and the invariant.\<close>

definition flushed ::
  "EventConfig \<Rightarrow> int \<Rightarrow> PerEventData \<Rightarrow> ModuleStorage list \<times> PerEventData \<times> EventCounters \<Rightarrow> bool" where
  "flushed ec refTs ed st \<longleftrightarrow> (case st of (storage, ed', c') \<Rightarrow>
     let cfgs = moduleConfigs ec
     in event_ok ec (ed', c') \<and> length storage = length cfgs \<and>
        allTimestamps ed' = dropWhile (\<lambda>ts. ts = refTs) (allTimestamps ed) \<and>
        (\<forall>j < length cfgs.
           storage ! j = output_storage (fst (flush_queue refTs (cfgs ! j) (moduleDatas ed ! j))) \<and>
           moduleDatas ed' ! j = snd (flush_queue refTs (cfgs ! j) (moduleDatas ed ! j))))"

lemma flush_queues_ok:
  assumes ok: "event_ok ec (ed, c)"
  shows "\<exists>st. flush_queues ec refTs storage (ed, c) = Inr st \<and> flushed ec refTs ed st"
proof -
  let ?n = "length (moduleConfigs ec)" and ?d = "\<lambda>_. discardsNoStamp c"
  have ev: "balanced ?n ?d (moduleDatas ed, c)" "histo_indexes_ok ?n (dtInputHistos c)" "histo_indexes_ok ?n (dtOutputHistos c)"
    "list_all (list_all entry_ok) (moduleDatas ed)" "list_all stamp_ok (allTimestamps ed)"
    using ok by (simp_all add: event_ok_def Let_def)
  have len: "length (moduleDatas ed) = ?n" using ev(1) by (simp add: balanced_def)
  have covers: "covers ?n c" using ev(1) covers_sized by (simp add: balanced_def)
  obtain qs1 c1 where pop: "fold (pop_too_old_module refTs (moduleConfigs ec)) [0..<?n] (moduleDatas ed, c) = (qs1, c1)"
      "balanced ?n ?d (qs1, c1)" "static_part c1 = static_part c"
      "\<forall>j < ?n. qs1 ! j = dropWhile (\<lambda>m. stored_match refTs (moduleConfigs ec ! j) m = too_old) (moduleDatas ed ! j)"
    by (rule pop_too_old_all [OF ev(1) refl])
  have rs: "length (resize ?n ModuleStorage_init storage) = ?n" by (simp add: resize_def)
  obtain outs qs2 c2 where take: "result_foldM (take_output refTs (moduleConfigs ec)) [0..<?n]
        (resize ?n ModuleStorage_init storage, qs1, c1) = Inr (outs, qs2, c2)"
      "balanced ?n ?d (qs2, c2)" "static_part c2 = static_part c1" "length outs = ?n"
      "\<forall>j < ?n. outs ! j = output_storage (fst (flush_queue refTs (moduleConfigs ec ! j) (moduleDatas ed ! j))) \<and>
         qs2 ! j = snd (flush_queue refTs (moduleConfigs ec ! j) (moduleDatas ed ! j))"
    using take_output_all [OF pop(2) refl rs pop(4)] by auto
  have "set (dropWhile P ts) \<subseteq> set ts" for P and ts :: "int list" by (metis set_dropWhileD subsetI)
  then have "list_all stamp_ok (dropWhile (\<lambda>ts. ts = refTs) (allTimestamps ed))" using ev(5) by (auto simp: list_all_iff)
  moreover have "length qs2 = ?n" using take(2) by (simp add: balanced_def)
  then have "list_all (list_all entry_ok) qs2"
    using take(5) ev(4) flush_queue_ok len by (simp add: list_all_length)
  ultimately have "flushed ec refTs ed (outs, \<lparr>allTimestamps = dropWhile (\<lambda>ts. ts = refTs) (allTimestamps ed), moduleDatas = qs2\<rparr>, c2)"
    using take(2-5) pop(3) ev by (simp add: flushed_def event_ok_def Let_def static_part_def)
  moreover have "flush_queues ec refTs storage (ed, c) =
      Inr (outs, \<lparr>allTimestamps = dropWhile (\<lambda>ts. ts = refTs) (allTimestamps ed), moduleDatas = qs2\<rparr>, c2)"
    using take(1) covers pop(1) by (simp add: flush_queues_def Let_def)
  ultimately show ?thesis by blast
qed

lemma newest_stamps_loop_eq:
  "length qs = length cfgs \<Longrightarrow> newest_stamps_loop refTs cfgs qs haveData =
     Inr (if list_all (\<lambda>(mc, q). q \<noteq> [] \<longrightarrow> stored_match refTs mc (last q) = too_new) (zip cfgs qs)
          then Some (haveData \<or> list_ex (\<lambda>q. q \<noteq> []) qs) else None)"
  by (induction refTs cfgs qs haveData rule: newest_stamps_loop.induct) auto

end
