(* ===== verification/Event_Builder2_Correct.thy ===== *)
theory Event_Builder2_Correct
  imports Event_Builder2_Invariant
begin

text \<open>
  The operations of the event builder keep its invariant and never fail on
  events with the configured number of modules; flushing ends, outputs only data
  within the match window, and no data is lost or counted twice.
\<close>

section \<open>The builder invariant\<close>

definition builder_ok :: "EventBuilder2 \<Rightarrow> bool" where
  "builder_ok s \<longleftrightarrow>
     length (perEventData s) = length (eventConfigs (eb_cfg s)) \<and>
     length (eb_counters s) = length (eventConfigs (eb_cfg s)) \<and>
     (\<forall>ei < length (eventConfigs (eb_cfg s)).
        event_ok (eventConfigs (eb_cfg s) ! ei) (perEventData s ! ei, eb_counters s ! ei))"

lemma builder_ok_update:
  assumes "builder_ok s" "ei < length (eventConfigs (eb_cfg s))" "event_ok (eventConfigs (eb_cfg s) ! ei) (ed, c)"
    and "eb_cfg s' = eb_cfg s" "perEventData s' = (perEventData s)[ei := ed]" "eb_counters s' = (eb_counters s)[ei := c]"
  shows "builder_ok s'"
  using assms by (auto simp: builder_ok_def nth_list_update)

lemma builder_ok_cong:
  "eb_cfg s' = eb_cfg s \<Longrightarrow> perEventData s' = perEventData s \<Longrightarrow> eb_counters s' = eb_counters s \<Longrightarrow>
   builder_ok s' = builder_ok s"
  by (simp add: builder_ok_def)

lemma builder_ok_event:
  "builder_ok s \<Longrightarrow> ei < length (eventConfigs (eb_cfg s)) \<Longrightarrow>
   event_ok (eventConfigs (eb_cfg s) ! ei) (perEventData s ! ei, eb_counters s ! ei)"
  by (simp add: builder_ok_def)

lemma event_index_ok_iff:
  "builder_ok s \<Longrightarrow> event_index_ok s ix \<longleftrightarrow> 0 \<le> ix \<and> nat ix < length (eventConfigs (eb_cfg s))"
  by (auto simp: builder_ok_def event_index_ok_def)

lemma checkModuleBuffers_iff:
  assumes "builder_ok s"
  shows "checkModuleBuffers s ix \<longleftrightarrow> 0 \<le> ix \<and> nat ix < length (eventConfigs (eb_cfg s))"
proof -
  have "list_all (\<lambda>mds. list_all storage_consistency_check mds \<and> list_all (\<lambda>md. ms_timestamp md \<noteq> None) mds)
      (moduleDatas (perEventData s ! nat ix))" if "nat ix < length (eventConfigs (eb_cfg s))"
    using builder_ok_event [OF assms that]
    by (auto simp: event_ok_def Let_def list_all_iff entry_ok_def split: option.splits)
  then show ?thesis using event_index_ok_iff [OF assms] by (auto simp: checkModuleBuffers_def)
qed

section \<open>Creation\<close>

text \<open>The pairs of modules with a histogram are the pairs in ascending order.\<close>

lemma dt_histo_fold:
  assumes "distinct ps" "\<forall>k < length ps. case ps ! k of (i, j) \<Rightarrow> j < i \<longrightarrow> (j, i) \<in> set (take k ps)"
  shows "k \<le> length ps \<Longrightarrow> case fold (dt_histo_step mcfgs bin) (take k ps) ({}, []) of (seen, acc) \<Rightarrow>
    seen = {(i, j). i < j \<and> (i, j) \<in> set (take k ps) \<or> j < i \<and> (j, i) \<in> set (take k ps)} \<and>
    map moduleIndexes acc = filter (\<lambda>(i, j). i < j) (take k ps)"
proof (induction k)
  case (Suc k)
  obtain seen acc where st: "fold (dt_histo_step mcfgs bin) (take k ps) ({}, []) = (seen, acc)" by fastforce
  obtain i j where ij: "ps ! k = (i, j)" by fastforce
  have take: "take (Suc k) ps = take k ps @ [(i, j)]" using Suc.prems by (simp add: take_Suc_conv_app_nth ij)
  have fresh: "(i, j) \<notin> set (take k ps)"
    using distinct_take [OF assms(1), of "Suc k"] by (simp add: take)
  have seen_before: "j < i \<Longrightarrow> (j, i) \<in> set (take k ps)" using assms(2) [rule_format, of k] Suc.prems by (simp add: ij)
  have seen: "(a, b) \<in> seen \<longleftrightarrow> a < b \<and> (a, b) \<in> set (take k ps) \<or> b < a \<and> (b, a) \<in> set (take k ps)" for a b
    using Suc st by auto
  have acc: "map moduleIndexes acc = filter (\<lambda>(i, j). i < j) (take k ps)" using Suc st by auto
  show ?case
  proof (cases "i < j")
    case True
    then have step: "dt_histo_step mcfgs bin (i, j) (seen, acc) = (insert (j, i) (insert (i, j) seen),
        acc @ [\<lparr>moduleIndexes = (i, j), histo = make_histo bin (''dt('' @ mc_name (mcfgs ! i) @ '', '' @ mc_name (mcfgs ! j) @ '')'')\<rparr>])"
      using fresh seen by (simp add: dt_histo_step_def)
    show ?thesis using True seen acc by (auto simp: take st step)
  next
    case False
    then have step: "dt_histo_step mcfgs bin (i, j) (seen, acc) = (seen, acc)"
      using seen_before seen by (auto simp: dt_histo_step_def)
    show ?thesis using False seen acc by (auto simp: take st step)
  qed
qed simp

lemma product_back:
  assumes "k < n * n" "List.product [0..<n] [0..<n] ! k = (i, j)" "j < i"
  shows "(j, i) \<in> set (take k (List.product [0..<n] [0..<n]))"
proof -
  have n: "0 < n" using assms(1) by (cases n) auto
  have kn: "k div n < n" "k mod n < n" using assms(1) n by (simp_all add: less_mult_imp_div_less)
  then have ij: "i = k div n" "j = k mod n"
    using assms(1,2) List.product_nth [of k "[0..<n]" "[0..<n]"] by simp_all
  let ?l = "j * n + i"
  have "?l < k"
  proof -
    obtain d where "i = j + d" "0 < d" using assms(3) less_imp_add_positive by blast
    moreover have "k = i * n + j" using ij by (simp add: mult.commute)
    moreover have "1 < n" using kn ij assms(3) by linarith
    ultimately show ?thesis by (simp add: algebra_simps)
  qed
  moreover have "List.product [0..<n] [0..<n] ! ?l = (j, i)"
    using List.product_nth [of ?l "[0..<n]" "[0..<n]"] \<open>?l < k\<close> assms(1) kn ij by simp
  ultimately show ?thesis
    using assms(1) by (intro in_set_conv_nth [THEN iffD2] exI [of _ ?l]) simp
qed

lemma dt_histograms_pairs:
  "map moduleIndexes (create_dt_histograms mcfgs bin) =
     filter (\<lambda>(i, j). i < j) (List.product [0..<length mcfgs] [0..<length mcfgs])"
proof -
  let ?ps = "List.product [0..<length mcfgs] [0..<length mcfgs]"
  have "\<forall>k < length ?ps. case ?ps ! k of (i, j) \<Rightarrow> j < i \<longrightarrow> (j, i) \<in> set (take k ?ps)"
    using product_back [of _ "length mcfgs"] by (auto split: prod.split)
  from dt_histo_fold [OF _ this, of "length ?ps" mcfgs bin]
  show ?thesis by (auto simp: create_dt_histograms_def distinct_product split: prod.splits)
qed

lemma histo_indexes_created: "histo_indexes_ok (length mcfgs) (create_dt_histograms mcfgs bin)"
  unfolding histo_indexes_ok_def list_all_iff
proof
  fix dh assume "dh \<in> set (create_dt_histograms mcfgs bin)"
  then have "moduleIndexes dh \<in> set (map moduleIndexes (create_dt_histograms mcfgs bin))" by simp
  then show "fst (moduleIndexes dh) < length mcfgs \<and> snd (moduleIndexes dh) < length mcfgs"
    unfolding dt_histograms_pairs by auto
qed

lemma event_ok_created:
  "event_ok ec (\<lparr>allTimestamps = [], moduleDatas = replicate (length (moduleConfigs ec)) []\<rparr>, EventCounters_of ec bin)"
  by (simp add: event_ok_def balance_defs EventCounters_of_def Let_def histo_indexes_created list_all_iff)

lemma make_EventBuilder2_ok:
  assumes "make_EventBuilder2 cfg = Inr s"
  shows "builder_ok s" "eb_cfg s = cfg" "calls s = []"
  using assms event_ok_created by (auto simp: make_EventBuilder2_def builder_ok_def Let_def split: if_splits)

section \<open>Recording\<close>

lemma count_passthrough_ok:
  assumes "balanced n d (qs, c)" "k \<le> n"
  shows "balanced n d (qs, fold count_passthrough [0..<k] c) \<and> static_part (fold count_passthrough [0..<k] c) = static_part c"
proof (rule fold_upt_invariant [where P = "\<lambda>_ c'. balanced n d (qs, c') \<and> static_part c' = static_part c"])
  fix i c' assume "i < k" "balanced n d (qs, c') \<and> static_part c' = static_part c"
  then show "balanced n d (qs, count_passthrough i c') \<and> static_part (count_passthrough i c') = static_part c"
    using assms(2) by (simp add: balance_defs count_passthrough_def nth_list_update static_part_def add_ac)
qed (use assms in simp)

text \<open>The number of modules of an incoming event does not exceed the configured one.\<close>

definition module_count_ok :: "EventBuilder2 \<Rightarrow> int \<Rightarrow> ModuleData list \<Rightarrow> bool" where
  "module_count_ok s ix mds \<longleftrightarrow>
     (0 \<le> ix \<and> nat ix < length (eventConfigs (eb_cfg s)) \<longrightarrow>
      length mds \<le> length (moduleConfigs (eventConfigs (eb_cfg s) ! nat ix)))"

lemma recordModuleData_ok:
  assumes ok: "builder_ok s" and count: "module_count_ok s ix mds"
  shows "\<exists>s' b. recordModuleData ix mds s = Inr (s', b) \<and> builder_ok s' \<and> eb_cfg s' = eb_cfg s"
proof (cases "checkConsistency s ix mds")
  case False
  then show ?thesis using ok by (auto simp: recordModuleData_def)
next
  case True
  let ?ei = "nat ix" let ?ec = "eventConfigs (eb_cfg s) ! ?ei"
  have ei: "?ei < length (eventConfigs (eb_cfg s))" and size: "list_all size_consistency_check mds"
    and n: "length mds \<le> length (moduleConfigs ?ec)"
    using True count event_index_ok_iff [OF ok] by (auto simp: checkConsistency_def module_count_ok_def)
  note ev = builder_ok_event [OF ok ei]
  show ?thesis
  proof (cases "enabled ?ec")
    case True': True
    obtain ed c where rec: "record_event ?ec mds (perEventData s ! ?ei, eb_counters s ! ?ei) =
        Inr ((ed, c), length mds = length (moduleConfigs ?ec))" "event_ok ?ec (ed, c)"
      using record_event_ok [OF ev size n] by force
    show ?thesis
      using rec True True' builder_ok_update [OF ok ei rec(2)] by (simp add: recordModuleData_def Let_def)
  next
    case False
    let ?c = "fold count_passthrough [0..<length mds] (eb_counters s ! ?ei)"
    have bal: "balanced (length (moduleConfigs ?ec)) (\<lambda>_. discardsNoStamp (eb_counters s ! ?ei))
        (moduleDatas (perEventData s ! ?ei), eb_counters s ! ?ei)"
      using ev by (simp add: event_ok_def Let_def)
    have "event_ok ?ec (perEventData s ! ?ei, ?c)"
      using ev count_passthrough_ok [OF bal n] by (simp add: event_ok_def Let_def static_part_def)
    moreover have "\<not> (length (inputHits (eb_counters s ! ?ei)) < length mds \<or> length (outputHits (eb_counters s ! ?ei)) < length mds)"
      using bal n by (simp add: balance_defs)
    ultimately show ?thesis
      using True False builder_ok_update [OF ok ei, where ed = "perEventData s ! ?ei" and c = ?c]
      by (auto simp: recordModuleData_def Let_def)
  qed
qed

section \<open>Flushing\<close>

lemma output_modules:
  assumes "length storage = n" "length outs = n"
  obtains storage' outs' where "fold (output_module cfgs) [0..<n] (storage, outs) = (storage', outs')"
    "length storage' = n" "length outs' = n"
    "\<forall>j < n. outs' ! j = (if ms_data (storage ! j) = [] then outs ! j else Some (to_module_data (storage ! j)))"
proof -
  define P where "P i st \<longleftrightarrow> (case st of (st1, o1) \<Rightarrow> length st1 = n \<and> length o1 = n \<and>
      (\<forall>j < n. (i \<le> j \<longrightarrow> st1 ! j = storage ! j) \<and>
         o1 ! j = (if j < i \<and> ms_data (storage ! j) \<noteq> [] then Some (to_module_data (storage ! j)) else outs ! j)))" for i st
  have "P n (fold (output_module cfgs) [0..<n] (storage, outs))"
  proof (rule fold_upt_invariant [where P = P])
    show "P 0 (storage, outs)" using assms by (simp add: P_def)
    fix i st assume i: "i < n" "P i st"
    obtain st1 o1 where st: "st = (st1, o1)" by (cases st)
    have "st1 ! i = storage ! i" using i by (simp add: P_def st)
    then show "P (Suc i) (output_module cfgs i st)"
      using i by (auto simp: P_def st output_module_def nth_list_update less_Suc_eq)
  qed
  then show ?thesis using that by (auto simp: P_def split: prod.splits)
qed

lemma invalidate_simps [simp]: "length (invalidate outs) = length outs"
  by (simp add: invalidate_def)

lemma length_resize [simp]: "length (resize n x xs) = n"
  by (simp add: resize_def)

text \<open>The output array of an event: entries without data keep what the array held before.\<close>

definition output_array :: "EventBuilder2 \<Rightarrow> ModuleStorage list \<Rightarrow> ModuleData option list \<Rightarrow> bool" where
  "output_array s storage outs \<longleftrightarrow>
     length outs = length storage \<and>
     (\<forall>j < length storage. outs ! j =
        (if ms_data (storage ! j) = []
         then resize (length storage) (Some ModuleData_init) (invalidate (outputModuleData s)) ! j
         else Some (to_module_data (storage ! j))))"

lemma output_event_ok:
  assumes ok: "builder_ok s" and ei: "ei < length (eventConfigs (eb_cfg s))"
    and fl: "flushed (eventConfigs (eb_cfg s) ! ei) refTs ed (storage, ed', c')"
  obtains s' where "output_event (moduleConfigs (eventConfigs (eb_cfg s) ! ei)) ei (storage, ed', c') s = Inr s'"
    "builder_ok s'" "eb_cfg s' = eb_cfg s" "perEventData s' = (perEventData s)[ei := ed']"
    "if list_ex (\<lambda>ms. ms_data ms \<noteq> []) storage
     then \<exists>outs. output_array s storage outs \<and> calls s' = calls s @ [EventDataOut (outputCrateIndex (eb_cfg s)) ei outs]
     else calls s' = calls s"
proof -
  let ?cfgs = "moduleConfigs (eventConfigs (eb_cfg s) ! ei)" let ?n = "length ?cfgs"
  have n: "length storage = ?n" and ev: "event_ok (eventConfigs (eb_cfg s) ! ei) (ed', c')"
    using fl by (simp_all add: flushed_def Let_def)
  have histos: "histo_indexes_ok ?n (dtOutputHistos c')" using ev by (simp add: event_ok_def Let_def)
  define c2 where "c2 = c'\<lparr>dtOutputHistos := map (fill_dt_histo (\<lambda>i. ms_timestamp (storage ! i))) (dtOutputHistos c')\<rparr>"
  define s1 where "s1 = s\<lparr>perEventData := (perEventData s)[ei := ed'], eb_counters := (eb_counters s)[ei := c2],
      outputModuleStorage := storage, outputModuleData := invalidate (outputModuleData s)\<rparr>"
  have "event_ok (eventConfigs (eb_cfg s) ! ei) (ed', c2)" using ev by (simp add: event_ok_def c2_def Let_def)
  then have s1: "builder_ok s1" using builder_ok_update [OF ok ei] by (simp add: s1_def)
  obtain storage' outs' where f: "fold (output_module ?cfgs) [0..<?n]
        (storage, resize ?n (Some ModuleData_init) (invalidate (outputModuleData s))) = (storage', outs')"
      "length outs' = ?n" "\<forall>j < ?n. outs' ! j = (if ms_data (storage ! j) = []
        then resize ?n (Some ModuleData_init) (invalidate (outputModuleData s)) ! j else Some (to_module_data (storage ! j)))"
    using output_modules [OF n length_resize] by metis
  define s2 where "s2 = s1\<lparr>outputModuleStorage := storage', outputModuleData := outs',
      calls := calls s @ [EventDataOut (outputCrateIndex (eb_cfg s)) ei outs']\<rparr>"
  have "output_event ?cfgs ei (storage, ed', c') s = Inr (if list_ex (\<lambda>ms. ms_data ms \<noteq> []) storage then s2 else s1)"
    using histos n f(1) by (simp add: output_event_def Let_def s1_def s2_def flip: c2_def)
  moreover have "builder_ok s2" using s1 builder_ok_cong [of s2 s1] by (simp add: s2_def)
  moreover have "output_array s storage outs'" using f(2,3) n by (simp add: output_array_def)
  ultimately show ?thesis using that s1 by (simp add: s1_def s2_def split: if_splits)
qed

text \<open>An event can be flushed when the newest data of every module is beyond the match window.\<close>

definition ready :: "EventConfig \<Rightarrow> PerEventData \<Rightarrow> bool" where
  "ready ec ed \<longleftrightarrow> enabled ec \<and> allTimestamps ed \<noteq> [] \<and> list_ex (\<lambda>q. q \<noteq> []) (moduleDatas ed) \<and>
     list_all (\<lambda>(mc, q). q \<noteq> [] \<longrightarrow> stored_match (hd (allTimestamps ed)) mc (last q) = too_new)
       (zip (moduleConfigs ec) (moduleDatas ed))"

lemma tryFlush_not_ready:
  assumes "builder_ok s" "\<not> (0 \<le> ix \<and> nat ix < length (eventConfigs (eb_cfg s)) \<and>
    ready (eventConfigs (eb_cfg s) ! nat ix) (perEventData s ! nat ix))"
  shows "tryFlush ix s = Inr (s, False)"
proof (cases "0 \<le> ix \<and> nat ix < length (eventConfigs (eb_cfg s))")
  case True
  then have "length (moduleDatas (perEventData s ! nat ix)) = length (moduleConfigs (eventConfigs (eb_cfg s) ! nat ix))"
    using builder_ok_event [OF assms(1), of "nat ix"] by (simp add: event_ok_def balanced_def Let_def)
  then show ?thesis
    using True assms(2) newest_stamps_loop_eq checkModuleBuffers_iff [OF assms(1)]
    by (auto simp: tryFlush_def ready_def Let_def split: list.split)
next
  case False
  then show ?thesis using checkModuleBuffers_iff [OF assms(1)] by (simp add: tryFlush_def)
qed

lemma tryFlush_ready:
  assumes ok: "builder_ok s" and ei: "ei < length (eventConfigs (eb_cfg s))"
    and rd: "ready (eventConfigs (eb_cfg s) ! ei) (perEventData s ! ei)"
  obtains storage ed' c' s' where
    "flushed (eventConfigs (eb_cfg s) ! ei) (hd (allTimestamps (perEventData s ! ei))) (perEventData s ! ei) (storage, ed', c')"
    "output_event (moduleConfigs (eventConfigs (eb_cfg s) ! ei)) ei (storage, ed', c') s = Inr s'"
    "tryFlush (int ei) s = Inr (s', True)"
proof -
  let ?ec = "eventConfigs (eb_cfg s) ! ei" and ?ed = "perEventData s ! ei"
  have len: "length (moduleDatas ?ed) = length (moduleConfigs ?ec)"
    using builder_ok_event [OF ok ei] by (simp add: event_ok_def balanced_def Let_def)
  obtain ts tss where ts: "allTimestamps ?ed = ts # tss" using rd by (cases "allTimestamps ?ed") (auto simp: ready_def)
  obtain storage ed' c' where fl: "flush_queues ?ec ts (outputModuleStorage s) (?ed, eb_counters s ! ei) = Inr (storage, ed', c')"
      "flushed ?ec ts ?ed (storage, ed', c')"
    using flush_queues_ok [OF builder_ok_event [OF ok ei], of ts "outputModuleStorage s"] by auto
  obtain s' where s': "output_event (moduleConfigs ?ec) ei (storage, ed', c') s = Inr s'"
    using output_event_ok [OF ok ei fl(2)] by metis
  have "newest_stamps_loop ts (moduleConfigs ?ec) (moduleDatas ?ed) False = Inr (Some True)"
    using rd newest_stamps_loop_eq [OF len] by (simp add: ready_def ts)
  then have "tryFlush (int ei) s = Inr (s', True)"
    using rd ts fl(1) s' checkModuleBuffers_iff [OF ok] ei by (simp add: tryFlush_def ready_def Let_def)
  then show ?thesis using that fl(2) s' by (simp add: ts)
qed

text \<open>A call of the event data callback for an event, with an array entry for every module.\<close>

definition event_call :: "EventBuilderConfig \<Rightarrow> nat \<Rightarrow> builder_call \<Rightarrow> bool" where
  "event_call cfg ei call \<longleftrightarrow> (case call of
     EventDataOut crate e outs \<Rightarrow>
       crate = outputCrateIndex cfg \<and> e = ei \<and> length outs = length (moduleConfigs (eventConfigs cfg ! ei))
   | SystemEventOut crate words \<Rightarrow> False)"

lemma tryFlush_ok:
  assumes ok: "builder_ok s" and ei: "ei < length (eventConfigs (eb_cfg s))"
  obtains s' cs where "tryFlush (int ei) s = Inr (s', ready (eventConfigs (eb_cfg s) ! ei) (perEventData s ! ei))"
    "builder_ok s'" "eb_cfg s' = eb_cfg s" "\<forall>e. e \<noteq> ei \<longrightarrow> perEventData s' ! e = perEventData s ! e"
    "calls s' = calls s @ cs" "list_all (event_call (eb_cfg s) ei) cs"
proof (cases "ready (eventConfigs (eb_cfg s) ! ei) (perEventData s ! ei)")
  case True
  obtain storage ed' c' s' where fl: "flushed (eventConfigs (eb_cfg s) ! ei) (hd (allTimestamps (perEventData s ! ei)))
        (perEventData s ! ei) (storage, ed', c')"
      "output_event (moduleConfigs (eventConfigs (eb_cfg s) ! ei)) ei (storage, ed', c') s = Inr s'"
      "tryFlush (int ei) s = Inr (s', True)"
    by (rule tryFlush_ready [OF ok ei True])
  obtain s'' where s'': "output_event (moduleConfigs (eventConfigs (eb_cfg s) ! ei)) ei (storage, ed', c') s = Inr s''"
      "builder_ok s''" "eb_cfg s'' = eb_cfg s" "perEventData s'' = (perEventData s)[ei := ed']"
      "if list_ex (\<lambda>ms. ms_data ms \<noteq> []) storage
       then \<exists>outs. output_array s storage outs \<and> calls s'' = calls s @ [EventDataOut (outputCrateIndex (eb_cfg s)) ei outs]
       else calls s'' = calls s"
    by (rule output_event_ok [OF ok ei fl(1)])
  have "length storage = length (moduleConfigs (eventConfigs (eb_cfg s) ! ei))"
    using fl(1) by (simp add: flushed_def Let_def)
  then obtain cs where "calls s' = calls s @ cs" "list_all (event_call (eb_cfg s) ei) cs"
    using s''(1,5) fl(2) by (fastforce simp: output_array_def event_call_def split: if_splits)
  then show ?thesis using that [of s' cs] fl s'' True by simp
next
  case False
  then show ?thesis using tryFlush_not_ready [OF ok, of "int ei"] that [of s "[]"] ok by simp
qed

lemma flush_loop_ok:
  assumes "builder_ok s" "ei < length (eventConfigs (eb_cfg s))"
  shows "\<exists>s' k cs. flush_loop ei s cnt = Inr (s', cnt + of_nat k) \<and> builder_ok s' \<and> eb_cfg s' = eb_cfg s \<and>
    \<not> ready (eventConfigs (eb_cfg s) ! ei) (perEventData s' ! ei) \<and>
    (\<forall>e. e \<noteq> ei \<longrightarrow> perEventData s' ! e = perEventData s ! e) \<and> k \<le> length (allTimestamps (perEventData s ! ei)) \<and>
    calls s' = calls s @ cs \<and> list_all (event_call (eb_cfg s) ei) cs"
  using assms
proof (induction ei s cnt rule: flush_loop.induct)
  case (1 ei s cnt)
  obtain s' cs where s': "tryFlush (int ei) s = Inr (s', ready (eventConfigs (eb_cfg s) ! ei) (perEventData s ! ei))"
      "builder_ok s'" "eb_cfg s' = eb_cfg s" "\<forall>e. e \<noteq> ei \<longrightarrow> perEventData s' ! e = perEventData s ! e"
      "calls s' = calls s @ cs" "list_all (event_call (eb_cfg s) ei) cs"
    using tryFlush_ok [OF "1.prems"] by metis
  show ?case
  proof (cases "ready (eventConfigs (eb_cfg s) ! ei) (perEventData s ! ei)")
    case True
    then have t: "tryFlush (int ei) s = Inr (s', True)" using s'(1) by simp
    have prems: "builder_ok s'" "ei < length (eventConfigs (eb_cfg s'))" using s'(2,3) "1.prems" by simp_all
    obtain s'' k cs' where r: "flush_loop ei s' (cnt + 1) = Inr (s'', cnt + 1 + of_nat k)" "builder_ok s''" "eb_cfg s'' = eb_cfg s"
        "\<not> ready (eventConfigs (eb_cfg s) ! ei) (perEventData s'' ! ei)"
        "\<forall>e. e \<noteq> ei \<longrightarrow> perEventData s'' ! e = perEventData s' ! e" "k \<le> length (allTimestamps (perEventData s' ! ei))"
        "calls s'' = calls s' @ cs'" "list_all (event_call (eb_cfg s) ei) cs'"
      using "1.IH" [OF t refl TrueI prems] unfolding s'(3) by blast
    have "flush_loop ei s cnt = Inr (s'', cnt + of_nat (Suc k))"
      using t r(1) by (simp add: flush_loop.simps [of ei s] add_ac)
    moreover have "Suc k \<le> length (allTimestamps (perEventData s ! ei))"
      using tryFlush_shrinks [OF t] r(6) by simp
    moreover have "calls s'' = calls s @ cs @ cs'" "list_all (event_call (eb_cfg s) ei) (cs @ cs')"
      using r(7,8) s'(5,6) by simp_all
    ultimately show ?thesis using r(2-5) s'(4) by (intro exI [of _ s''] exI [of _ "Suc k"] exI [of _ "cs @ cs'"]) simp
  next
    case False
    then have "tryFlush (int ei) s = Inr (s, False)" using tryFlush_not_ready [OF "1.prems"(1), of "int ei"] by simp
    then have "flush_loop ei s cnt = Inr (s, cnt + of_nat 0)" by (simp add: flush_loop.simps [of ei s])
    then show ?thesis using False "1.prems"(1) by (intro exI [of _ s] exI [of _ 0] exI [of _ "[]"]) simp
  qed
qed

section \<open>Forced flushing\<close>

definition front_output :: "ModuleStorage list \<Rightarrow> ModuleData option" where
  "front_output q = (case q of [] \<Rightarrow> Some ModuleData_init | m # _ \<Rightarrow> Some (to_module_data m))"

lemma force_pass_ok:
  assumes bal: "balanced n d (qs, c)" and len: "length storage = n" "length outs = n"
  obtains c' storage' where
    "force_pass n (qs, c, storage, outs) = ((map tl qs, c', storage', map front_output qs), list_ex (\<lambda>q. q \<noteq> []) qs)"
    "balanced n d (map tl qs, c')" "static_part c' = static_part c" "length storage' = n"
proof -
  define P where "P i st \<longleftrightarrow> (case st of ((q1, c1, s1, o1), h) \<Rightarrow>
      balanced n d (q1, c1) \<and> static_part c1 = static_part c \<and> length s1 = n \<and>
      q1 = map tl (take i qs) @ drop i qs \<and> o1 = map front_output (take i qs) @ drop i outs \<and>
      h = list_ex (\<lambda>q. q \<noteq> []) (take i qs))" for i and st :: "force_state \<times> bool"
  have n: "length qs = n" using bal by (simp add: balanced_def)
  have "P n (fold force_module [0..<n] ((qs, c, storage, outs), False))"
  proof (rule fold_upt_invariant [where P = P])
    show "P 0 ((qs, c, storage, outs), False)" using assms by (simp add: P_def)
    fix i st assume i: "i < n" "P i st"
    obtain q1 c1 s1 o1 h where st: "st = ((q1, c1, s1, o1), h)" by (metis prod.exhaust)
    have take: "take (Suc i) qs = take i qs @ [qs ! i]" "drop i qs = qs ! i # drop (Suc i) qs" "drop i outs = outs ! i # drop (Suc i) outs"
      using i n len by (simp_all add: take_Suc_conv_app_nth Cons_nth_drop_Suc)
    have bal1: "balanced n d (q1, c1)" and q1: "q1 = map tl (take i qs) @ qs ! i # drop (Suc i) qs"
      and o1: "o1 = map front_output (take i qs) @ outs ! i # drop (Suc i) outs"
      and rest: "static_part c1 = static_part c" "length s1 = n" "h = list_ex (\<lambda>q. q \<noteq> []) (take i qs)"
      using i(2) take by (auto simp: P_def st)
    have nth: "q1 ! i = qs ! i" "length (map tl (take i qs)) = i" "length (map front_output (take i qs)) = i"
      using i n by (simp_all add: q1 nth_append)
    then have upd: "q1[i := x] = map tl (take i qs) @ x # drop (Suc i) qs" "o1[i := y] = map front_output (take i qs) @ y # drop (Suc i) outs" for x y
      by (simp_all add: q1 o1 list_update_append)
    show "P (Suc i) (force_module i st)"
    proof (cases "qs ! i")
      case Nil
      then have "force_module i st = ((q1[i := tl (qs ! i)], c1, s1, o1[i := front_output (qs ! i)]), h)"
        using nth(1) by (simp add: force_module_def st front_output_def update_same)
      moreover have "balanced n d (q1[i := tl (qs ! i)], c1)" using bal1 Nil nth(1) by (simp add: update_same)
      ultimately show ?thesis using rest Nil by (simp add: P_def upd take(1))
    next
      case (Cons m ms)
      then have "force_module i st = ((q1[i := tl (qs ! i)], count_removed i m (c1\<lparr>outputHits := inc i 1 (outputHits c1)\<rparr>),
          s1[i := m], o1[i := front_output (qs ! i)]), True)"
        using nth(1) by (simp add: force_module_def st front_output_def)
      then show ?thesis
        using balanced_count_removed(2) [OF bal1 i(1), of m ms] nth(1) Cons rest by (simp add: P_def upd take(1))
    qed
  qed
  then show ?thesis
    using that n len by (auto simp: P_def force_pass_def split: prod.splits)
qed

text \<open>The \<open>k\<close>-th event of a forced flush: the \<open>k\<close>-th data of every queue that is long enough.\<close>

definition forced_event :: "ModuleStorage list list \<Rightarrow> nat \<Rightarrow> ModuleData option list" where
  "forced_event qs k = map (\<lambda>q. front_output (drop k q)) qs"

definition longest :: "ModuleStorage list list \<Rightarrow> nat" where
  "longest qs = foldr (\<lambda>q. max (length q)) qs 0"

lemma longest_tl: "longest (map tl qs) = longest qs - 1"
  by (induction qs) (auto simp: longest_def)

lemma longest_pos: "list_ex (\<lambda>q. q \<noteq> []) qs \<longleftrightarrow> 0 < longest qs"
  by (induction qs) (auto simp: longest_def)

lemma forced_event_tl: "forced_event (map tl qs) k = forced_event qs (Suc k)"
  by (simp add: forced_event_def drop_Suc)

lemma force_loop_ok:
  assumes "balanced n d (qs, c)" "length storage = n" "length outs = n"
  shows "\<exists>c' storage' outs'. force_loop crate ei (qs, c, storage, outs) out result =
      ((replicate n [], c', storage', outs'),
       out @ map (\<lambda>k. EventDataOut crate ei (forced_event qs k)) [0..<longest qs], result + of_nat (longest qs)) \<and>
    balanced n d (replicate n [], c') \<and> static_part c' = static_part c"
  using assms
proof (induction "longest qs" arbitrary: qs c storage outs out result)
  case 0
  have n: "length qs = n" using 0 by (simp add: balanced_def)
  have "\<forall>q \<in> set qs. q = []" using "0.hyps" longest_pos [of qs] by (auto simp: list_ex_iff)
  then have qs: "qs = replicate n []" using n replicate_length_same [of qs "[]"] by simp
  obtain c' storage' where p: "force_pass n (qs, c, storage, outs) = ((map tl qs, c', storage', map front_output qs), list_ex (\<lambda>q. q \<noteq> []) qs)"
      "balanced n d (map tl qs, c')" "static_part c' = static_part c"
    using force_pass_ok [OF "0.prems"] by metis
  have "\<not> list_ex (\<lambda>q. q \<noteq> []) qs" using "0.hyps" longest_pos [of qs] by simp
  then have "force_loop crate ei (qs, c, storage, outs) out result = ((map tl qs, c', storage', map front_output qs), out, result)"
    using p(1) n by (simp add: force_loop.simps [of crate ei "(qs, c, storage, outs)"])
  moreover have "map tl qs = replicate n []" by (simp add: qs)
  moreover have "longest qs = 0" using "0.hyps" by simp
  ultimately show ?case using p(2,3) by auto
next
  case (Suc l)
  have n: "length qs = n" using Suc.prems by (simp add: balanced_def)
  obtain c1 storage1 where p: "force_pass n (qs, c, storage, outs) =
        ((map tl qs, c1, storage1, map front_output qs), list_ex (\<lambda>q. q \<noteq> []) qs)"
      "balanced n d (map tl qs, c1)" "static_part c1 = static_part c" "length storage1 = n"
    using force_pass_ok [OF Suc.prems] by metis
  have more: "list_ex (\<lambda>q. q \<noteq> []) qs" using Suc.hyps(2) longest_pos [of qs] by simp
  have tl: "longest (map tl qs) = l" "l = longest (map tl qs)" using Suc.hyps(2) longest_tl [of qs] by simp_all
  have q: "longest qs = Suc l" using Suc.hyps(2) by simp
  have evs: "map (\<lambda>k. EventDataOut crate ei (forced_event qs k)) [0..<longest qs] =
      EventDataOut crate ei (map front_output qs) # map (\<lambda>k. EventDataOut crate ei (forced_event (map tl qs) k)) [0..<l]"
    unfolding q map_upt_Suc forced_event_tl by (simp add: forced_event_def)
  have step: "force_loop crate ei (qs, c, storage, outs) out result = force_loop crate ei
      (map tl qs, c1, storage1, map front_output qs) (out @ [EventDataOut crate ei (map front_output qs)]) (result + 1)"
    using p(1) more n by (simp add: force_loop.simps [of crate ei "(qs, c, storage, outs)"])
  have count: "result + 1 + of_nat l = result + of_nat (longest qs)" by (simp add: q)
  have "length (map front_output qs) = n" by (simp add: n)
  from Suc.hyps(1) [OF tl(2) p(2,4) this, of "out @ [EventDataOut crate ei (map front_output qs)]" "result + 1"]
  show ?case unfolding step tl(1) count evs using p(3) by auto
qed

lemma forceFlush_ok:
  assumes ok: "builder_ok s" and ei: "ei < length (eventConfigs (eb_cfg s))"
  defines "qs \<equiv> moduleDatas (perEventData s ! ei)"
  obtains s' where "forceFlush ei s = Inr (s', of_nat (longest qs))" "builder_ok s'" "eb_cfg s' = eb_cfg s"
    "perEventData s' = (perEventData s)[ei := (perEventData s ! ei)\<lparr>moduleDatas := replicate (length qs) []\<rparr>]"
    "calls s' = calls s @ map (\<lambda>k. EventDataOut (outputCrateIndex (eb_cfg s)) ei (forced_event qs k)) [0..<longest qs]"
proof -
  let ?n = "length (moduleConfigs (eventConfigs (eb_cfg s) ! ei))" and ?c = "eb_counters s ! ei"
  note ev = builder_ok_event [OF ok ei]
  have bal: "balanced ?n (\<lambda>_. discardsNoStamp ?c) (qs, ?c)" using ev by (simp add: event_ok_def Let_def qs_def)
  have n: "length qs = ?n" and covers: "covers ?n ?c" using bal covers_sized by (simp_all add: balanced_def)
  obtain c' storage' outs' where f: "force_loop (outputCrateIndex (eb_cfg s)) ei
       (qs, ?c, resize ?n ModuleStorage_init (outputModuleStorage s), resize ?n (Some ModuleData_init) (outputModuleData s))
       (calls s) 0 = ((replicate ?n [], c', storage', outs'),
        calls s @ map (\<lambda>k. EventDataOut (outputCrateIndex (eb_cfg s)) ei (forced_event qs k)) [0..<longest qs],
        0 + of_nat (longest qs))"
      "balanced ?n (\<lambda>_. discardsNoStamp ?c) (replicate ?n [], c')" "static_part c' = static_part ?c"
    using force_loop_ok [OF bal length_resize length_resize] by blast
  have "event_ok (eventConfigs (eb_cfg s) ! ei) ((perEventData s ! ei)\<lparr>moduleDatas := replicate ?n []\<rparr>, c')"
    using ev f(2,3) by (simp add: event_ok_def Let_def static_part_def list_all_iff)
  moreover have "ei < length (perEventData s)" "ei < length (eb_counters s)" using ok ei by (simp_all add: builder_ok_def)
  ultimately show ?thesis
    using that builder_ok_update [OF ok ei] f(1) covers n by (simp add: forceFlush_def Let_def flip: qs_def)
qed

section \<open>Passes over all events\<close>

text \<open>
  Both kinds of flushing visit one event after the other. A visit keeps the
  invariant, settles its event, leaves the other events alone, adds the number
  of its steps to the result and only emits calls for its event.
\<close>

locale event_pass =
  fixes visit :: "nat \<Rightarrow> EventBuilder2 \<times> u64 \<Rightarrow> (EventBuilder2 \<times> u64) result"
    and settled :: "EventConfig \<Rightarrow> PerEventData \<Rightarrow> bool"
    and steps :: "PerEventData \<Rightarrow> nat \<Rightarrow> bool"
    and emits :: "EventBuilderConfig \<Rightarrow> nat \<Rightarrow> PerEventData \<Rightarrow> builder_call list \<Rightarrow> bool"
  assumes visit_ok: "\<lbrakk>builder_ok s; ei < length (eventConfigs (eb_cfg s))\<rbrakk> \<Longrightarrow>
    \<exists>s' k cs. visit ei (s, cnt) = Inr (s', cnt + of_nat k) \<and> builder_ok s' \<and> eb_cfg s' = eb_cfg s \<and>
      settled (eventConfigs (eb_cfg s) ! ei) (perEventData s' ! ei) \<and>
      (\<forall>e. e \<noteq> ei \<longrightarrow> perEventData s' ! e = perEventData s ! e) \<and> steps (perEventData s ! ei) k \<and>
      calls s' = calls s @ cs \<and> emits (eb_cfg s) ei (perEventData s ! ei) cs"
begin

definition after :: "EventBuilder2 \<Rightarrow> nat \<Rightarrow> EventBuilder2 \<times> u64 \<Rightarrow> nat list \<Rightarrow> builder_call list list \<Rightarrow> bool" where
  "after s i st ks css \<longleftrightarrow>
     snd st = of_nat (sum_list ks) \<and> length ks = i \<and> length css = i \<and> builder_ok (fst st) \<and> eb_cfg (fst st) = eb_cfg s \<and>
     calls (fst st) = calls s @ concat css \<and>
     (\<forall>e < i. settled (eventConfigs (eb_cfg s) ! e) (perEventData (fst st) ! e) \<and> steps (perEventData s ! e) (ks ! e) \<and>
        emits (eb_cfg s) e (perEventData s ! e) (css ! e)) \<and>
     (\<forall>e. i \<le> e \<longrightarrow> perEventData (fst st) ! e = perEventData s ! e)"

lemma visit_after:
  assumes "after s i st ks css" "i < length (eventConfigs (eb_cfg s))"
  shows "\<exists>st' k cs. visit i st = Inr st' \<and> after s (Suc i) st' (ks @ [k]) (css @ [cs])"
proof -
  obtain s1 cnt where st: "st = (s1, cnt)" by (cases st)
  have s1: "builder_ok s1" "i < length (eventConfigs (eb_cfg s1))" "eb_cfg s1 = eb_cfg s" "perEventData s1 ! i = perEventData s ! i"
    using assms by (auto simp: after_def st)
  obtain s2 k cs where v: "visit i (s1, cnt) = Inr (s2, cnt + of_nat k)" "builder_ok s2" "eb_cfg s2 = eb_cfg s1"
      "settled (eventConfigs (eb_cfg s1) ! i) (perEventData s2 ! i)"
      "\<forall>e. e \<noteq> i \<longrightarrow> perEventData s2 ! e = perEventData s1 ! e" "steps (perEventData s1 ! i) k"
      "calls s2 = calls s1 @ cs" "emits (eb_cfg s1) i (perEventData s1 ! i) cs"
    using visit_ok [OF s1(1,2)] by blast
  have "after s (Suc i) (s2, cnt + of_nat k) (ks @ [k]) (css @ [cs])"
    using assms(1) v(2-8) s1(3,4) by (auto simp: after_def st nth_append less_Suc_eq)
  then show ?thesis using v(1) by (auto simp: st)
qed

lemma pass_ok:
  assumes ok: "builder_ok s"
  obtains s' ks css where "result_foldM visit [0..<length (perEventData s)] (s, 0) = Inr (s', of_nat (sum_list ks))"
    "after s (length (perEventData s)) (s', of_nat (sum_list ks)) ks css"
proof -
  have n: "length (perEventData s) = length (eventConfigs (eb_cfg s))" using ok by (simp add: builder_ok_def)
  have "\<exists>st. result_foldM visit [0..<length (perEventData s)] (s, 0) = Inr st \<and>
      (\<exists>ks css. after s (length (perEventData s)) st ks css)"
  proof (rule result_foldM_upt_invariant)
    show "\<exists>ks css. after s 0 (s, 0) ks css" using ok by (auto simp: after_def)
    show "\<exists>st'. visit i st = Inr st' \<and> (\<exists>ks css. after s (Suc i) st' ks css)"
      if "i < length (perEventData s)" "\<exists>ks css. after s i st ks css" for i st
      using visit_after that n by metis
  qed
  then obtain st ks css where "result_foldM visit [0..<length (perEventData s)] (s, 0) = Inr st"
      "after s (length (perEventData s)) st ks css" by blast
  moreover have "st = (fst st, of_nat (sum_list ks))" using calculation(2) by (simp add: after_def prod_eq_iff)
  ultimately show ?thesis using that by metis
qed

end

interpretation try_pass: event_pass
  "\<lambda>ei (s, cnt). flush_loop ei s cnt" "\<lambda>ec ed. \<not> ready ec ed"
  "\<lambda>ed k. k \<le> length (allTimestamps ed)" "\<lambda>cfg ei ed cs. list_all (event_call cfg ei) cs"
proof
  fix s ei and cnt :: u64
  assume "builder_ok s" "ei < length (eventConfigs (eb_cfg s))"
  from flush_loop_ok [OF this, of cnt]
  show "\<exists>s' k cs. (case (s, cnt) of (s, cnt) \<Rightarrow> flush_loop ei s cnt) = Inr (s', cnt + of_nat k) \<and> builder_ok s' \<and>
      eb_cfg s' = eb_cfg s \<and> \<not> ready (eventConfigs (eb_cfg s) ! ei) (perEventData s' ! ei) \<and>
      (\<forall>e. e \<noteq> ei \<longrightarrow> perEventData s' ! e = perEventData s ! e) \<and> k \<le> length (allTimestamps (perEventData s ! ei)) \<and>
      calls s' = calls s @ cs \<and> list_all (event_call (eb_cfg s) ei) cs"
    by simp
qed

abbreviation forced_calls :: "EventBuilderConfig \<Rightarrow> nat \<Rightarrow> PerEventData \<Rightarrow> builder_call list" where
  "forced_calls cfg ei ed \<equiv>
     map (\<lambda>k. EventDataOut (outputCrateIndex cfg) ei (forced_event (moduleDatas ed) k)) [0..<longest (moduleDatas ed)]"

interpretation forced_pass: event_pass
  "\<lambda>ei (s, cnt). result_map (\<lambda>(s, n). (s, cnt + n)) (forceFlush ei s)"
  "\<lambda>ec ed. moduleDatas ed = replicate (length (moduleConfigs ec)) []"
  "\<lambda>ed k. k = longest (moduleDatas ed)" "\<lambda>cfg ei ed cs. cs = forced_calls cfg ei ed"
proof
  fix s ei and cnt :: u64
  assume s: "builder_ok s" "ei < length (eventConfigs (eb_cfg s))"
  have len: "length (moduleDatas (perEventData s ! ei)) = length (moduleConfigs (eventConfigs (eb_cfg s) ! ei))"
      "ei < length (perEventData s)"
    using builder_ok_event [OF s] s by (simp_all add: event_ok_def balanced_def Let_def builder_ok_def)
  obtain s' where "forceFlush ei s = Inr (s', of_nat (longest (moduleDatas (perEventData s ! ei))))" "builder_ok s'" "eb_cfg s' = eb_cfg s"
      "perEventData s' = (perEventData s)[ei := (perEventData s ! ei)\<lparr>moduleDatas := replicate (length (moduleDatas (perEventData s ! ei))) []\<rparr>]"
      "calls s' = calls s @ forced_calls (eb_cfg s) ei (perEventData s ! ei)"
    by (rule forceFlush_ok [OF s])
  then show "\<exists>s' k cs. (case (s, cnt) of (s, cnt) \<Rightarrow> result_map (\<lambda>(s, n). (s, cnt + n)) (forceFlush ei s)) = Inr (s', cnt + of_nat k) \<and>
      builder_ok s' \<and> eb_cfg s' = eb_cfg s \<and>
      moduleDatas (perEventData s' ! ei) = replicate (length (moduleConfigs (eventConfigs (eb_cfg s) ! ei))) [] \<and>
      (\<forall>e. e \<noteq> ei \<longrightarrow> perEventData s' ! e = perEventData s ! e) \<and> k = longest (moduleDatas (perEventData s ! ei)) \<and>
      calls s' = calls s @ cs \<and> cs = forced_calls (eb_cfg s) ei (perEventData s ! ei)"
    using len by simp
qed

end
