(* ===== verification/Event_Builder2_Run.thy ===== *)
theory Event_Builder2_Run
  imports Event_Builder2_Correct
begin

text \<open>
  Runs of the event builder: every state that the public operations can reach
  from the constructor satisfies the invariant. The properties of the component
  are stated over these states.
\<close>

section \<open>Reachable states\<close>

inductive reach :: "EventBuilderConfig \<Rightarrow> EventBuilder2 \<Rightarrow> bool" for cfg where
  created: "make_EventBuilder2 cfg = Inr s \<Longrightarrow> reach cfg s"
| recorded: "reach cfg s \<Longrightarrow> eb_recordModuleData ix mds s = Inr (s', b) \<Longrightarrow> reach cfg s'"
| flushed: "reach cfg s \<Longrightarrow> eb_flush force s = Inr (s', n) \<Longrightarrow> reach cfg s'"
| system_event: "reach cfg s \<Longrightarrow> reach cfg (handleSystemEvent words s)"

lemma recordModuleData_excess:
  assumes ok: "builder_ok s" and size: "list_all size_consistency_check mds" and ix: "0 \<le> ix" "nat ix < length (eventConfigs (eb_cfg s))"
    and more: "length (moduleConfigs (eventConfigs (eb_cfg s) ! nat ix)) < length mds"
  shows "recordModuleData ix mds s = Inl UndefinedBehaviour"
proof -
  note ev = builder_ok_event [OF ok ix(2)]
  have "checkConsistency s ix mds" using size ix event_index_ok_iff [OF ok] by (simp add: checkConsistency_def)
  moreover have "length (inputHits (eb_counters s ! nat ix)) < length mds"
    using ev more by (simp add: event_ok_def balance_defs Let_def)
  ultimately show ?thesis
    using record_event_undefined [OF ev more] by (simp add: recordModuleData_def Let_def result_map_def)
qed

text \<open>Consistent data of more modules than the event is configured with.\<close>

definition excess :: "EventBuilder2 \<Rightarrow> int \<Rightarrow> ModuleData list \<Rightarrow> bool" where
  "excess s ix mds \<longleftrightarrow>
     0 \<le> ix \<and> nat ix < length (eventConfigs (eb_cfg s)) \<and> list_all size_consistency_check mds \<and>
     length (moduleConfigs (eventConfigs (eb_cfg s) ! nat ix)) < length mds"

lemma eb_record_index:
  assumes "builder_ok s" "0 \<le> ix" "nat ix < length (eventConfigs (eb_cfg s))"
  shows "eb_recordModuleData ix mds s = result_map (\<lambda>(s, _). (s, True)) (recordModuleData ix mds s)"
  using assms by (simp add: eb_recordModuleData_def builder_ok_def)

lemma eb_record_excess:
  assumes "builder_ok s" "excess s ix mds"
  shows "eb_recordModuleData ix mds s = Inl UndefinedBehaviour"
  using assms eb_record_index [OF assms(1), of ix mds] recordModuleData_excess [OF assms(1), of mds ix]
  by (simp add: excess_def result_map_def)

lemma eb_record_ok:
  assumes ok: "builder_ok s" and "\<not> excess s ix mds"
  obtains s' where "eb_recordModuleData ix mds s = Inr (s', 0 \<le> ix \<and> nat ix < length (eventConfigs (eb_cfg s)))"
    "builder_ok s'" "eb_cfg s' = eb_cfg s"
proof (cases "0 \<le> ix \<and> nat ix < length (eventConfigs (eb_cfg s))")
  case False
  then have "eb_recordModuleData ix mds s = Inr (s, False)"
    using ok by (auto simp: eb_recordModuleData_def builder_ok_def)
  then show ?thesis using that [of s] False ok by simp
next
  case True
  have "\<exists>s' b. recordModuleData ix mds s = Inr (s', b) \<and> builder_ok s' \<and> eb_cfg s' = eb_cfg s"
  proof (cases "list_all size_consistency_check mds")
    case size: True
    then have "module_count_ok s ix mds" using True assms(2) by (auto simp: module_count_ok_def excess_def)
    then show ?thesis by (rule recordModuleData_ok [OF ok])
  next
    case False
    then have "recordModuleData ix mds s = Inr (s, False)" by (simp add: recordModuleData_def checkConsistency_def)
    then show ?thesis using ok by blast
  qed
  then obtain s' b where "recordModuleData ix mds s = Inr (s', b)" "builder_ok s'" "eb_cfg s' = eb_cfg s" by blast
  then show ?thesis using that [of s'] True eb_record_index [OF ok] by simp
qed

lemma eb_flush_False:
  assumes "builder_ok s"
  obtains s' ks css where "eb_flush False s = Inr (s', of_nat (sum_list ks))"
    "try_pass.after s (length (perEventData s)) (s', of_nat (sum_list ks)) ks css"
proof -
  obtain s1 ks css where "result_foldM (\<lambda>ei (s, cnt). flush_loop ei s cnt) [0..<length (perEventData s)] (s, 0) = Inr (s1, of_nat (sum_list ks))"
      "try_pass.after s (length (perEventData s)) (s1, of_nat (sum_list ks)) ks css"
    by (rule try_pass.pass_ok [OF assms])
  then show ?thesis
    using that [of "s1\<lparr>protectedCounters := eb_counters s1\<rparr>" ks css] builder_ok_cong [of "s1\<lparr>protectedCounters := eb_counters s1\<rparr>" s1]
    by (simp add: eb_flush_def try_pass.after_def)
qed

lemma eb_flush_True:
  assumes "builder_ok s"
  obtains s' ks css where "eb_flush True s = Inr (s', of_nat (sum_list ks))"
    "forced_pass.after s (length (perEventData s)) (s', of_nat (sum_list ks)) ks css"
proof -
  obtain s1 ks css where "result_foldM (\<lambda>ei (s, cnt). result_map (\<lambda>(s, n). (s, cnt + n)) (forceFlush ei s))
        [0..<length (perEventData s)] (s, 0) = Inr (s1, of_nat (sum_list ks))"
      "forced_pass.after s (length (perEventData s)) (s1, of_nat (sum_list ks)) ks css"
    by (rule forced_pass.pass_ok [OF assms])
  then show ?thesis
    using that [of "s1\<lparr>protectedCounters := eb_counters s1\<rparr>" ks css] builder_ok_cong [of "s1\<lparr>protectedCounters := eb_counters s1\<rparr>" s1]
    by (simp add: eb_flush_def forced_pass.after_def)
qed

lemma eb_flush_ok:
  assumes "builder_ok s"
  obtains s' n where "eb_flush force s = Inr (s', n)" "builder_ok s'" "eb_cfg s' = eb_cfg s"
proof (cases force)
  case True
  obtain s' ks css where "eb_flush True s = Inr (s', of_nat (sum_list ks))"
      "forced_pass.after s (length (perEventData s)) (s', of_nat (sum_list ks)) ks css"
    by (rule eb_flush_True [OF assms])
  then show ?thesis using that True by (simp add: forced_pass.after_def)
next
  case False
  obtain s' ks css where "eb_flush False s = Inr (s', of_nat (sum_list ks))"
      "try_pass.after s (length (perEventData s)) (s', of_nat (sum_list ks)) ks css"
    by (rule eb_flush_False [OF assms])
  then show ?thesis using that False by (simp add: try_pass.after_def)
qed

lemma reach_ok: "reach cfg s \<Longrightarrow> builder_ok s \<and> eb_cfg s = cfg"
proof (induction rule: reach.induct)
  case (created s)
  then show ?case using make_EventBuilder2_ok by blast
next
  case (recorded s ix mds s' b)
  then have ok: "builder_ok s" "eb_cfg s = cfg" by simp_all
  show ?case
  proof (cases "excess s ix mds")
    case True
    then show ?thesis using eb_record_excess [OF ok(1)] recorded.hyps(2) by simp
  next
    case False
    obtain s2 where "eb_recordModuleData ix mds s = Inr (s2, 0 \<le> ix \<and> nat ix < length (eventConfigs (eb_cfg s)))"
        "builder_ok s2" "eb_cfg s2 = eb_cfg s"
      by (rule eb_record_ok [OF ok(1) False])
    then show ?thesis using recorded.hyps(2) ok(2) by simp
  qed
next
  case (flushed s force s' n)
  then have ok: "builder_ok s" "eb_cfg s = cfg" by simp_all
  obtain s2 n2 where "eb_flush force s = Inr (s2, n2)" "builder_ok s2" "eb_cfg s2 = eb_cfg s"
    by (rule eb_flush_ok [OF ok(1)])
  then show ?case using flushed.hyps(2) ok(2) by simp
next
  case (system_event s words)
  then show ?case using builder_ok_cong [of "handleSystemEvent words s" s] by (simp add: handleSystemEvent_def)
qed

section \<open>The calls of a run\<close>

definition call_ok :: "EventBuilderConfig \<Rightarrow> builder_call \<Rightarrow> bool" where
  "call_ok cfg call \<longleftrightarrow> (case call of
     EventDataOut crate ei outs \<Rightarrow>
       crate = outputCrateIndex cfg \<and> ei < length (eventConfigs cfg) \<and>
       (if enabled (eventConfigs cfg ! ei) then length outs = length (moduleConfigs (eventConfigs cfg ! ei))
        else length outs \<le> length (moduleConfigs (eventConfigs cfg ! ei)))
   | SystemEventOut crate words \<Rightarrow> crate = outputCrateIndex cfg)"

lemma event_call_ok: "list_all (event_call cfg ei) cs \<Longrightarrow> ei < length (eventConfigs cfg) \<Longrightarrow> list_all (call_ok cfg) cs"
  by (auto simp: list_all_iff event_call_def call_ok_def split: builder_call.splits)

lemma forced_calls_ok:
  assumes "builder_ok s" "ei < length (eventConfigs (eb_cfg s))"
  shows "list_all (call_ok (eb_cfg s)) (forced_calls (eb_cfg s) ei (perEventData s ! ei))"
  using builder_ok_event [OF assms] assms(2)
  by (simp add: list_all_iff call_ok_def forced_event_def event_ok_def balanced_def Let_def)

lemma record_calls:
  assumes "builder_ok s" "eb_recordModuleData ix mds s = Inr (s', b)"
  shows "\<exists>cs. calls s' = calls s @ cs \<and> list_all (call_ok (eb_cfg s)) cs"
proof (cases "0 \<le> ix \<and> nat ix < length (eventConfigs (eb_cfg s)) \<and> checkConsistency s ix mds")
  case False
  then have "s' = s"
    using assms by (auto simp: eb_recordModuleData_def recordModuleData_def builder_ok_def split: if_splits)
  then show ?thesis by simp
next
  case True
  have rec: "\<exists>b. recordModuleData ix mds s = Inr (s', b)"
    using assms(2) eb_record_index [OF assms(1)] True by auto
  show ?thesis
  proof (cases "enabled (eventConfigs (eb_cfg s) ! nat ix)")
    case en: True
    then have "calls s' = calls s" using rec True by (auto simp: recordModuleData_def Let_def)
    then show ?thesis by simp
  next
    case dis: False
    have "length (inputHits (eb_counters s ! nat ix)) = length (moduleConfigs (eventConfigs (eb_cfg s) ! nat ix))"
      using builder_ok_event [OF assms(1)] True by (simp add: event_ok_def balance_defs Let_def)
    then have "calls s' = calls s @ [EventDataOut (outputCrateIndex (eb_cfg s)) (nat ix) (map Some mds)]"
        "length mds \<le> length (moduleConfigs (eventConfigs (eb_cfg s) ! nat ix))"
      using rec True dis by (auto simp: recordModuleData_def Let_def split: if_splits)
    then show ?thesis using True dis by (simp add: call_ok_def)
  qed
qed

lemma flush_calls:
  assumes ok: "builder_ok s" and result: "eb_flush force s = Inr (s', n)"
  shows "\<exists>cs. calls s' = calls s @ cs \<and> list_all (call_ok (eb_cfg s)) cs"
proof -
  have len: "length (perEventData s) = length (eventConfigs (eb_cfg s))" using ok by (simp add: builder_ok_def)
  show ?thesis
  proof (cases force)
    case True
    obtain s1 ks css where "eb_flush True s = Inr (s1, of_nat (sum_list ks))"
        "forced_pass.after s (length (perEventData s)) (s1, of_nat (sum_list ks)) ks css"
      by (rule eb_flush_True [OF ok])
    then show ?thesis
      using result True forced_calls_ok [OF ok] len
      by (intro exI [of _ "concat css"]) (auto simp: forced_pass.after_def list_all_iff in_set_conv_nth)
  next
    case False
    obtain s1 ks css where "eb_flush False s = Inr (s1, of_nat (sum_list ks))"
        "try_pass.after s (length (perEventData s)) (s1, of_nat (sum_list ks)) ks css"
      by (rule eb_flush_False [OF ok])
    then have "calls s' = calls s @ concat css" "length css = length (eventConfigs (eb_cfg s))"
        "\<forall>e < length css. list_all (event_call (eb_cfg s) e) (css ! e)"
      using result False len by (auto simp: try_pass.after_def)
    then have "\<forall>cs \<in> set css. list_all (call_ok (eb_cfg s)) cs"
      using event_call_ok [of "eb_cfg s"] by (metis in_set_conv_nth)
    then show ?thesis
      using \<open>calls s' = calls s @ concat css\<close> by (auto simp: list_all_iff)
  qed
qed

lemma reach_calls: "reach cfg s \<Longrightarrow> list_all (call_ok cfg) (calls s)"
proof (induction rule: reach.induct)
  case (created s)
  then show ?case using make_EventBuilder2_ok(3) [of cfg s] by simp
next
  case (recorded s ix mds s' b)
  then show ?case using record_calls [of s ix mds s' b] reach_ok [of cfg s] by auto
next
  case (flushed s force s' n)
  then show ?case using flush_calls [of s force s' n] reach_ok [of cfg s] by auto
next
  case (system_event s words)
  then show ?case using reach_ok [of cfg s] by (simp add: handleSystemEvent_def call_ok_def)
qed

section \<open>Timestamps\<close>

lemma timestamp_difference_bounds:
  assumes "0 \<le> a" "a < 2 ^ 30" "0 \<le> b" "b < (2 :: int) ^ 30"
  shows "\<bar>timestamp_difference a b\<bar> \<le> TimestampHalf" "timestamp_difference b a = - timestamp_difference a b"
  using assms by (auto simp: timestamp_difference_def Let_def)

lemma timestamp_difference_shift:
  assumes "0 \<le> b" "b < (2 :: int) ^ 30" "0 < d" "d \<le> TimestampHalf"
  shows "timestamp_difference ((b + d) mod 2 ^ 30) b = (if b + d < 2 ^ 30 then d else d - 1)"
proof (cases "b + d < 2 ^ 30")
  case True
  then have "(b + d) mod 2 ^ 30 = b + d" using assms by simp
  then show ?thesis using True assms by (simp add: timestamp_difference_def)
next
  case False
  then have "(b + d) mod 2 ^ 30 = b + d - 2 ^ 30"
    using assms mod_pos_pos_trivial [of "b + d - 2 ^ 30" "2 ^ 30"] minus_mod_self2 [of "b + d" "2 ^ 30"] by simp
  then show ?thesis using False assms by (simp add: timestamp_difference_def)
qed

section \<open>An example\<close>

text \<open>
  Two modules of one event, each read out as a single word that is also the
  timestamp. The second module has no data in the second readout.
\<close>

definition first_word :: timestamp_extractor where
  "first_word = (\<lambda>data. case data of [] \<Rightarrow> None | w # _ \<Rightarrow> Some w)"

definition demo_module :: ModuleConfig where
  "demo_module = \<lparr>tsExtractor = first_word, mc_offset = 0, mc_window = 10, mc_ignored = False,
     mc_hasDynamic = False, mc_prefixSize = 1, mc_name = ''m''\<rparr>"

definition demo_cfg :: EventBuilderConfig where
  "demo_cfg = \<lparr>eventConfigs = [\<lparr>moduleConfigs = [demo_module, demo_module], enabled = True, ec_name = ''e''\<rparr>],
     outputCrateIndex = 0, dtHistoBinning = \<lparr>binCount = 0, minValue = 0, maxValue = 0\<rparr>\<rparr>"

definition demo_data :: "u32 list \<Rightarrow> ModuleData" where
  "demo_data ws = \<lparr>md_data = ws, md_prefixSize = length ws, md_dynamicSize = 0, md_suffixSize = 0, md_hasDynamic = False\<rparr>"

definition demo_events :: "ModuleData list list" where
  "demo_events = [[demo_data [100], demo_data [100]], [demo_data [200], demo_data []], [demo_data [300], demo_data [300]]]"

definition demo_recorded :: "EventBuilder2 result" where
  "demo_recorded = result_bind (make_EventBuilder2 demo_cfg)
     (result_foldM (\<lambda>mds s. result_map fst (eb_recordModuleData 0 mds s)) demo_events)"

lemma reach_recorded:
  "result_foldM (\<lambda>mds s. result_map fst (eb_recordModuleData ix mds s)) evs s = Inr s' \<Longrightarrow> reach cfg s \<Longrightarrow> reach cfg s'"
  by (induction evs arbitrary: s) (auto intro: reach.recorded)

lemma demo_recorded_reach:
  obtains s where "demo_recorded = Inr s" "reach demo_cfg s" "map allTimestamps (perEventData s) = [[100, 100, 200, 300, 300]]"
    "map (map (map ms_data)) (map moduleDatas (perEventData s)) = [[[[100], [200], [300]], [[100], [], [300]]]]"
    "map inputHits (eb_counters s) = [[3, 3]]"
proof -
  have "case demo_recorded of Inl e \<Rightarrow> False | Inr s \<Rightarrow>
      map allTimestamps (perEventData s) = [[100, 100, 200, 300, 300]] \<and>
      map (map (map ms_data)) (map moduleDatas (perEventData s)) = [[[[100], [200], [300]], [[100], [], [300]]]] \<and>
      map inputHits (eb_counters s) = [[3, 3]]"
    by code_simp
  moreover have "demo_recorded = Inr s \<Longrightarrow> reach demo_cfg s" for s
    using reach_recorded [of 0 demo_events _ s demo_cfg] by (auto simp: demo_recorded_def intro: reach.created)
  ultimately show ?thesis using that by (auto split: sum.splits)
qed

end
