(* ===== verification/Event_Builder2_Properties.thy ===== *)
theory Event_Builder2_Properties
  imports Event_Builder2_Run
begin

text \<open>The properties of the event builder, over all states its public operations can reach.\<close>

section \<open>Conservation\<close>

text \<open>
  C4. In every reachable state the counters of every module balance: the data that
  came in is the data that was output, discarded because of its age, discarded
  because its event had no timestamp, or is still queued. All queued data is
  consistent and carries a timestamp of 30 bits. The counter of buffered
  events, however, is off by two for every event that was discarded because it
  had no timestamp: it is incremented when it should be decremented.
\<close>

theorem event_builder_conserves:
  assumes "reach cfg s" "ei < length (eventConfigs cfg)" "mi < length (moduleConfigs (eventConfigs cfg ! ei))"
  defines "c \<equiv> eb_counters s ! ei" and "q \<equiv> moduleDatas (perEventData s ! ei) ! mi"
  shows "inputHits c ! mi = outputHits c ! mi + discardsAge c ! mi + discardsNoStamp c + of_nat (length q) \<and>
    list_all (\<lambda>m. storage_consistency_check m \<and> (\<exists>ts. ms_timestamp m = Some ts \<and> 0 \<le> ts \<and> ts < 2 ^ 30)) q \<and>
    currentEvents c ! mi = of_nat (length q) + 2 * discardsNoStamp c"
proof -
  have ev: "event_ok (eventConfigs cfg ! ei) (perEventData s ! ei, c)"
    using builder_ok_event [of s ei] reach_ok [OF assms(1)] assms(2) by (simp add: c_def)
  then have "mi < length (moduleDatas (perEventData s ! ei))"
    using assms(3) by (simp add: event_ok_def balanced_def Let_def)
  then have "list_all entry_ok q" using ev by (simp add: q_def event_ok_def Let_def list_all_length)
  then show ?thesis
    using ev assms(3) by (auto simp: q_def event_ok_def balanced_def Let_def list_all_iff entry_ok_def stamp_ok_def
        add_ac split: option.splits)
qed

theorem event_builder_conserves_witness:
  "\<exists>s. reach demo_cfg s \<and> 3 = outputHits (eb_counters s ! 0) ! 1 + discardsAge (eb_counters s ! 0) ! 1 +
     discardsNoStamp (eb_counters s ! 0) + of_nat (length (moduleDatas (perEventData s ! 0) ! 1))"
proof -
  obtain s where s: "reach demo_cfg s" "map inputHits (eb_counters s) = [[3, 3]]" by (rule demo_recorded_reach)
  have "inputHits (eb_counters s ! 0) = [3, 3]" using s(2) by (cases "eb_counters s") auto
  moreover have "0 < length (eventConfigs demo_cfg)" "1 < length (moduleConfigs (eventConfigs demo_cfg ! 0))"
    by (simp_all add: demo_cfg_def)
  ultimately show ?thesis using event_builder_conserves [OF s(1), of 0 1] s(1) by auto
qed

section \<open>Failures\<close>



section \<open>Flushing\<close>

text \<open>
  C6. Flushing ends: it takes at most as many steps as there are buffered reference
  timestamps, and afterwards no event can be flushed any further.
\<close>

theorem flush_terminates:
  assumes "reach cfg s"
  shows "\<exists>s' k. eb_flush False s = Inr (s', of_nat k) \<and> k \<le> (\<Sum>ed\<leftarrow>perEventData s. length (allTimestamps ed)) \<and>
    (\<forall>ei < length (eventConfigs cfg). tryFlush (int ei) s' = Inr (s', False))"
proof -
  have ok: "builder_ok s" "eb_cfg s = cfg" using reach_ok [OF assms] by simp_all
  have len: "length (perEventData s) = length (eventConfigs cfg)" using ok by (simp add: builder_ok_def)
  obtain s' ks css where f: "eb_flush False s = Inr (s', of_nat (sum_list ks))"
      and after: "try_pass.after s (length (perEventData s)) (s', of_nat (sum_list ks)) ks css"
    by (rule eb_flush_False [OF ok(1)])
  have "sum_list ks \<le> (\<Sum>ed\<leftarrow>perEventData s. length (allTimestamps ed))"
    using after by (intro sum_list_mono2) (simp_all add: try_pass.after_def)
  moreover have "tryFlush (int ei) s' = Inr (s', False)" if "ei < length (eventConfigs cfg)" for ei
    using after that len ok(2) by (intro tryFlush_not_ready) (simp_all add: try_pass.after_def)
  ultimately show ?thesis using f by blast
qed

theorem flush_terminates_witness:
  "\<exists>s s' k. reach demo_cfg s \<and> eb_flush False s = Inr (s', of_nat k) \<and> k \<le> 5 \<and> tryFlush 0 s' = Inr (s', False)"
proof -
  obtain s where s: "reach demo_cfg s" "map allTimestamps (perEventData s) = [[100, 100, 200, 300, 300]]"
    by (rule demo_recorded_reach)
  have "(\<Sum>ed\<leftarrow>perEventData s. length (allTimestamps ed)) = 5" using s(2) by auto
  moreover obtain s' k where "eb_flush False s = Inr (s', of_nat k)" "k \<le> (\<Sum>ed\<leftarrow>perEventData s. length (allTimestamps ed))"
      "\<forall>ei < length (eventConfigs demo_cfg). tryFlush (int ei) s' = Inr (s', False)"
    using flush_terminates [OF s(1)] by blast
  ultimately show ?thesis
    using s(1) by (intro exI [of _ s] exI [of _ s'] exI [of _ k]) (simp add: demo_cfg_def)
qed

text \<open>
  C7. Flushing makes progress as soon as it can: a step of \<open>tryFlush\<close> is taken
  exactly when the event is enabled, has a reference timestamp and data, and the
  newest data of every module with data is too new for the match window of
  the reference timestamp. Such a step uses up the reference timestamp;
  otherwise nothing changes.
\<close>

theorem tryFlush_progress:
  assumes "reach cfg s" "ei < length (eventConfigs cfg)"
  defines "ec \<equiv> eventConfigs cfg ! ei" and "ed \<equiv> perEventData s ! ei"
  defines "go \<equiv> enabled ec \<and> allTimestamps ed \<noteq> [] \<and> (\<exists>q \<in> set (moduleDatas ed). q \<noteq> []) \<and>
    (\<forall>mi < length (moduleConfigs ec). moduleDatas ed ! mi \<noteq> [] \<longrightarrow>
       wmatch (timestamp_match (hd (allTimestamps ed)) (the (ms_timestamp (last (moduleDatas ed ! mi))))
         (mc_window (moduleConfigs ec ! mi))) = too_new)"
  shows "\<exists>s'. tryFlush (int ei) s = Inr (s', go) \<and>
    (if go then allTimestamps (perEventData s' ! ei) = dropWhile (\<lambda>ts. ts = hd (allTimestamps ed)) (allTimestamps ed) \<and>
       length (allTimestamps (perEventData s' ! ei)) < length (allTimestamps ed) else s' = s)"
proof -
  have ok: "builder_ok s" "eb_cfg s = cfg" using reach_ok [OF assms(1)] by simp_all
  have len: "length (moduleDatas ed) = length (moduleConfigs ec)" "ei < length (perEventData s)"
    using builder_ok_event [OF ok(1), of ei] assms(2) ok by (simp_all add: event_ok_def balanced_def Let_def ec_def ed_def builder_ok_def)
  have go: "go = ready ec ed"
    unfolding go_def ready_def list_all_length list_ex_iff using len by (auto simp: Let_def)
  show ?thesis
  proof (cases go)
    case True
    obtain storage ed' c' s' where f: "flushed ec (hd (allTimestamps ed)) ed (storage, ed', c')"
        "output_event (moduleConfigs ec) ei (storage, ed', c') s = Inr s'" "tryFlush (int ei) s = Inr (s', True)"
      unfolding ec_def ed_def ok(2) [symmetric]
      by (rule tryFlush_ready [OF ok(1)]) (use assms(2) ok(2) True go in \<open>simp_all add: ec_def ed_def\<close>)
    have "perEventData s' ! ei = ed'" using output_event_perEventData [OF f(2)] len(2) by simp
    moreover have "allTimestamps ed' = dropWhile (\<lambda>ts. ts = hd (allTimestamps ed)) (allTimestamps ed)"
      using f(1) by (simp add: flushed_def Let_def)
    ultimately show ?thesis using f(3) True tryFlush_shrinks [OF f(3)] by (simp add: ed_def)
  next
    case False
    then show ?thesis using tryFlush_not_ready [OF ok(1), of "int ei"] go ok(2) by (simp add: ec_def ed_def)
  qed
qed

theorem tryFlush_progress_witness:
  "\<exists>s s'. reach demo_cfg s \<and> tryFlush 0 s = Inr (s', True) \<and> length (allTimestamps (perEventData s' ! 0)) < 5"
proof -
  obtain s where s: "demo_recorded = Inr s" "reach demo_cfg s" "map allTimestamps (perEventData s) = [[100, 100, 200, 300, 300]]"
    by (rule demo_recorded_reach)
  have "case demo_recorded of Inl e \<Rightarrow> False | Inr s \<Rightarrow> (case tryFlush 0 s of Inl e \<Rightarrow> False | Inr (s', b) \<Rightarrow> b)" by code_simp
  then obtain s' where s': "tryFlush 0 s = Inr (s', True)" by (auto simp: s(1) split: sum.splits)
  have "0 < length (eventConfigs demo_cfg)" by (simp add: demo_cfg_def)
  from tryFlush_progress [OF s(2) this] s' have "length (allTimestamps (perEventData s' ! 0)) < length (allTimestamps (perEventData s ! 0))"
    by (auto split: if_splits)
  moreover have "allTimestamps (perEventData s ! 0) = [100, 100, 200, 300, 300]" using s(3) by (cases "perEventData s") auto
  ultimately show ?thesis using s(2) s' by (intro exI [of _ s] exI [of _ s']) simp
qed

lemma flush_queue_split:
  assumes "flush_queue refTs mc q = (out, rest)"
  shows "\<exists>old. q = old @ (case out of None \<Rightarrow> [] | Some m \<Rightarrow> [m]) @ rest \<and>
    (\<forall>m \<in> set old. stored_match refTs mc m = too_old) \<and>
    (\<forall>m. out = Some m \<longrightarrow> stored_match refTs mc m = in_window) \<and>
    (out = None \<and> rest \<noteq> [] \<longrightarrow> stored_match refTs mc (hd rest) = too_new)"
proof (cases "dropWhile (\<lambda>m. stored_match refTs mc m = too_old) q")
  case Nil
  then have "out = None" "rest = []" using assms by (simp_all add: flush_queue_def del: dropWhile_eq_Nil_conv)
  then show ?thesis using Nil by (intro exI [of _ q]) (simp add: dropWhile_eq_Nil_conv)
next
  case (Cons m ms)
  let ?old = "takeWhile (\<lambda>m. stored_match refTs mc m = too_old) q"
  have q: "q = ?old @ m # ms" using Cons takeWhile_dropWhile_id [of "\<lambda>m. stored_match refTs mc m = too_old" q] by simp
  have old: "\<forall>m \<in> set ?old. stored_match refTs mc m = too_old" by (auto dest: set_takeWhileD)
  have "stored_match refTs mc m \<noteq> too_old" using Cons unfolding dropWhile_eq_Cons_conv by blast
  then have m: "stored_match refTs mc m = in_window \<or> stored_match refTs mc m = too_new"
    by (cases "stored_match refTs mc m") simp_all
  have r: "(out, rest) = (if stored_match refTs mc m = in_window then (Some m, ms) else (None, m # ms))"
    using assms Cons by (simp add: flush_queue_def)
  show ?thesis
  proof (intro exI [of _ ?old] conjI old)
    show "q = ?old @ (case out of None \<Rightarrow> [] | Some m \<Rightarrow> [m]) @ rest"
      by (subst q) (use r in \<open>auto split: if_splits\<close>)
  qed (use r m in \<open>auto split: if_splits\<close>)
qed

lemma old_outputs_empty:
  assumes "j < n" "resize n (Some ModuleData_init) (invalidate outs) ! j = Some md"
  shows "md_data md = []"
proof (cases "j < length outs")
  case True
  then show ?thesis
    using assms by (auto simp: resize_def nth_append invalidate_def split: option.splits if_splits)
next
  case False
  then show ?thesis using assms by (auto simp: resize_def nth_append ModuleData_init_def)
qed



text \<open>
  C8. A forced flush empties all queues and outputs all their data in order: for each
  event as many output events as its longest queue has entries, the \<open>k\<close>-th one
  holding the \<open>k\<close>-th entry of every queue that has one and an empty entry for
  the others. The result is the number of these output events.
\<close>

theorem forced_flush_outputs_all:
  assumes "reach cfg s"
  shows "\<exists>s'. eb_flush True s = Inr (s', of_nat (\<Sum>ed\<leftarrow>perEventData s. longest (moduleDatas ed))) \<and>
    (\<forall>ei < length (eventConfigs cfg). \<forall>q \<in> set (moduleDatas (perEventData s' ! ei)). q = []) \<and>
    calls s' = calls s @ concat (map (\<lambda>ei. map (\<lambda>k. EventDataOut (outputCrateIndex cfg) ei
        (map (\<lambda>q. if k < length q then Some (to_module_data (q ! k)) else Some ModuleData_init) (moduleDatas (perEventData s ! ei))))
      [0..<longest (moduleDatas (perEventData s ! ei))]) [0..<length (eventConfigs cfg)])"
proof -
  have ok: "builder_ok s" "eb_cfg s = cfg" using reach_ok [OF assms] by simp_all
  have len: "length (perEventData s) = length (eventConfigs cfg)" using ok by (simp add: builder_ok_def)
  obtain s' ks css where f: "eb_flush True s = Inr (s', of_nat (sum_list ks))"
      and after: "forced_pass.after s (length (perEventData s)) (s', of_nat (sum_list ks)) ks css"
    by (rule eb_flush_True [OF ok(1)])
  have "ks = map (\<lambda>ed. longest (moduleDatas ed)) (perEventData s)"
    using after by (intro nth_equalityI) (simp_all add: forced_pass.after_def)
  moreover have "css = map (\<lambda>ei. forced_calls cfg ei (perEventData s ! ei)) [0..<length (eventConfigs cfg)]"
    using after len ok(2) by (intro nth_equalityI) (simp_all add: forced_pass.after_def)
  moreover have "front_output (drop k q) = (if k < length q then Some (to_module_data (q ! k)) else Some ModuleData_init)" for k q
    by (cases "drop k q") (auto simp: front_output_def hd_drop_conv_nth [symmetric])
  moreover have "calls s' = calls s @ concat css"
      "\<forall>ei < length (eventConfigs cfg). moduleDatas (perEventData s' ! ei) = replicate (length (moduleConfigs (eventConfigs cfg ! ei))) []"
    using after len ok(2) by (simp_all add: forced_pass.after_def)
  ultimately show ?thesis using f by (simp add: forced_event_def)
qed

theorem forced_flush_outputs_all_witness:
  "\<exists>s s'. reach demo_cfg s \<and> eb_flush True s = Inr (s', 3) \<and> (\<forall>q \<in> set (moduleDatas (perEventData s' ! 0)). q = [])"
proof -
  obtain s where s: "reach demo_cfg s"
      "map (map (map ms_data)) (map moduleDatas (perEventData s)) = [[[[100], [200], [300]], [[100], [], [300]]]]"
    by (rule demo_recorded_reach)
  have "\<exists>ed. perEventData s = [ed] \<and> (\<exists>a b. moduleDatas ed = [a, b] \<and> length a = 3 \<and> length b = 3)"
    using s(2) by auto
  then have "(\<Sum>ed\<leftarrow>perEventData s. longest (moduleDatas ed)) = 3" by (auto simp: longest_def)
  then show ?thesis using forced_flush_outputs_all [OF s(1)] s(1) by (auto simp: demo_cfg_def)
qed




text \<open>
  C12. The difference of two 30-bit timestamps is at most half of the timestamp range and
  changes its sign when the stamps are exchanged. It is exact as long as the
  timestamp does not wrap around; a stamp that lies \<open>d\<close> after another one across
  the wrap-around is taken to be only \<open>d - 1\<close> away, since the code adds the
  largest timestamp instead of the size of the range.
\<close>

theorem timestamp_difference_wraps:
  assumes "0 \<le> a" "a < 2 ^ 30" "0 \<le> b" "b < (2 :: int) ^ 30" "0 < d" "d \<le> 0x1FFFFFFF"
  shows "\<bar>timestamp_difference a b\<bar> \<le> 0x1FFFFFFF \<and> timestamp_difference b a = - timestamp_difference a b \<and>
    timestamp_difference ((b + d) mod 2 ^ 30) b = (if b + d < 2 ^ 30 then d else d - 1)"
  using timestamp_difference_bounds [OF assms(1-4)] timestamp_difference_shift [OF assms(3-6)] by simp

theorem timestamp_difference_wraps_witness: "timestamp_difference 0 0x3FFFFFFF = 0"
  using timestamp_difference_wraps [of 0 "0x3FFFFFFF" 1] by simp

end
