(* ===== verification/Trigger_IO.thy ===== *)
theory Trigger_IO
  imports Mvlc_Text
begin

text \<open>
  The trigger I/O configuration of \<open>mvlc_trigger_io_port.h\<close> and
  \<open>mvlc_trigger_io_port.cc\<close>: the units of the four levels with their default
  values, the names of the units, the tables of dynamic connections with the
  functions that resolve them, and the RAM image of a lookup table. Arrays of
  fixed size are lists whose length is stated by \<open>wf_TriggerIO\<close>; \<open>std::bitset\<close> is
  a word of that many bits. Enumerations with a fixed underlying type can hold any
  value of it and are modelled by their value.
\<close>

section \<open>Units\<close>

record Timer =
  tm_range :: u16
  tm_delay_ns :: u16
  tm_period :: u16
  tm_softActivate :: bool

definition Timer_init :: Timer where
  "Timer_init = \<lparr>tm_range = 0, tm_delay_ns = 0, tm_period = 0, tm_softActivate = False\<rparr>"

text \<open>\<open>Direction\<close> is only ever set from an enumerator or from a 16-bit register.\<close>

record IO =
  io_delay :: u16
  io_width :: u16
  io_holdoff :: u16
  io_invert :: bool
  io_direction :: u16
  io_activate :: bool

definition IO_init :: IO where
  "IO_init = \<lparr>io_delay = 0, io_width = 0, io_holdoff = 0, io_invert = False, io_direction = 0,
     io_activate = False\<rparr>"

record StackBusy =
  sb_stackIndex :: u16

abbreviation (input) InputBits :: nat where "InputBits \<equiv> 6"
abbreviation (input) OutputBits :: nat where "OutputBits \<equiv> 3"
abbreviation (input) StrobeGGDefaultWidth :: u16 where "StrobeGGDefaultWidth \<equiv> 8"
abbreviation (input) StrobeGGInput :: nat where "StrobeGGInput \<equiv> InputBits"
abbreviation (input) StrobeGGIOOffset :: u16 where "StrobeGGIOOffset \<equiv> 0x32"

record LUT =
  lutContents :: "u64 list"
  strobedOutputs :: "3 word"
  strobeGG :: IO
  defaultOutputNames :: "string list"
  outputNames :: "string list"

definition LUT_init :: LUT where
  "LUT_init = \<lparr>lutContents = replicate OutputBits 0, strobedOutputs = 0,
     strobeGG = IO_init\<lparr>io_width := StrobeGGDefaultWidth\<rparr>,
     defaultOutputNames = replicate OutputBits [], outputNames = replicate OutputBits []\<rparr>"

record StackStart =
  ss_activate :: bool
  ss_stackIndex :: u8
  ss_delay_ns :: u16

record MasterTrigger =
  mt_activate :: bool

record Counter =
  ct_clearOnLatch :: bool
  ct_softActivate :: bool

record IRQ_Util =
  irqIndex :: u8

record SyncInTrigger =
  gateGenerator :: IO
  triggerIndex :: u8

record TriggerResource =
  tr_type :: u8
  irqUtil :: IRQ_Util
  syncOutTrigger :: SyncInTrigger

definition TriggerResource_init :: TriggerResource where
  "TriggerResource_init = \<lparr>tr_type = 0, irqUtil = \<lparr>irqIndex = 0\<rparr>,
     syncOutTrigger = \<lparr>gateGenerator = IO_init, triggerIndex = 0\<rparr>\<rparr>"

text \<open>Level, unit and subunit.\<close>

type_synonym UnitAddress = "nat \<times> nat \<times> nat"

record UnitConnection =
  isDynamic :: bool
  isAvailable :: bool
  uc_address :: UnitAddress

definition UnitConnection_at :: "nat \<Rightarrow> nat \<Rightarrow> nat \<Rightarrow> UnitConnection" where
  "UnitConnection_at lvl un sub = \<lparr>isDynamic = False, isAvailable = True, uc_address = (lvl, un, sub)\<rparr>"

definition makeDynamic :: UnitConnection where
  "makeDynamic = (UnitConnection_at 0 0 0)\<lparr>isDynamic := True\<rparr>"

section \<open>Level 0\<close>

abbreviation (input) TimerCount :: nat where "TimerCount \<equiv> 4"
abbreviation (input) NIM_IO_Count :: nat where "NIM_IO_Count \<equiv> 14"
abbreviation (input) ECL_OUT_Count :: nat where "ECL_OUT_Count \<equiv> 3"
abbreviation (input) TriggerResourceCount :: nat where "TriggerResourceCount \<equiv> 8"
abbreviation (input) TriggerResourceOffset :: nat where "TriggerResourceOffset \<equiv> 4"
abbreviation (input) StackBusyCount :: nat where "StackBusyCount \<equiv> 2"
abbreviation (input) StackBusyOffset :: nat where "StackBusyOffset \<equiv> 12"
abbreviation (input) SysClockOffset :: nat where "SysClockOffset \<equiv> 14"
abbreviation (input) DAQStartOffset :: nat where "DAQStartOffset \<equiv> 15"
abbreviation (input) NIM_IO_Offset :: nat where "NIM_IO_Offset \<equiv> 16"
abbreviation (input) IRQ_Inputs_Count :: nat where "IRQ_Inputs_Count \<equiv> 6"
abbreviation (input) IRQ_Inputs_Offset :: nat where "IRQ_Inputs_Offset \<equiv> 33"

definition UnitNotAvailable :: string where
  "UnitNotAvailable = ''N/A''"

definition Level0_DefaultUnitNames :: "string list" where
  "Level0_DefaultUnitNames =
     [''timer0'', ''timer1'', ''timer2'', ''timer3'',
      ''trigger_resource0'', ''trigger_resource1'', ''trigger_resource2'', ''trigger_resource3'',
      ''trigger_resource4'', ''trigger_resource5'', ''trigger_resource6'', ''trigger_resource7'',
      ''stack_busy0'', ''stack_busy1'', ''sysclk'', ''daq_start'',
      ''NIM0'', ''NIM1'', ''NIM2'', ''NIM3'', ''NIM4'', ''NIM5'', ''NIM6'', ''NIM7'',
      ''NIM8'', ''NIM9'', ''NIM10'', ''NIM11'', ''NIM12'', ''NIM13'',
      ''<unused>'', ''<unused>'', ''<unused>'',
      ''IRQ1'', ''IRQ2'', ''IRQ3'', ''IRQ4'', ''IRQ5'', ''IRQ6'']"

record Level0 =
  timers :: "Timer list"
  triggerResources :: "TriggerResource list"
  stackBusy :: "StackBusy list"
  ioNIM :: "IO list"
  ioIRQ :: "IO list"
  l0_unitNames :: "string list"

definition Level0_init :: Level0 where
  "Level0_init =
     \<lparr>timers = replicate TimerCount Timer_init,
      triggerResources = replicate TriggerResourceCount TriggerResource_init,
      stackBusy = replicate StackBusyCount \<lparr>sb_stackIndex = 0\<rparr>,
      ioNIM = replicate NIM_IO_Count IO_init, ioIRQ = replicate IRQ_Inputs_Count IO_init,
      l0_unitNames = Level0_DefaultUnitNames\<rparr>"

section \<open>Level 1\<close>

abbreviation (input) LUT_DynamicInputCount :: nat where "LUT_DynamicInputCount \<equiv> 3"
abbreviation (input) Level1_LUTCount :: nat where "Level1_LUTCount \<equiv> 7"

text \<open>The inputs of a lookup table that are wired to six given pins.\<close>

definition wired :: "UnitAddress list \<Rightarrow> UnitConnection list" where
  "wired as = map (\<lambda>(lvl, un, sub). UnitConnection_at lvl un sub) as"

definition Level1_StaticConnections :: "UnitConnection list list" where
  "Level1_StaticConnections =
     [wired [(0, 16, 0), (0, 17, 0), (0, 18, 0), (0, 19, 0), (0, 20, 0), (0, 21, 0)],
      wired [(0, 20, 0), (0, 21, 0), (0, 22, 0), (0, 23, 0), (0, 24, 0), (0, 25, 0)],
      [makeDynamic, makeDynamic, makeDynamic] @ wired [(0, 27, 0), (0, 28, 0), (0, 29, 0)],
      wired [(1, 0, 0), (1, 0, 1), (1, 0, 2), (1, 1, 0), (1, 1, 1), (1, 1, 2)],
      wired [(1, 1, 0), (1, 1, 1), (1, 1, 2), (1, 2, 0), (1, 2, 1), (1, 2, 2)],
      wired [(0, 33, 0), (0, 34, 0), (0, 35, 0), (0, 36, 0), (0, 37, 0), (0, 38, 0)],
      wired [(1, 2, 0), (1, 2, 1), (1, 2, 2), (1, 5, 0), (1, 5, 1), (1, 5, 2)]]"

definition LUT2DynamicInputChoices :: "UnitAddress list list" where
  "LUT2DynamicInputChoices =
     [[(0, 24, 0), (0, 33, 0)], [(0, 25, 0), (0, 34, 0)], [(0, 26, 0), (0, 35, 0)]]"

record Level1 =
  l1_luts :: "LUT list"
  lut2Connections :: "u32 list"

text \<open>\<open>fmt::format("L1.LUT{}.OUT{}", unit, output)\<close>, also used for level 2.\<close>

definition lut_output_name :: "string \<Rightarrow> nat \<Rightarrow> nat \<Rightarrow> string" where
  "lut_output_name lvl un out = lvl @ ''.LUT'' @ fmt_dec un @ ''.OUT'' @ fmt_dec out"

definition named_lut :: "string \<Rightarrow> nat \<Rightarrow> LUT" where
  "named_lut lvl un =
     (let names = map (lut_output_name lvl un) [0..<OutputBits]
      in LUT_init\<lparr>defaultOutputNames := names, outputNames := names\<rparr>)"

definition Level1_init :: Level1 where
  "Level1_init =
     \<lparr>l1_luts = map (named_lut ''L1'') [0..<Level1_LUTCount],
      lut2Connections = replicate LUT_DynamicInputCount 0\<rparr>"

section \<open>Level 2\<close>

abbreviation (input) Level2_LUTCount :: nat where "Level2_LUTCount \<equiv> 3"

record LUTDynamicInputChoices =
  lutChoices :: "UnitAddress list list"
  strobeChoices :: "UnitAddress list"

definition make_l2_input_choices :: "nat \<Rightarrow> LUTDynamicInputChoices" where
  "make_l2_input_choices un =
     (let common = map (\<lambda>i. (0, i, 0)) [0..<SysClockOffset];
          choices = map (\<lambda>i. common @
            (if un = 0 then [(1, 4, i)] else if un = 1 then [(1, 3, i)]
             else if un = 2 then [(1, 4, i)] else []) @
            [(0, DAQStartOffset, 0)] @ [(1, 6, 0), (1, 6, 1), (1, 6, 2)]) [0..<LUT_DynamicInputCount];
          strobes = map (\<lambda>i. (0, i, 0)) [0..<SysClockOffset + 1] @
            map (\<lambda>i. (1, 3, i)) [0..<3] @ map (\<lambda>i. (1, 4, i)) [0..<3] @
            map (\<lambda>i. (2, 0, i)) [0..<3] @ map (\<lambda>i. (2, 1, i)) [0..<3] @
            map (\<lambda>i. (1, 6, i)) [0..<3]
      in \<lparr>lutChoices = choices, strobeChoices = strobes\<rparr>)"

definition Level2_DynamicInputChoices :: "LUTDynamicInputChoices list" where
  "Level2_DynamicInputChoices = map make_l2_input_choices [0..<Level2_LUTCount]"

definition Level2_StaticConnections :: "UnitConnection list list" where
  "Level2_StaticConnections =
     [[makeDynamic, makeDynamic, makeDynamic] @ wired [(1, 3, 0), (1, 3, 1), (1, 3, 2)],
      [makeDynamic, makeDynamic, makeDynamic] @ wired [(1, 4, 0), (1, 4, 1), (1, 4, 2)],
      [makeDynamic, makeDynamic, makeDynamic] @ wired [(1, 6, 0), (1, 6, 1), (1, 6, 2)]]"

record Level2 =
  l2_luts :: "LUT list"
  lutConnections :: "u32 list list"
  strobeConnections :: "u32 list"

definition Level2_init :: Level2 where
  "Level2_init =
     \<lparr>l2_luts = map (named_lut ''L2'') [0..<Level2_LUTCount],
      lutConnections = replicate Level2_LUTCount (replicate LUT_DynamicInputCount 0),
      strobeConnections = replicate Level2_LUTCount 0\<rparr>"

section \<open>Level 3\<close>

abbreviation (input) StackStartCount :: nat where "StackStartCount \<equiv> 4"
abbreviation (input) MasterTriggersCount :: nat where "MasterTriggersCount \<equiv> 4"
abbreviation (input) MasterTriggersOffset :: nat where "MasterTriggersOffset \<equiv> 4"
abbreviation (input) CountersCount :: nat where "CountersCount \<equiv> 8"
abbreviation (input) CountersOffset :: nat where "CountersOffset \<equiv> 8"
abbreviation (input) NIM_IO_Unit_Offset :: nat where "NIM_IO_Unit_Offset \<equiv> 16"
abbreviation (input) ECL_Unit_Offset :: nat where "ECL_Unit_Offset \<equiv> 30"
abbreviation (input) Level3_UnitCount :: nat where "Level3_UnitCount \<equiv> 33"
abbreviation (input) CounterInputNotConnected :: u32 where "CounterInputNotConnected \<equiv> 21"

definition Level3_DefaultUnitNames :: "string list" where
  "Level3_DefaultUnitNames =
     [''StackStart0'', ''StackStart1'', ''StackStart2'', ''StackStart3'',
      ''MasterTrigger0'', ''MasterTrigger1'', ''MasterTrigger2'', ''MasterTrigger3'',
      ''Counter0+Timestamper'', ''Counter1'', ''Counter2'', ''Counter3'',
      ''Counter4'', ''Counter5'', ''Counter6'', ''Counter7'',
      ''NIM0'', ''NIM1'', ''NIM2'', ''NIM3'', ''NIM4'', ''NIM5'', ''NIM6'', ''NIM7'',
      ''NIM8'', ''NIM9'', ''NIM10'', ''NIM11'', ''NIM12'', ''NIM13'',
      ''LVDS0'', ''LVDS1'', ''LVDS2'', ''<not connected>'']"

definition make_l3_input_choices :: "UnitAddress list list list" where
  "make_l3_input_choices =
     (let level2LUTs01 = [(2, 0, 0), (2, 0, 1), (2, 0, 2), (2, 1, 0), (2, 1, 1), (2, 1, 2)];
          level2LUT2 = [(2, 2, 0), (2, 2, 1), (2, 2, 2)];
          triggered = map (\<lambda>un. (0, un, 0)) [0..<14] @ level2LUTs01 @ [(3, Level3_UnitCount + 1, 0)] @
            level2LUT2;
          counted = map (\<lambda>un. (0, un, 0)) [0..<SysClockOffset] @ level2LUTs01 @
            [(0, SysClockOffset, 0)] @ [(3, Level3_UnitCount, 0)] @ level2LUT2
      in replicate StackStartCount [triggered] @ replicate MasterTriggersCount [triggered] @
         replicate CountersCount [counted, counted] @
         replicate (NIM_IO_Count + ECL_OUT_Count) [level2LUTs01 @ level2LUT2])"

definition DynamicInputChoiceLists :: "UnitAddress list list list" where
  "DynamicInputChoiceLists = make_l3_input_choices"

record Level3 =
  stackStart :: "StackStart list"
  masterTriggers :: "MasterTrigger list"
  counters :: "Counter list"
  l3_ioNIM :: "IO list"
  ioECL :: "IO list"
  l3_unitNames :: "string list"
  connections :: "u32 list list"

definition Level3_init :: Level3 where
  "Level3_init =
     \<lparr>stackStart = replicate StackStartCount \<lparr>ss_activate = False, ss_stackIndex = 0, ss_delay_ns = 0\<rparr>,
      masterTriggers = replicate MasterTriggersCount \<lparr>mt_activate = False\<rparr>,
      counters = replicate CountersCount \<lparr>ct_clearOnLatch = False, ct_softActivate = False\<rparr>,
      l3_ioNIM = replicate NIM_IO_Count IO_init, ioECL = replicate ECL_OUT_Count IO_init,
      l3_unitNames = Level3_DefaultUnitNames,
      connections = map (\<lambda>un. if CountersOffset \<le> un \<and> un < CountersOffset + CountersCount
          then [0, CounterInputNotConnected] else [0, 0]) [0..<Level3_UnitCount]\<rparr>"

record TriggerIO =
  l0 :: Level0
  l1 :: Level1
  l2 :: Level2
  l3 :: Level3

definition TriggerIO_init :: TriggerIO where
  "TriggerIO_init = \<lparr>l0 = Level0_init, l1 = Level1_init, l2 = Level2_init, l3 = Level3_init\<rparr>"

text \<open>The sizes of the arrays, which are part of their C++ types.\<close>

definition wf_LUT :: "LUT \<Rightarrow> bool" where
  "wf_LUT lut \<longleftrightarrow> length (lutContents lut) = OutputBits \<and>
     length (defaultOutputNames lut) = OutputBits \<and> length (outputNames lut) = OutputBits"

definition wf_TriggerIO :: "TriggerIO \<Rightarrow> bool" where
  "wf_TriggerIO cfg \<longleftrightarrow>
     length (timers (l0 cfg)) = TimerCount \<and>
     length (triggerResources (l0 cfg)) = TriggerResourceCount \<and>
     length (stackBusy (l0 cfg)) = StackBusyCount \<and>
     length (ioNIM (l0 cfg)) = NIM_IO_Count \<and> length (ioIRQ (l0 cfg)) = IRQ_Inputs_Count \<and>
     length (l1_luts (l1 cfg)) = Level1_LUTCount \<and> list_all wf_LUT (l1_luts (l1 cfg)) \<and>
     length (lut2Connections (l1 cfg)) = LUT_DynamicInputCount \<and>
     length (l2_luts (l2 cfg)) = Level2_LUTCount \<and> list_all wf_LUT (l2_luts (l2 cfg)) \<and>
     length (lutConnections (l2 cfg)) = Level2_LUTCount \<and>
     list_all (\<lambda>cs. length cs = LUT_DynamicInputCount) (lutConnections (l2 cfg)) \<and>
     length (strobeConnections (l2 cfg)) = Level2_LUTCount \<and>
     length (stackStart (l3 cfg)) = StackStartCount \<and>
     length (masterTriggers (l3 cfg)) = MasterTriggersCount \<and>
     length (counters (l3 cfg)) = CountersCount \<and>
     length (l3_ioNIM (l3 cfg)) = NIM_IO_Count \<and> length (ioECL (l3 cfg)) = ECL_OUT_Count \<and>
     length (connections (l3 cfg)) = Level3_UnitCount"

section \<open>Names\<close>

definition index_ub :: "'a list \<Rightarrow> nat \<Rightarrow> 'a result" where
  "index_ub xs i = (if i < length xs then Inr (xs ! i) else Inl UndefinedBehaviour)"

text \<open>
  The \<open>try\<close> block of \<open>lookup_name\<close> has no effect: \<open>operator[]\<close> does not throw but
  reads past the end of the container.
\<close>

definition lookup_name :: "TriggerIO \<Rightarrow> UnitAddress \<Rightarrow> string result" where
  "lookup_name cfg addr =
     (case addr of (lvl, un, sub) \<Rightarrow>
        if lvl = 0 then index_ub (l0_unitNames (l0 cfg)) un
        else if lvl = 1 then result_bind (index_ub (l1_luts (l1 cfg)) un) (\<lambda>lut. index_ub (outputNames lut) sub)
        else if lvl = 2 then result_bind (index_ub (l2_luts (l2 cfg)) un) (\<lambda>lut. index_ub (outputNames lut) sub)
        else if lvl = 3 then index_ub (l3_unitNames (l3 cfg)) un
        else Inr [])"

definition safe_at :: "'a list \<Rightarrow> nat \<Rightarrow> 'a \<Rightarrow> 'a" where
  "safe_at c i default_value = (if i < length c then c ! i else default_value)"

definition lookup_default_name :: "TriggerIO \<Rightarrow> UnitAddress \<Rightarrow> string" where
  "lookup_default_name cfg addr =
     (case addr of (lvl, un, sub) \<Rightarrow>
        if lvl = 0 then (if un < length Level0_DefaultUnitNames then Level0_DefaultUnitNames ! un else [])
        else if lvl = 1 then
          (if un < length (l1_luts (l1 cfg))
           then let names = defaultOutputNames (l1_luts (l1 cfg) ! un)
                in if sub < length names then names ! sub else []
           else [])
        else if lvl = 2 then
          (if un < length (l2_luts (l2 cfg))
           then let names = defaultOutputNames (l2_luts (l2 cfg) ! un)
                in if sub < length names then names ! sub else []
           else [])
        else if lvl = 3 then (if un < length Level3_DefaultUnitNames then Level3_DefaultUnitNames ! un else [])
        else [])"

definition reset_lut_names :: "LUT \<Rightarrow> LUT" where
  "reset_lut_names lut = lut\<lparr>outputNames := defaultOutputNames lut\<rparr>"

definition reset_names :: "TriggerIO \<Rightarrow> TriggerIO" where
  "reset_names cfg =
     cfg\<lparr>l0 := (l0 cfg)\<lparr>l0_unitNames := Level0_DefaultUnitNames\<rparr>,
         l1 := (l1 cfg)\<lparr>l1_luts := map reset_lut_names (l1_luts (l1 cfg))\<rparr>,
         l2 := (l2 cfg)\<lparr>l2_luts := map reset_lut_names (l2_luts (l2 cfg))\<rparr>,
         l3 := (l3 cfg)\<lparr>l3_unitNames := Level3_DefaultUnitNames\<rparr>\<rparr>"

section \<open>Connections\<close>

text \<open>Level 0 shares the branch of level 1.\<close>

definition get_connection_value :: "TriggerIO \<Rightarrow> UnitAddress \<Rightarrow> u32" where
  "get_connection_value cfg addr =
     (case addr of (lvl, un, sub) \<Rightarrow>
        if lvl = 0 \<or> lvl = 1 then (if un = 2 then safe_at (lut2Connections (l1 cfg)) sub 0 else 0)
        else if lvl = 2 then
          (if sub = InputBits then safe_at (strobeConnections (l2 cfg)) un 0
           else safe_at (safe_at (lutConnections (l2 cfg)) un [0, 0, 0]) sub 0)
        else if lvl = 3 then safe_at (safe_at (connections (l3 cfg)) un []) sub 0
        else 0)"

definition at_result :: "'a list \<Rightarrow> nat \<Rightarrow> 'a result" where
  "at_result xs i = (if i < length xs then Inr (xs ! i) else Inl OutOfRange)"

definition get_connection_unit_address :: "TriggerIO \<Rightarrow> UnitAddress \<Rightarrow> UnitAddress result" where
  "get_connection_unit_address cfg addr =
     (let conValue = unat (get_connection_value cfg addr); none = (0, 0, 0);
          no_choices = \<lparr>lutChoices = [], strobeChoices = []\<rparr>
      in case addr of (lvl, un, sub) \<Rightarrow>
        if lvl = 0 \<or> lvl = 1 then
          (if un = 2 \<and> sub < LUT_DynamicInputCount
           then result_map (\<lambda>choices. safe_at choices conValue none) (at_result LUT2DynamicInputChoices sub)
           else Inr none)
        else if lvl = 2 then
          (let tmp = safe_at Level2_DynamicInputChoices un no_choices
           in if sub = StrobeGGInput then Inr (safe_at (strobeChoices tmp) conValue none)
              else if sub < length (lutChoices tmp) then Inr (safe_at (lutChoices tmp ! sub) conValue none)
              else if sub < InputBits \<and> un < length Level2_StaticConnections
              then result_bind (at_result Level2_StaticConnections un) (\<lambda>cs.
                   result_map uc_address (at_result cs sub))
              else Inr none)
        else if lvl = 3 then
          result_bind (at_result DynamicInputChoiceLists un) (\<lambda>inputs.
          result_bind (at_result inputs sub) (\<lambda>choices. at_result choices conValue))
        else Inr none)"

text \<open>An index out of range is caught and means that there are no possibilities.\<close>

definition get_connection_possibilities :: "UnitAddress \<Rightarrow> UnitAddress list" where
  "get_connection_possibilities addr =
     (case addr of (lvl, un, sub) \<Rightarrow>
        if lvl = 1 then (if un = 2 then safe_at LUT2DynamicInputChoices sub [] else [])
        else if lvl = 2 then
          (if un < length Level2_DynamicInputChoices
           then let choices = Level2_DynamicInputChoices ! un
                in if sub < InputBits then safe_at (lutChoices choices) sub []
                   else if sub = StrobeGGInput then strobeChoices choices else []
           else [])
        else if lvl = 3 then safe_at (safe_at DynamicInputChoiceLists un []) sub []
        else [])"

definition timer_range_from_string :: "string \<Rightarrow> u16" where
  "timer_range_from_string str =
     (let str = str_tolower str
      in if str = ''ns'' then 0
         else if str = ''us'' \<or> str = CHR 0xC2 # CHR 0xB5 # ''s'' then 1
         else if str = ''ms'' then 2 else if str = ''s'' then 3 else 0)"

section \<open>Visiting all units\<close>

datatype AnyUnit =
    TimerUnit Timer
  | IOUnit IO
  | StackBusyUnit StackBusy
  | LUTUnit LUT
  | StackStartUnit StackStart
  | MasterTriggerUnit MasterTrigger
  | CounterUnit Counter
  | TriggerResourceUnit TriggerResource

definition visit_units :: "('a \<Rightarrow> AnyUnit) \<Rightarrow> nat \<Rightarrow> nat \<Rightarrow> 'a list \<Rightarrow> (AnyUnit \<times> UnitAddress) list" where
  "visit_units mk lvl offset xs = map (\<lambda>(i, x). (mk x, (lvl, i, 0))) (enumerate offset xs)"

text \<open>The calls of a visitor in their order.\<close>

definition visit :: "TriggerIO \<Rightarrow> (AnyUnit \<times> UnitAddress) list" where
  "visit cfg =
     visit_units TimerUnit 0 0 (timers (l0 cfg)) @
     visit_units TriggerResourceUnit 0 TriggerResourceOffset (triggerResources (l0 cfg)) @
     visit_units StackBusyUnit 0 StackBusyOffset (stackBusy (l0 cfg)) @
     visit_units IOUnit 0 NIM_IO_Offset (ioNIM (l0 cfg)) @
     visit_units IOUnit 0 IRQ_Inputs_Offset (ioIRQ (l0 cfg)) @
     visit_units LUTUnit 1 0 (l1_luts (l1 cfg)) @
     visit_units LUTUnit 2 0 (l2_luts (l2 cfg)) @
     visit_units StackStartUnit 3 0 (stackStart (l3 cfg)) @
     visit_units MasterTriggerUnit 3 MasterTriggersOffset (masterTriggers (l3 cfg)) @
     visit_units CounterUnit 3 CountersOffset (counters (l3 cfg)) @
     visit_units IOUnit 3 NIM_IO_Unit_Offset (l3_ioNIM (l3 cfg)) @
     visit_units IOUnit 3 ECL_Unit_Offset (ioECL (l3 cfg))"

section \<open>The RAM of a lookup table\<close>

text \<open>Four 4-bit cells per 16-bit row, 16 rows.\<close>

type_synonym LUT_RAM = "u16 list"

definition lut_lookup :: "LUT_RAM \<Rightarrow> u8 \<Rightarrow> u8 result" where
  "lut_lookup ram address =
     (if 63 < address then Inl OutOfRange
      else let cell = drop_bit 2 address; nibble = address AND 3; shift = nibble * 4
        in Inr (ucast (drop_bit (unat shift) (ram ! unat cell) AND 0xF)))"

definition lut_set :: "LUT_RAM \<Rightarrow> u8 \<Rightarrow> u8 \<Rightarrow> LUT_RAM result" where
  "lut_set ram address v =
     (if 63 < address then Inl OutOfRange
      else if 7 < v then Inl OutOfRange
      else let cell = drop_bit 2 address; nibble = address AND 3; shift = nibble * 4;
               clearNibbleMask = NOT (push_bit (unat shift) 0xF);
               row = ram ! unat cell AND clearNibbleMask
        in Inr (ram[unat cell := row OR push_bit (unat shift) (ucast (v AND 0xF))]))"

section \<open>Memories\<close>

text \<open>
  What the serializer relies on when it fills the RAM cell by cell: setting a
  valid address to a valid value succeeds, is read back and leaves the other
  addresses alone. Filling all addresses in order then stores every value.
\<close>

locale cell_memory =
  fixes lookup :: "'m \<Rightarrow> nat \<Rightarrow> 'v result" and store :: "'m \<Rightarrow> nat \<Rightarrow> 'v \<Rightarrow> 'm result"
    and ok :: "'m \<Rightarrow> bool" and valid :: "'v \<Rightarrow> bool" and addresses :: nat
  assumes store_ok: "ok m \<Longrightarrow> a < addresses \<Longrightarrow> valid v \<Longrightarrow>
      \<exists>m'. store m a v = Inr m' \<and> ok m' \<and> lookup m' a = Inr v \<and>
        (\<forall>b < addresses. b \<noteq> a \<longrightarrow> lookup m' b = lookup m b)"
begin

lemma store_all:
  assumes "ok m" "\<And>a. a < addresses \<Longrightarrow> valid (f a)"
  shows "\<exists>m'. result_foldM (\<lambda>a m. store m a (f a)) [0..<addresses] m = Inr m' \<and> ok m' \<and>
    (\<forall>a < addresses. lookup m' a = Inr (f a))"
proof -
  have "\<exists>m'. result_foldM (\<lambda>a m. store m a (f a)) [0..<addresses] m = Inr m' \<and>
    (ok m' \<and> (\<forall>a < addresses. lookup m' a = (if a < addresses then Inr (f a) else lookup m a)))"
  proof (rule result_foldM_upt_invariant
      [where P = "\<lambda>k m'. ok m' \<and> (\<forall>a < addresses. lookup m' a = (if a < k then Inr (f a) else lookup m a))"])
    show "ok m \<and> (\<forall>a<addresses. lookup m a = (if a < 0 then Inr (f a) else lookup m a))"
      using assms(1) by simp
  next
    fix i s
    assume i: "i < addresses" and s: "ok s \<and> (\<forall>a<addresses. lookup s a = (if a < i then Inr (f a) else lookup m a))"
    from store_ok [OF conjunct1 [OF s] i assms(2) [OF i]]
    show "\<exists>s'. store s i (f i) = Inr s' \<and>
        ok s' \<and> (\<forall>a<addresses. lookup s' a = (if a < Suc i then Inr (f a) else lookup m a))"
      using s by (auto simp: less_Suc_eq)
  qed
  then show ?thesis by auto
qed

end

text \<open>An address below 64 is a row and a position of its four bits in the row.\<close>

lemma lut_address:
  assumes "a < 64"
  shows "\<not> 63 < (word_of_nat a :: u8)" "unat (drop_bit 2 (word_of_nat a :: u8)) = a div 4"
    "unat ((word_of_nat a AND 3) * 4 :: u8) = 4 * (a mod 4)"
proof -
  have a: "unat (word_of_nat a :: u8) = a" using assms by (simp add: unat_of_nat)
  show "\<not> 63 < (word_of_nat a :: u8)" using assms a by (simp add: word_less_nat_alt)
  show "unat (drop_bit 2 (word_of_nat a :: u8)) = a div 4"
    using a by (simp add: drop_bit_eq_div unat_div)
  have m: "unat (word_of_nat a AND 3 :: u8) = a mod 4"
    using a by (simp add: mask_simps(2) unsigned_take_bit_eq take_bit_eq_mod unat_mod)
  have "a mod 4 * 4 < 256" by (rule le_less_trans [of _ "3 * 4"]) simp_all
  then show "unat ((word_of_nat a AND 3) * 4 :: u8) = 4 * (a mod 4)"
    unfolding unat_word_ariths m by simp
qed

lemma nibble_store:
  fixes row :: u16 and v :: u8
  assumes "i < 4" "j < 4"
  shows "drop_bit (4 * j) ((row AND NOT (push_bit (4 * i) 0xF)) OR push_bit (4 * i) (ucast (v AND 0xF))) AND 0xF =
    (if i = j then ucast (v AND 0xF) else drop_bit (4 * j) row AND 0xF)"
proof (rule bit_word_eqI)
  fix n assume "n < LENGTH(16)"
  have F: "(0xF :: u16) = mask 4" "(0xF :: u8) = mask 4" by (simp_all add: mask_eq_exp_minus_1)
  have b: "bit (push_bit k (mask 4 :: u16)) (m + n) \<longleftrightarrow> k \<le> m + n \<and> m + n < 16 \<and> m + n < k + 4" for k m
    by (auto simp: bit_simps)
  have c: "bit (push_bit k (ucast (v AND mask 4) :: u16)) (m + n) \<longleftrightarrow>
      k \<le> m + n \<and> m + n < 16 \<and> m + n < k + 4 \<and> bit v (m + n - k)" for k m
    by (auto simp: bit_simps)
  have d: "bit (ucast (v AND mask 4) :: u16) n \<longleftrightarrow> n < 4 \<and> bit v n"
    by (auto simp: bit_simps)
  have e: "bit (mask 4 :: u16) n \<longleftrightarrow> n < 4"
    by (auto simp: bit_simps)
  consider "i = j" | "i < j" | "j < i" by linarith
  then show "bit (drop_bit (4 * j) ((row AND NOT (push_bit (4 * i) 0xF)) OR push_bit (4 * i) (ucast (v AND 0xF))) AND 0xF) n
    = bit (if i = j then ucast (v AND 0xF) else drop_bit (4 * j) row AND 0xF) n"
  proof cases
    case 1
    then show ?thesis using assms unfolding F by (auto simp: e d bit_drop_bit_eq bit_or_iff bit_and_iff bit_not_iff b c)
  next
    case 2
    then have "4 * i + 4 \<le> 4 * j" by simp
    then show ?thesis using 2 assms unfolding F by (auto simp: e d bit_drop_bit_eq bit_or_iff bit_and_iff bit_not_iff b c)
  next
    case 3
    then have "4 * j + 4 \<le> 4 * i" by simp
    then show ?thesis using 3 assms unfolding F by (auto simp: e d bit_drop_bit_eq bit_or_iff bit_and_iff bit_not_iff b c)
  qed
qed


lemma nibble_value:
  fixes v :: u8
  assumes "v \<le> 7"
  shows "v AND 0xF = v" "ucast (ucast v :: u16) = v"
proof -
  have "unat v \<le> 7" using assms by (simp add: word_le_nat_alt)
  then show "v AND 0xF = v" unfolding and_low_mask by (intro take_bit_word_self) simp
  show "ucast (ucast v :: u16) = v" by (simp add: ucast_up_ucast_id is_up)
qed

definition nibble_update :: "u16 \<Rightarrow> nat \<Rightarrow> u8 \<Rightarrow> u16" where
  "nibble_update row i v = (row AND NOT (push_bit (4 * i) 0xF)) OR push_bit (4 * i) (ucast (v AND 0xF))"

definition nibble :: "u16 \<Rightarrow> nat \<Rightarrow> u8" where
  "nibble row j = ucast (drop_bit (4 * j) row AND 0xF)"

lemma nibble_nibble_update:
  "v \<le> 7 \<Longrightarrow> i < 4 \<Longrightarrow> j < 4 \<Longrightarrow> nibble (nibble_update row i v) j = (if i = j then v else nibble row j)"
  unfolding nibble_def nibble_update_def by (subst nibble_store) (simp_all add: nibble_value)

lemma lut_set_nibble:
  "a < 64 \<Longrightarrow> v \<le> 7 \<Longrightarrow>
   lut_set ram (word_of_nat a) v = Inr (ram[a div 4 := nibble_update (ram ! (a div 4)) (a mod 4) v])"
  unfolding lut_set_def Let_def nibble_update_def lut_address(2,3) using lut_address(1) [of a] by simp

lemma lut_lookup_nibble:
  "a < 64 \<Longrightarrow> lut_lookup ram (word_of_nat a) = Inr (nibble (ram ! (a div 4)) (a mod 4))"
  unfolding lut_lookup_def Let_def nibble_def lut_address(2,3) using lut_address(1) [of a] by simp

lemma lut_lookup_set:
  assumes "length ram = 16" "a < 64" "b < 64" "v \<le> 7"
  shows "\<exists>ram'. lut_set ram (word_of_nat a) v = Inr ram' \<and> length ram' = 16 \<and>
    lut_lookup ram' (word_of_nat b) = (if b = a then Inr v else lut_lookup ram (word_of_nat b))"
proof -
  define A B i j where d: "A = a div 4" "B = b div 4" "i = a mod 4" "j = b mod 4"
  have "A < 16" "i < 4" "j < 4" using assms(2) by (simp_all add: d)
  moreover have "b = a \<longleftrightarrow> B = A \<and> j = i"
    unfolding d using div_mult_mod_eq [of b 4] div_mult_mod_eq [of a 4] by metis
  ultimately show ?thesis
    using assms(1,4)
    by (auto simp: lut_set_nibble [OF assms(2,4)] lut_lookup_nibble [OF assms(3)] nibble_nibble_update
        nth_list_update d [symmetric])
qed

interpretation lut_ram: cell_memory "\<lambda>ram a. lut_lookup ram (word_of_nat a)"
  "\<lambda>ram a v. lut_set ram (word_of_nat a) v" "\<lambda>ram. length ram = 16" "\<lambda>v. v \<le> 7" 64
proof
  fix m :: LUT_RAM and a :: nat and v :: u8
  assume m: "length m = 16" "a < 64" "v \<le> 7"
  from lut_lookup_set [OF m(1,2) m(2) m(3)] obtain m' where
    m': "lut_set m (word_of_nat a) v = Inr m'" "length m' = 16" "lut_lookup m' (word_of_nat a) = Inr v"
    by auto
  moreover have "lut_lookup m' (word_of_nat b) = lut_lookup m (word_of_nat b)" if "b < 64" "b \<noteq> a" for b
    using lut_lookup_set [OF m(1,2) that(1) m(3)] m'(1) that(2) by auto
  ultimately show "\<exists>m'. lut_set m (word_of_nat a) v = Inr m' \<and> length m' = 16 \<and>
      lut_lookup m' (word_of_nat a) = Inr v \<and>
      (\<forall>b<64. b \<noteq> a \<longrightarrow> lut_lookup m' (word_of_nat b) = lut_lookup m (word_of_nat b))"
    by blast
qed

section \<open>Properties\<close>

lemma length_choices [simp]:
  "length LUT2DynamicInputChoices = 3" "length Level2_DynamicInputChoices = 3"
  "un < 3 \<Longrightarrow> length (lutChoices (Level2_DynamicInputChoices ! un)) = 3"
  "length DynamicInputChoiceLists = 33"
  by (simp_all add: LUT2DynamicInputChoices_def Level2_DynamicInputChoices_def make_l2_input_choices_def
      DynamicInputChoiceLists_def make_l3_input_choices_def Let_def)



text \<open>All units are visited, each at an address of its own.\<close>

definition addresses_of :: "nat \<times> nat \<times> nat \<Rightarrow> UnitAddress list" where
  "addresses_of r = (case r of (lvl, offset, n) \<Rightarrow> map (\<lambda>i. (lvl, i, 0)) [offset..<offset + n])"

lemma visit_addresses: "map snd (visit_units mk lvl offset xs) = addresses_of (lvl, offset, length xs)"
  by (rule nth_equalityI) (simp_all add: visit_units_def addresses_of_def nth_enumerate_eq)

lemma visit_distinct:
  assumes "wf_TriggerIO cfg"
  shows "distinct (map snd (visit cfg))" "length (visit cfg) = 77"
proof -
  have all: "map snd (visit cfg) = concat (map addresses_of
      [(0, 0, 4), (0, 4, 8), (0, 12, 2), (0, 16, 14), (0, 33, 6), (1, 0, 7), (2, 0, 3),
       (3, 0, 4), (3, 4, 4), (3, 8, 8), (3, 16, 14), (3, 30, 3)])"
    using assms by (simp only: visit_def visit_addresses wf_TriggerIO_def map_append) simp
  show "distinct (map snd (visit cfg))" unfolding all by code_simp
  have "length (map snd (visit cfg)) = 77" unfolding all by code_simp
  then show "length (visit cfg) = 77" by simp
qed

end
