(* ===== verification/Trigger_IO_Serialize.thy ===== *)
theory Trigger_IO_Serialize
  imports Trigger_IO
begin

text \<open>
  The serializer of \<open>mvlc_trigger_io_serialize.cc\<close>: a trigger I/O configuration
  becomes a list of script parts, comments and unit blocks whose register writes
  select a unit and set its registers, and a YAML document with the names and the
  soft activation flags. Connection values are used as indexes into the tables of
  choices without a check; going past their end is \<open>UndefinedBehaviour\<close>.
\<close>

section \<open>Script parts\<close>

abbreviation (input) UnitSelectRegister :: u16 where "UnitSelectRegister \<equiv> 0x200"
abbreviation (input) UnitRegisterBase :: u16 where "UnitRegisterBase \<equiv> 0x300"
abbreviation (input) Opt_HexValue :: u32 where "Opt_HexValue \<equiv> 1"
abbreviation (input) Opt_BinValue :: u32 where "Opt_BinValue \<equiv> 2"

record RegisterWrite =
  rw_address :: u16
  rw_value :: u16
  rw_comment :: string
  rw_options :: u32

datatype BasicPart = BasicWrite RegisterWrite | BasicComment string

record UnitBlock =
  ub_comment :: string
  ub_parts :: "BasicPart list"

datatype ScriptPart = PartWrite RegisterWrite | PartComment string | PartBlock UnitBlock

definition register_write :: "u16 \<Rightarrow> u16 \<Rightarrow> string \<Rightarrow> u32 \<Rightarrow> RegisterWrite" where
  "register_write address v comment options =
     \<lparr>rw_address = address, rw_value = v, rw_comment = comment, rw_options = options\<rparr>"

definition select_unit :: "nat \<Rightarrow> nat \<Rightarrow> string \<Rightarrow> BasicPart" where
  "select_unit lvl un unitName =
     BasicWrite (register_write 0x200 (push_bit 8 (word_of_nat lvl) OR word_of_nat un)
       (''select L'' @ fmt_dec lvl @ ''.Unit'' @ fmt_dec un @ unitName) Opt_HexValue)"

definition write_unit_reg :: "u16 \<Rightarrow> u16 \<Rightarrow> string \<Rightarrow> u32 \<Rightarrow> BasicPart" where
  "write_unit_reg reg v comment writeOpts =
     BasicWrite (register_write (UnitRegisterBase + reg) v comment writeOpts)"

definition write_connection :: "u16 \<Rightarrow> u16 \<Rightarrow> string \<Rightarrow> BasicPart" where
  "write_connection offset v sourceName =
     BasicWrite (register_write (0x380 + offset) v
       (if sourceName \<noteq> []
        then ''connect input'' @ fmt_dec (unat (offset div 2)) @ '' to '' @ CHR 0x27 # sourceName @ [CHR 0x27]
        else ''input'' @ fmt_dec (unat (offset div 2)) @ '' connection choice'') 0)"

definition write_strobe_connection :: "u16 \<Rightarrow> u16 \<Rightarrow> string \<Rightarrow> BasicPart" where
  "write_strobe_connection offset v sourceName =
     BasicWrite (register_write (0x380 + offset) v
       (if sourceName \<noteq> []
        then ''connect strobe_input to '' @ CHR 0x27 # sourceName @ [CHR 0x27] else []) 0)"

section \<open>Units\<close>

definition generate_Timer :: "Timer \<Rightarrow> BasicPart list" where
  "generate_Timer un =
     [write_unit_reg 2 (tm_range un) ''range (0:ns, 1:us, 2:ms, 3:s)'' 0,
      write_unit_reg 4 (tm_delay_ns un) ''delay [ns]'' 0,
      write_unit_reg 6 (tm_period un) ''period [in range units]'' 0]"

abbreviation (input) HasDirection :: u8 where "HasDirection \<equiv> 1"
abbreviation (input) HasActivation :: u8 where "HasActivation \<equiv> 2"
abbreviation (input) NIM_IO_Flags :: u8 where "NIM_IO_Flags \<equiv> HasDirection OR HasActivation"
abbreviation (input) ECL_IO_Flags :: u8 where "ECL_IO_Flags \<equiv> HasActivation"

definition generate_IO :: "IO \<Rightarrow> u8 \<Rightarrow> u16 \<Rightarrow> BasicPart list" where
  "generate_IO io ioFlags offset =
     [write_unit_reg (offset + 0) (io_delay io) ''delay [ns]'' 0,
      write_unit_reg (offset + 2) (io_width io) ''width [ns]'' 0,
      write_unit_reg (offset + 4) (io_holdoff io) ''holdoff [ns]'' 0,
      write_unit_reg (offset + 6) (of_bool (io_invert io)) ''invert (start on trailing edge of input)'' 0] @
     (if ioFlags AND HasDirection \<noteq> 0
      then [write_unit_reg (offset + 10) (io_direction io) ''direction (0:in, 1:out)'' 0] else []) @
     (if ioFlags AND HasActivation \<noteq> 0
      then [write_unit_reg (offset + 16) (of_bool (io_activate io)) ''output activate'' 0] else [])"

fun prefix_comment :: "string \<Rightarrow> BasicPart \<Rightarrow> BasicPart" where
  "prefix_comment pre (BasicWrite w) = BasicWrite (w\<lparr>rw_comment := pre @ rw_comment w\<rparr>)"
| "prefix_comment pre (BasicComment c) = BasicComment c"

definition generate_TriggerResource :: "TriggerResource \<Rightarrow> BasicPart list" where
  "generate_TriggerResource un =
     [write_unit_reg 0x80 (ucast (tr_type un)) ''type: 0=IRQ, 1=SoftTrigger, 2=SyncTrigger'' 0,
      write_unit_reg 0 (ucast (irqIndex (irqUtil un))) ''IRQ: zero-based index: 0=IRQ1, .., 6=IRQ7'' 0] @
     map (prefix_comment ''SyncTrigger: '') (generate_IO (gateGenerator (syncOutTrigger un)) 0 6) @
     [write_unit_reg 0x82 (ucast (triggerIndex (syncOutTrigger un))) ''SyncTrigger number (0..3)'' 0]"

definition generate_StackBusy :: "StackBusy \<Rightarrow> BasicPart list" where
  "generate_StackBusy un = [write_unit_reg 0 (sb_stackIndex un) ''stack_index'' 0]"

text \<open>The three output bits of one input combination, and the RAM of all 64.\<close>

definition lut_ram_value :: "LUT \<Rightarrow> nat \<Rightarrow> u32" where
  "lut_ram_value lut address =
     fold (\<lambda>out ramValue. if bit (lutContents lut ! out) address then ramValue OR push_bit out 1 else ramValue)
       [0..<length (lutContents lut)] 0"

definition make_lut_ram :: "LUT \<Rightarrow> LUT_RAM result" where
  "make_lut_ram lut =
     result_foldM (\<lambda>address ram.
         if 8 \<le> lut_ram_value lut address then Inl AssertionFailure
         else lut_set ram (word_of_nat address) (ucast (lut_ram_value lut address)))
       [0..<64] (replicate 16 0)"

definition write_lut_ram :: "LUT_RAM \<Rightarrow> BasicPart list" where
  "write_lut_ram ram =
     map (\<lambda>(i, row). let reg = word_of_nat (i * 2) :: u16; cell = reg * 2
         in write_unit_reg reg row (''cells '' @ fmt_dec (unat cell) @ ''-'' @ fmt_dec (unat cell + 3)) Opt_HexValue)
       (enumerate 0 ram)"

definition write_lut :: "LUT \<Rightarrow> BasicPart list result" where
  "write_lut lut = result_map write_lut_ram (make_lut_ram lut)"

definition generate_StackStart :: "StackStart \<Rightarrow> BasicPart list" where
  "generate_StackStart un =
     [write_unit_reg 0 (of_bool (ss_activate un)) ''activate'' 0,
      write_unit_reg 2 (ucast (ss_stackIndex un)) ''stack index'' 0,
      write_unit_reg 4 (ss_delay_ns un) ''delay [ns]'' 0]"

definition generate_MasterTrigger :: "MasterTrigger \<Rightarrow> BasicPart list" where
  "generate_MasterTrigger un = [write_unit_reg 0 (of_bool (mt_activate un)) ''activate'' 0]"

definition generate_Counter :: "Counter \<Rightarrow> BasicPart list" where
  "generate_Counter un = [write_unit_reg 14 (of_bool (ct_clearOnLatch un)) ''clear on latch'' 0]"

section \<open>generate\_trigger\_io\_parts\<close>

definition unit_block :: "string \<Rightarrow> BasicPart list \<Rightarrow> ScriptPart" where
  "unit_block comment parts = PartBlock \<lparr>ub_comment = comment, ub_parts = parts\<rparr>"

text \<open>A unit of level 0: nothing but its registers.\<close>

definition l0_block :: "nat \<Rightarrow> BasicPart list \<Rightarrow> ScriptPart" where
  "l0_block un parts = unit_block (Level0_DefaultUnitNames ! un) (select_unit 0 un [] # parts)"

definition level0_parts :: "Level0 \<Rightarrow> ScriptPart list" where
  "level0_parts l =
     map (\<lambda>(i, un). l0_block i (generate_Timer un)) (enumerate 0 (timers l)) @
     map (\<lambda>(i, un). l0_block i (generate_TriggerResource un))
       (enumerate TriggerResourceOffset (triggerResources l)) @
     map (\<lambda>(i, un). l0_block i (generate_StackBusy un)) (enumerate StackBusyOffset (stackBusy l)) @
     map (\<lambda>(i, un). l0_block i (generate_IO un NIM_IO_Flags 0)) (enumerate NIM_IO_Offset (ioNIM l)) @
     map (\<lambda>(i, un). l0_block i (generate_IO un 0 0)) (enumerate IRQ_Inputs_Offset (ioIRQ l))"

text \<open>
  The name of the source an input is connected to: the connection value indexes the
  list of choices, and the address found there the names.
\<close>

definition connection_name :: "TriggerIO \<Rightarrow> UnitAddress list \<Rightarrow> u32 \<Rightarrow> string result" where
  "connection_name cfg choices conValue =
     result_bind (index_ub choices (unat conValue)) (lookup_name cfg)"

definition connection_part :: "TriggerIO \<Rightarrow> UnitAddress list \<Rightarrow> u16 \<Rightarrow> u32 \<Rightarrow> BasicPart result" where
  "connection_part cfg choices regOffset conValue =
     result_map (write_connection regOffset (ucast conValue)) (connection_name cfg choices conValue)"

definition dynamic_inputs :: "TriggerIO \<Rightarrow> UnitAddress list list \<Rightarrow> u32 list \<Rightarrow> BasicPart list result" where
  "dynamic_inputs cfg choices cons =
     result_mapM (\<lambda>input. connection_part cfg (choices ! input) (word_of_nat (input * 2)) (cons ! input))
       [0..<LUT_DynamicInputCount]"

definition l1_lut_part :: "TriggerIO \<Rightarrow> nat \<times> LUT \<Rightarrow> ScriptPart result" where
  "l1_lut_part cfg = (\<lambda>(unitIndex, lut).
     result_bind (write_lut lut) (\<lambda>lutParts.
     result_map (\<lambda>conParts. unit_block (''L1.LUT'' @ fmt_dec unitIndex)
         (select_unit 1 unitIndex [] # lutParts @ conParts))
       (if unitIndex = 2 then dynamic_inputs cfg LUT2DynamicInputChoices (lut2Connections (l1 cfg))
        else Inr [])))"

definition l2_lut_part :: "TriggerIO \<Rightarrow> nat \<times> LUT \<Rightarrow> ScriptPart result" where
  "l2_lut_part cfg = (\<lambda>(unitIndex, lut).
     let choices = Level2_DynamicInputChoices ! unitIndex;
         strobeCon = strobeConnections (l2 cfg) ! unitIndex
     in result_bind (write_lut lut) (\<lambda>lutParts.
        result_bind (dynamic_inputs cfg (lutChoices choices) (lutConnections (l2 cfg) ! unitIndex)) (\<lambda>conParts.
        result_map (\<lambda>strobeName. unit_block (''L2.LUT'' @ fmt_dec unitIndex)
            (select_unit 2 unitIndex [] # lutParts @
             write_unit_reg 0x20 (ucast (strobedOutputs lut)) ''strobed_outputs (3 bit mask)'' Opt_BinValue #
             conParts @
             BasicComment (''L2.LUT'' @ fmt_dec unitIndex @ '' strobe gate generator'') #
             generate_IO (strobeGG lut) 0 StrobeGGIOOffset @
             [write_strobe_connection 6 (ucast strobeCon) strobeName]))
          (connection_name cfg (strobeChoices choices) strobeCon))))"

text \<open>A unit of level 3: its registers and the connection of its first \<open>n\<close> inputs.\<close>

definition l3_block :: "TriggerIO \<Rightarrow> nat \<Rightarrow> nat \<Rightarrow> BasicPart list \<Rightarrow> ScriptPart result" where
  "l3_block cfg unitIndex n parts =
     result_map (\<lambda>conParts. unit_block (Level3_DefaultUnitNames ! unitIndex)
         (select_unit 3 unitIndex [] # parts @ conParts))
       (result_mapM (\<lambda>input.
            result_bind (index_ub (connections (l3 cfg) ! unitIndex) input)
              (connection_part cfg (DynamicInputChoiceLists ! unitIndex ! input) (word_of_nat (input * 2))))
          [0..<n])"

definition level3_units :: "TriggerIO \<Rightarrow> ScriptPart list result" where
  "level3_units cfg =
     result_bind (result_mapM (\<lambda>(i, un). l3_block cfg i 1 (generate_StackStart un))
       (enumerate 0 (stackStart (l3 cfg)))) (\<lambda>starts.
     result_bind (result_mapM (\<lambda>(i, un). l3_block cfg i 1 (generate_MasterTrigger un))
       (enumerate MasterTriggersOffset (masterTriggers (l3 cfg)))) (\<lambda>triggers.
     result_map (\<lambda>cnts. starts @ triggers @ cnts)
       (result_mapM (\<lambda>(i, un). l3_block cfg i 2 (generate_Counter un))
         (enumerate CountersOffset (counters (l3 cfg))))))"

definition level3_outputs :: "TriggerIO \<Rightarrow> ScriptPart list result" where
  "level3_outputs cfg =
     result_bind (result_mapM (\<lambda>nim. l3_block cfg (nim + NIM_IO_Unit_Offset) 1 []) [0..<NIM_IO_Count]) (\<lambda>nims.
     result_map (\<lambda>ecls.
         PartComment ''NIM unit connections (Note: NIM setup is done in the Level0 section)'' # nims @ ecls)
       (result_mapM (\<lambda>(i, un). l3_block cfg i 1 (generate_IO un ECL_IO_Flags 0))
         (enumerate ECL_Unit_Offset (ioECL (l3 cfg)))))"

definition level_comment :: "nat \<Rightarrow> ScriptPart" where
  "level_comment lvl = PartComment (''Level'' @ fmt_dec lvl @ '' '' @ replicate 53 (CHR ''#''))"

definition generate_trigger_io_parts :: "TriggerIO \<Rightarrow> ScriptPart list result" where
  "generate_trigger_io_parts cfg =
     result_bind (result_mapM (l1_lut_part cfg) (enumerate 0 (l1_luts (l1 cfg)))) (\<lambda>lv1.
     result_bind (result_mapM (l2_lut_part cfg) (enumerate 0 (l2_luts (l2 cfg)))) (\<lambda>lv2.
     result_bind (level3_units cfg) (\<lambda>units.
     result_map (\<lambda>outs.
         level_comment 0 # level0_parts (l0 cfg) @ level_comment 1 # lv1 @ level_comment 2 # lv2 @
         level_comment 3 # units @ outs)
       (level3_outputs cfg))))"

section \<open>YAML documents\<close>

text \<open>
  The YAML library is not part of the sources. Its documents are trees; emitting a
  tree, loading a text, comparing a key with a number and converting a node to a
  string or a truth value are parameters.
\<close>

datatype yaml = YNull | YScalar string | YSeq "yaml list" | YMap "(string \<times> yaml) list"

record yaml_lib =
  yaml_emit :: "yaml \<Rightarrow> string"
  yaml_load :: "string \<Rightarrow> yaml result"
  yaml_int_key :: "string \<Rightarrow> nat option"
  yaml_as_string :: "yaml \<Rightarrow> string result"
  yaml_as_bool :: "yaml \<Rightarrow> bool result"

section \<open>generate\_meta\_info\_yaml\<close>

type_synonym NameMap = "(nat \<times> string) list"

definition name_map_yaml :: "NameMap \<Rightarrow> yaml" where
  "name_map_yaml m = YMap (map (\<lambda>(i, name). (fmt_dec i, YScalar name)) m)"

definition map_entry :: "string \<Rightarrow> 'a list \<Rightarrow> yaml \<Rightarrow> (string \<times> yaml) list" where
  "map_entry key m y = (if m \<noteq> [] then [(key, y)] else [])"

text \<open>The names of the given units, without those that are marked as not available.\<close>

definition unit_name_map :: "string list \<Rightarrow> (nat \<times> string) list \<Rightarrow> NameMap result" where
  "unit_name_map unitNames defaults =
     result_map (\<lambda>names. map (\<lambda>(i, defaultName, name). (i, name))
         (filter (\<lambda>(i, defaultName, name). defaultName \<noteq> UnitNotAvailable) names))
       (result_mapM (\<lambda>(i, defaultName). result_map (\<lambda>name. (i, defaultName, name)) (at_result unitNames i)) defaults)"

definition lut_name_maps :: "LUT list \<Rightarrow> (nat \<times> NameMap) list" where
  "lut_name_maps luts =
     filter (\<lambda>(i, m). m \<noteq> []) (map (\<lambda>(i, lut). (i, enumerate 0 (outputNames lut))) (enumerate 0 luts))"

definition lut_maps_yaml :: "(nat \<times> NameMap) list \<Rightarrow> yaml" where
  "lut_maps_yaml lutMaps = YMap (map (\<lambda>(i, m). (fmt_dec i, name_map_yaml m)) lutMaps)"

definition is_nim_unit :: "nat \<Rightarrow> bool" where
  "is_nim_unit unitIndex \<longleftrightarrow> NIM_IO_Unit_Offset \<le> unitIndex \<and> unitIndex < NIM_IO_Unit_Offset + NIM_IO_Count"

definition meta_names :: "TriggerIO \<Rightarrow> yaml result" where
  "meta_names cfg =
     result_bind (unit_name_map (l0_unitNames (l0 cfg)) (enumerate 0 Level0_DefaultUnitNames)) (\<lambda>names0.
     result_map (\<lambda>names3.
         let luts1 = lut_name_maps (l1_luts (l1 cfg)); luts2 = lut_name_maps (l2_luts (l2 cfg))
         in YMap (map_entry ''level0'' names0 (name_map_yaml names0) @
                  map_entry ''level1'' luts1 (lut_maps_yaml luts1) @
                  map_entry ''level2'' luts2 (lut_maps_yaml luts2) @
                  map_entry ''level3'' names3 (name_map_yaml names3)))
       (unit_name_map (l3_unitNames (l3 cfg))
          (filter (\<lambda>(i, defaultName). \<not> is_nim_unit i) (enumerate 0 Level3_DefaultUnitNames))))"

definition bool_yaml :: "bool \<Rightarrow> yaml" where
  "bool_yaml b = YScalar (if b then ''true'' else ''false'')"

definition soft_activate_yaml :: "nat \<times> bool \<Rightarrow> string \<times> yaml" where
  "soft_activate_yaml = (\<lambda>(unitIndex, softActivate).
     (fmt_dec unitIndex, YMap [(''soft_activate'', bool_yaml softActivate)]))"

definition meta_settings :: "TriggerIO \<Rightarrow> yaml" where
  "meta_settings cfg =
     YMap [(''level0'', YMap (map soft_activate_yaml (enumerate 0 (map tm_softActivate (timers (l0 cfg)))))),
           (''level3'', YMap (map soft_activate_yaml
              (enumerate CountersOffset (map ct_softActivate (counters (l3 cfg))))))]"

definition meta_info :: "TriggerIO \<Rightarrow> yaml result" where
  "meta_info cfg =
     result_map (\<lambda>names. YMap [(''names'', names), (''settings'', meta_settings cfg)]) (meta_names cfg)"

definition generate_meta_info_yaml :: "yaml_lib \<Rightarrow> TriggerIO \<Rightarrow> string result" where
  "generate_meta_info_yaml lib cfg = result_map (yaml_emit lib) (meta_info cfg)"

end
