(* ===== verification/Trigger_IO_Deserialize.thy ===== *)
theory Trigger_IO_Deserialize
  imports Trigger_IO_Serialize
begin

text \<open>
  The deserializer of \<open>mvlc_trigger_io_deserialize.cc\<close>: a flat list of register
  writes is grouped by level and unit, the registers are assigned to the members of
  the configuration until one is missing, and the names and flags of the YAML
  document are applied. An exception leaves the members assigned before it as they
  are, so each assignment is a step that returns the new state and whether the
  next one is reached.
\<close>

section \<open>Grouping the writes\<close>

record WriteCommand =
  wc_address :: u32
  wc_value :: u32

type_synonym RegisterWrites = "u16 \<rightharpoonup> u16"
type_synonym UnitWrites = "u16 \<rightharpoonup> RegisterWrites"
type_synonym LevelWrites = "UnitWrites list"

text \<open>\<open>levelWrites[level][unit][regOffset] = value\<close>: the maps create missing entries, the array does not.\<close>

definition level_write :: "LevelWrites \<Rightarrow> u16 \<Rightarrow> u16 \<Rightarrow> u16 \<Rightarrow> u16 \<Rightarrow> LevelWrites result" where
  "level_write lws lvl un regOffset v =
     (if unat lvl < length lws
      then let us = lws ! unat lvl;
               rs = (case us un of Some rs \<Rightarrow> rs | None \<Rightarrow> Map.empty)
        in Inr (lws[unat lvl := us(un \<mapsto> rs(regOffset \<mapsto> v))])
      else Inl UndefinedBehaviour)"

definition flat_write_step ::
  "WriteCommand \<Rightarrow> LevelWrites \<times> u16 \<times> u16 \<Rightarrow> (LevelWrites \<times> u16 \<times> u16) result" where
  "flat_write_step cmd = (\<lambda>(lws, lvl, un).
     if wc_address cmd = ucast UnitSelectRegister
     then Inr (lws, ucast (drop_bit 8 (wc_value cmd) AND 0xFF), ucast (wc_value cmd AND 0xFF))
     else if ucast UnitRegisterBase \<le> wc_address cmd
     then result_map (\<lambda>lws. (lws, lvl, un))
       (level_write lws lvl un (ucast (wc_address cmd - ucast UnitRegisterBase)) (ucast (wc_value cmd)))
     else Inr (lws, lvl, un))"

definition level_writes_from_flat_writes :: "WriteCommand list \<Rightarrow> LevelWrites result" where
  "level_writes_from_flat_writes writes =
     result_map fst (result_foldM flat_write_step writes (replicate 4 Map.empty, 0, 0))"

section \<open>Steps\<close>

type_synonym 's step = "'s \<Rightarrow> 's \<times> bool"

definition then_step :: "'s step \<Rightarrow> 's step \<Rightarrow> 's step" where
  "then_step f g s = (case f s of (s', ok) \<Rightarrow> if ok then g s' else (s', False))"

fun steps :: "'s step list \<Rightarrow> 's step" where
  "steps [] s = (s, True)"
| "steps (f # fs) s = then_step f (steps fs) s"

text \<open>Assigning the value of a map's \<open>at\<close>.\<close>

definition assign :: "'v option \<Rightarrow> ('v \<Rightarrow> 's \<Rightarrow> 's) \<Rightarrow> 's step" where
  "assign v f s = (case v of Some v \<Rightarrow> (f v s, True) | None \<Rightarrow> (s, False))"

definition at2 :: "UnitWrites \<Rightarrow> nat \<Rightarrow> u16 \<Rightarrow> u16 option" where
  "at2 us un reg = (case us (word_of_nat un) of Some rs \<Rightarrow> rs reg | None \<Rightarrow> None)"

section \<open>Units\<close>

definition parse_io :: "RegisterWrites \<Rightarrow> u16 \<Rightarrow> IO" where
  "parse_io rs offset =
     fst (steps
       [assign (rs (offset + 0)) (\<lambda>v io. io\<lparr>io_delay := v\<rparr>),
        assign (rs (offset + 2)) (\<lambda>v io. io\<lparr>io_width := v\<rparr>),
        assign (rs (offset + 4)) (\<lambda>v io. io\<lparr>io_holdoff := v\<rparr>),
        assign (rs (offset + 6)) (\<lambda>v io. io\<lparr>io_invert := (v \<noteq> 0)\<rparr>),
        assign (rs (offset + 10)) (\<lambda>v io. io\<lparr>io_direction := v\<rparr>),
        assign (rs (offset + 16)) (\<lambda>v io. io\<lparr>io_activate := (v \<noteq> 0)\<rparr>)] IO_init)"

definition parse_lut_ram :: "RegisterWrites \<Rightarrow> LUT_RAM" where
  "parse_lut_ram rs =
     fold (\<lambda>line ram. case rs (word_of_nat (line * 2)) of Some v \<Rightarrow> ram[line := v] | None \<Rightarrow> ram)
       [0..<16] (replicate 16 0)"

definition lut_assign_bit :: "nat \<Rightarrow> nat \<Rightarrow> bool \<Rightarrow> LUT \<Rightarrow> LUT" where
  "lut_assign_bit out address b lut =
     lut\<lparr>lutContents := (lutContents lut)[out :=
       (if b then set_bit else unset_bit) address (lutContents lut ! out)]\<rparr>"

definition parse_lut_address :: "LUT_RAM \<Rightarrow> nat \<Rightarrow> LUT \<Rightarrow> LUT result" where
  "parse_lut_address ram address lut =
     result_map (\<lambda>ramValue.
         fold (\<lambda>out. lut_assign_bit out address (drop_bit out ramValue AND 1 \<noteq> 0)) [0..<OutputBits] lut)
       (lut_lookup ram (word_of_nat address))"

definition parse_lut :: "RegisterWrites \<Rightarrow> LUT result" where
  "parse_lut rs =
     result_map (\<lambda>lut.
         let lut = (case rs 0x20 of Some v \<Rightarrow> lut\<lparr>strobedOutputs := ucast v\<rparr> | None \<Rightarrow> lut);
             gg = parse_io rs StrobeGGIOOffset
         in lut\<lparr>strobeGG := (if io_width gg = 0 then gg\<lparr>io_width := StrobeGGDefaultWidth\<rparr> else gg)\<rparr>)
       (result_foldM (parse_lut_address (parse_lut_ram rs)) [0..<64] LUT_init)"

section \<open>trigger\_io\_from\_writes\<close>

abbreviation (input) UnitConnectBase :: u16 where "UnitConnectBase \<equiv> 0x80"

definition step_for :: "('a \<Rightarrow> 's step) \<Rightarrow> 'a list \<Rightarrow> 's step" where
  "step_for f xs = steps (map f xs)"

definition timer_steps :: "UnitWrites \<Rightarrow> nat \<Rightarrow> Timer step" where
  "timer_steps ws unitIndex = steps
     [assign (at2 ws unitIndex 2) (\<lambda>v un. un\<lparr>tm_range := v\<rparr>),
      assign (at2 ws unitIndex 4) (\<lambda>v un. un\<lparr>tm_delay_ns := v\<rparr>),
      assign (at2 ws unitIndex 6) (\<lambda>v un. un\<lparr>tm_period := v\<rparr>)]"

definition trigger_resource_steps :: "UnitWrites \<Rightarrow> nat \<Rightarrow> TriggerResource step" where
  "trigger_resource_steps ws unitIndex = steps
     [assign (at2 ws unitIndex 0x80) (\<lambda>v un. un\<lparr>tr_type := ucast v\<rparr>),
      assign (at2 ws unitIndex 0) (\<lambda>v un. un\<lparr>irqUtil := \<lparr>irqIndex = ucast v\<rparr>\<rparr>),
      assign (ws (word_of_nat unitIndex))
        (\<lambda>rs un. un\<lparr>syncOutTrigger := (syncOutTrigger un)\<lparr>gateGenerator := parse_io rs 6\<rparr>\<rparr>),
      assign (at2 ws unitIndex 0x82)
        (\<lambda>v un. un\<lparr>syncOutTrigger := (syncOutTrigger un)\<lparr>triggerIndex := ucast v\<rparr>\<rparr>)]"

definition stack_busy_steps :: "UnitWrites \<Rightarrow> nat \<Rightarrow> StackBusy step" where
  "stack_busy_steps ws unitIndex = assign (at2 ws unitIndex 0) (\<lambda>v un. un\<lparr>sb_stackIndex := v\<rparr>)"

definition io_steps :: "UnitWrites \<Rightarrow> nat \<Rightarrow> IO step" where
  "io_steps ws unitIndex = assign (ws (word_of_nat unitIndex)) (\<lambda>rs un. parse_io rs 0)"

text \<open>The loops over the units of an array: the first exception leaves the rest unchanged.\<close>

fun each_unit :: "(nat \<Rightarrow> 'a step) \<Rightarrow> nat \<Rightarrow> 'a list step" where
  "each_unit f i [] = ([], True)"
| "each_unit f i (x # xs) =
     (case f i x of (x', ok) \<Rightarrow>
        if ok then (case each_unit f (Suc i) xs of (xs', ok) \<Rightarrow> (x' # xs', ok)) else (x' # xs, False))"

definition in_member :: "('s \<Rightarrow> 'a) \<Rightarrow> (('a \<Rightarrow> 'a) \<Rightarrow> 's \<Rightarrow> 's) \<Rightarrow> 'a step \<Rightarrow> 's step" where
  "in_member get upd f s = (case f (get s) of (x, ok) \<Rightarrow> (upd (\<lambda>_. x) s, ok))"

definition level0_steps :: "UnitWrites \<Rightarrow> Level0 step" where
  "level0_steps ws = steps
     [in_member timers timers_update (each_unit (timer_steps ws) 0),
      in_member triggerResources triggerResources_update
        (each_unit (trigger_resource_steps ws) TriggerResourceOffset),
      in_member stackBusy stackBusy_update (each_unit (stack_busy_steps ws) StackBusyOffset),
      in_member ioNIM ioNIM_update (each_unit (io_steps ws) NIM_IO_Offset),
      in_member ioIRQ ioIRQ_update (each_unit (io_steps ws) IRQ_Inputs_Offset)]"

definition lut_at :: "UnitWrites \<Rightarrow> nat \<Rightarrow> LUT option" where
  "lut_at ws unitIndex =
     (case ws (word_of_nat unitIndex) of None \<Rightarrow> None
      | Some rs \<Rightarrow> (case parse_lut rs of Inl _ \<Rightarrow> None | Inr lut \<Rightarrow> Some lut))"

definition connect_at :: "UnitWrites \<Rightarrow> nat \<Rightarrow> nat \<Rightarrow> u32 option" where
  "connect_at ws unitIndex input = map_option ucast (at2 ws unitIndex (UnitConnectBase + word_of_nat (2 * input)))"

definition dynamic_input_steps :: "UnitWrites \<Rightarrow> nat \<Rightarrow> u32 list step" where
  "dynamic_input_steps ws unitIndex =
     step_for (\<lambda>input. assign (connect_at ws unitIndex input) (\<lambda>v cons. cons[input := v]))
       [0..<LUT_DynamicInputCount]"

definition level1_lut_steps :: "UnitWrites \<Rightarrow> nat \<Rightarrow> Level1 step" where
  "level1_lut_steps ws unitIndex = steps
     (assign (lut_at ws unitIndex) (\<lambda>lut. l1_luts_update (\<lambda>luts. luts[unitIndex := lut])) #
      (if unitIndex = 2 then [in_member lut2Connections lut2Connections_update (dynamic_input_steps ws unitIndex)]
       else []))"

definition level1_steps :: "UnitWrites \<Rightarrow> Level1 step" where
  "level1_steps ws l = step_for (level1_lut_steps ws) [0..<length (l1_luts l)] l"

definition level2_lut_steps :: "UnitWrites \<Rightarrow> nat \<Rightarrow> Level2 step" where
  "level2_lut_steps ws unitIndex = steps
     [assign (lut_at ws unitIndex) (\<lambda>lut. l2_luts_update (\<lambda>luts. luts[unitIndex := lut])),
      in_member (\<lambda>l. lutConnections l ! unitIndex)
        (\<lambda>f. lutConnections_update (\<lambda>cs. cs[unitIndex := f (cs ! unitIndex)])) (dynamic_input_steps ws unitIndex),
      assign (connect_at ws unitIndex 3) (\<lambda>v. strobeConnections_update (\<lambda>cs. cs[unitIndex := v]))]"

definition level2_steps :: "UnitWrites \<Rightarrow> Level2 step" where
  "level2_steps ws l = step_for (level2_lut_steps ws) [0..<length (l2_luts l)] l"

text \<open>The connection values of the first \<open>n\<close> inputs of a unit, assigned together.\<close>

definition connection_step :: "UnitWrites \<Rightarrow> nat \<Rightarrow> nat \<Rightarrow> Level3 step" where
  "connection_step ws n unitIndex =
     assign (those (map (connect_at ws unitIndex) [0..<n]))
       (\<lambda>vs. connections_update (\<lambda>cs. cs[unitIndex := vs]))"

definition stack_start_steps :: "UnitWrites \<Rightarrow> nat \<Rightarrow> StackStart step" where
  "stack_start_steps ws unitIndex = steps
     [assign (at2 ws unitIndex 0) (\<lambda>v un. un\<lparr>ss_activate := (v \<noteq> 0)\<rparr>),
      assign (at2 ws unitIndex 2) (\<lambda>v un. un\<lparr>ss_stackIndex := ucast v\<rparr>),
      assign (at2 ws unitIndex 4) (\<lambda>v un. un\<lparr>ss_delay_ns := v\<rparr>)]"

definition master_trigger_steps :: "UnitWrites \<Rightarrow> nat \<Rightarrow> MasterTrigger step" where
  "master_trigger_steps ws unitIndex = assign (at2 ws unitIndex 0) (\<lambda>v un. un\<lparr>mt_activate := (v \<noteq> 0)\<rparr>)"

definition counter_steps :: "UnitWrites \<Rightarrow> nat \<Rightarrow> Counter step" where
  "counter_steps ws unitIndex = assign (at2 ws unitIndex 14) (\<lambda>v un. un\<lparr>ct_clearOnLatch := (v \<noteq> 0)\<rparr>)"

text \<open>A loop over an array of level 3: the unit at its index, then the connections of the unit.\<close>

definition level3_unit_steps ::
  "(Level3 \<Rightarrow> 'a list) \<Rightarrow> (('a list \<Rightarrow> 'a list) \<Rightarrow> Level3 \<Rightarrow> Level3) \<Rightarrow> (nat \<Rightarrow> 'a step) \<Rightarrow>
   UnitWrites \<Rightarrow> nat \<Rightarrow> nat \<Rightarrow> nat \<Rightarrow> Level3 step" where
  "level3_unit_steps get upd f ws n offset i = steps
     [in_member (\<lambda>l. get l ! i) (\<lambda>g. upd (\<lambda>xs. xs[i := g (xs ! i)])) (f (i + offset)),
      connection_step ws n (i + offset)]"

definition level3_loop ::
  "(Level3 \<Rightarrow> 'a list) \<Rightarrow> (('a list \<Rightarrow> 'a list) \<Rightarrow> Level3 \<Rightarrow> Level3) \<Rightarrow> (nat \<Rightarrow> 'a step) \<Rightarrow>
   UnitWrites \<Rightarrow> nat \<Rightarrow> nat \<Rightarrow> Level3 step" where
  "level3_loop get upd f ws n offset l =
     step_for (level3_unit_steps get upd f ws n offset) [0..<length (get l)] l"

definition level3_steps :: "UnitWrites \<Rightarrow> Level3 step" where
  "level3_steps ws = steps
     [level3_loop stackStart stackStart_update (stack_start_steps ws) ws 1 0,
      level3_loop masterTriggers masterTriggers_update (master_trigger_steps ws) ws 1 MasterTriggersOffset,
      level3_loop counters counters_update (counter_steps ws) ws 2 CountersOffset,
      level3_loop l3_ioNIM l3_ioNIM_update (\<lambda>_ io. (io, True)) ws 1 NIM_IO_Unit_Offset,
      level3_loop ioECL ioECL_update (io_steps ws) ws 1 ECL_Unit_Offset]"

definition copy_nim :: "TriggerIO step" where
  "copy_nim cfg = (cfg\<lparr>l3 := (l3 cfg)\<lparr>l3_ioNIM := ioNIM (l0 cfg)\<rparr>\<rparr>, True)"

definition trigger_io_from_writes :: "LevelWrites \<Rightarrow> TriggerIO" where
  "trigger_io_from_writes lws =
     fst (steps
       [in_member l0 l0_update (level0_steps (lws ! 0)),
        in_member l1 l1_update (level1_steps (lws ! 1)),
        in_member l2 l2_update (level2_steps (lws ! 2)),
        copy_nim,
        in_member l3 l3_update (level3_steps (lws ! 3))] TriggerIO_init)"

section \<open>apply\_meta\_info\_yaml\<close>

text \<open>
  Subscripts of a node: a missing entry is an undefined node, and a scalar cannot be
  indexed.
\<close>

fun yaml_get :: "yaml \<Rightarrow> string \<Rightarrow> yaml option result" where
  "yaml_get (YMap m) key = Inr (map_of m key)"
| "yaml_get (YScalar _) key = Inl RuntimeError"
| "yaml_get _ key = Inr None"

fun yaml_get_int :: "yaml_lib \<Rightarrow> yaml \<Rightarrow> nat \<Rightarrow> yaml option result" where
  "yaml_get_int lib (YMap m) i = Inr (map_option snd (find (\<lambda>(key, y). yaml_int_key lib key = Some i) m))"
| "yaml_get_int lib (YSeq ys) i = Inr (if i < length ys then Some (ys ! i) else None)"
| "yaml_get_int lib (YScalar _) i = Inl RuntimeError"
| "yaml_get_int lib YNull i = Inr None"

text \<open>\<open>if (const auto &y = node[key]) body(y)\<close>.\<close>

definition if_defined :: "yaml option result \<Rightarrow> (yaml \<Rightarrow> 's result) \<Rightarrow> 's \<Rightarrow> 's result" where
  "if_defined r body s = result_bind r (\<lambda>y. case y of None \<Rightarrow> Inr s | Some y \<Rightarrow> body y)"

definition new_name :: "yaml_lib \<Rightarrow> yaml \<Rightarrow> nat \<Rightarrow> string \<Rightarrow> string result" where
  "new_name lib yNames i name = if_defined (yaml_get_int lib yNames i) (yaml_as_string lib) name"

definition level0_name :: "yaml_lib \<Rightarrow> yaml \<Rightarrow> nat \<Rightarrow> TriggerIO \<Rightarrow> TriggerIO result" where
  "level0_name lib yNames i cfg =
     result_bind (new_name lib yNames i (l0_unitNames (l0 cfg) ! i)) (\<lambda>name.
       let cfg = cfg\<lparr>l0 := (l0 cfg)\<lparr>l0_unitNames := (l0_unitNames (l0 cfg))[i := name]\<rparr>\<rparr>
       in if \<not> is_nim_unit i then Inr cfg
          else if length (l3_unitNames (l3 cfg)) \<le> i then Inl UndefinedBehaviour
          else Inr (cfg\<lparr>l3 := (l3 cfg)\<lparr>l3_unitNames := (l3_unitNames (l3 cfg))[i := name]\<rparr>\<rparr>))"

definition lut_names :: "yaml_lib \<Rightarrow> yaml \<Rightarrow> LUT \<Rightarrow> LUT result" where
  "lut_names lib yNames lut =
     result_map (\<lambda>names. lut\<lparr>outputNames := names\<rparr>)
       (result_mapM (\<lambda>(i, name). new_name lib yNames i name) (enumerate 0 (outputNames lut)))"

definition luts_names :: "yaml_lib \<Rightarrow> yaml \<Rightarrow> LUT list \<Rightarrow> LUT list result" where
  "luts_names lib yUnitMaps luts =
     result_mapM (\<lambda>(i, lut). if_defined (yaml_get_int lib yUnitMaps i) (\<lambda>yNames. lut_names lib yNames lut) lut)
       (enumerate 0 luts)"

definition level3_names :: "yaml_lib \<Rightarrow> yaml \<Rightarrow> string list \<Rightarrow> string list result" where
  "level3_names lib yNames names =
     result_mapM (\<lambda>(i, name). if is_nim_unit i then Inr name else new_name lib yNames i name) (enumerate 0 names)"

definition apply_names :: "yaml_lib \<Rightarrow> yaml \<Rightarrow> TriggerIO \<Rightarrow> TriggerIO result" where
  "apply_names lib yLevelNames cfg =
     result_bind (if_defined (yaml_get yLevelNames ''level0'')
       (\<lambda>yNames. result_foldM (level0_name lib yNames) [0..<length (l0_unitNames (l0 cfg))] cfg) cfg) (\<lambda>cfg.
     result_bind (if_defined (yaml_get yLevelNames ''level1'')
       (\<lambda>y. result_map (\<lambda>luts. cfg\<lparr>l1 := (l1 cfg)\<lparr>l1_luts := luts\<rparr>\<rparr>)
          (luts_names lib y (l1_luts (l1 cfg)))) cfg) (\<lambda>cfg.
     result_bind (if_defined (yaml_get yLevelNames ''level2'')
       (\<lambda>y. result_map (\<lambda>luts. cfg\<lparr>l2 := (l2 cfg)\<lparr>l2_luts := luts\<rparr>\<rparr>)
          (luts_names lib y (l2_luts (l2 cfg)))) cfg) (\<lambda>cfg.
     if_defined (yaml_get yLevelNames ''level3'')
       (\<lambda>y. result_map (\<lambda>names. cfg\<lparr>l3 := (l3 cfg)\<lparr>l3_unitNames := names\<rparr>\<rparr>)
          (level3_names lib y (l3_unitNames (l3 cfg)))) cfg)))"

text \<open>
  \<open>yLevelSettings[unitIndex]["soft_activate"].as<bool>()\<close>: every exception of the
  YAML library is caught and leaves the flag unchanged.
\<close>

definition soft_activate :: "yaml_lib \<Rightarrow> yaml \<Rightarrow> nat \<Rightarrow> bool \<Rightarrow> bool" where
  "soft_activate lib yLevelSettings i old =
     (case yaml_get_int lib yLevelSettings i of
        Inr (Some yUnit) \<Rightarrow>
          (case yaml_get yUnit ''soft_activate'' of
             Inr (Some y) \<Rightarrow> (case yaml_as_bool lib y of Inr b \<Rightarrow> b | Inl _ \<Rightarrow> old)
           | _ \<Rightarrow> old)
      | _ \<Rightarrow> old)"

definition apply_settings :: "yaml_lib \<Rightarrow> yaml \<Rightarrow> TriggerIO \<Rightarrow> TriggerIO result" where
  "apply_settings lib ySettings cfg =
     result_bind (if_defined (yaml_get ySettings ''level0'')
       (\<lambda>y. Inr (cfg\<lparr>l0 := (l0 cfg)\<lparr>timers :=
          map (\<lambda>(i, un). un\<lparr>tm_softActivate := soft_activate lib y i (tm_softActivate un)\<rparr>)
            (enumerate 0 (timers (l0 cfg)))\<rparr>\<rparr>)) cfg) (\<lambda>cfg.
     if_defined (yaml_get ySettings ''level3'')
       (\<lambda>y. Inr (cfg\<lparr>l3 := (l3 cfg)\<lparr>counters :=
          map (\<lambda>(i, un). un\<lparr>ct_softActivate := soft_activate lib y i (ct_softActivate un)\<rparr>)
            (enumerate CountersOffset (counters (l3 cfg)))\<rparr>\<rparr>)) cfg)"

definition apply_meta_info_yaml :: "yaml_lib \<Rightarrow> TriggerIO \<Rightarrow> string \<Rightarrow> TriggerIO result" where
  "apply_meta_info_yaml lib cfg metaYaml =
     result_bind (yaml_load lib metaYaml) (\<lambda>yRoot.
     if_defined (yaml_get yRoot ''names'') (\<lambda>yLevelNames.
       result_bind (apply_names lib yLevelNames cfg) (\<lambda>cfg.
       if_defined (yaml_get yRoot ''settings'') (\<lambda>ySettings. apply_settings lib ySettings cfg) cfg)) cfg)"

definition deserialize_trigger_io :: "yaml_lib \<Rightarrow> LevelWrites \<Rightarrow> string \<Rightarrow> TriggerIO result" where
  "deserialize_trigger_io lib lws metaYaml = apply_meta_info_yaml lib (trigger_io_from_writes lws) metaYaml"

definition deserialize_flat_writes :: "yaml_lib \<Rightarrow> WriteCommand list \<Rightarrow> string \<Rightarrow> TriggerIO result" where
  "deserialize_flat_writes lib writes metaYaml =
     result_bind (level_writes_from_flat_writes writes) (\<lambda>lws. deserialize_trigger_io lib lws metaYaml)"

section \<open>Steps that succeed\<close>

lemma then_step_ok [simp]: "f s = (s', True) \<Longrightarrow> then_step f g s = g s'"
  by (simp add: then_step_def)

lemma assign_simps [simp]: "assign (Some v) f s = (f v s, True)" "assign None f s = (s, False)"
  by (simp_all add: assign_def)

lemma steps_assign [simp]:
  "steps (assign (Some v) f # fs) s = steps fs (f v s)"
  "steps (assign None f # fs) s = (s, False)"
  by (simp_all add: then_step_def)

lemma in_member_ok: "f (get s) = (x, True) \<Longrightarrow> in_member get upd f s = (upd (\<lambda>_. x) s, True)"
  by (simp add: in_member_def)

lemma each_unit_ok:
  assumes "\<And>j. j < length xs \<Longrightarrow> f (i + j) (xs ! j) = (g j, True)"
  shows "each_unit f i xs = (map g [0..<length xs], True)"
  using assms
proof (induction xs arbitrary: i g)
  case (Cons x xs)
  have "each_unit f (Suc i) xs = (map (\<lambda>j. g (Suc j)) [0..<length xs], True)"
    by (rule Cons.IH) (use Cons.prems in force)
  moreover have "f i x = (g 0, True)" using Cons.prems [of 0] by simp
  ultimately show ?case by (simp add: map_upt_Suc del: upt_Suc)
qed simp

lemma step_for_snoc:
  "step_for f (xs @ [x]) s = (case step_for f xs s of (s', ok) \<Rightarrow> if ok then f x s' else (s', False))"
  by (induction xs arbitrary: s) (auto simp: step_for_def then_step_def split: prod.splits)

lemma step_for_ok:
  assumes "\<And>i s. i \<in> set xs \<Longrightarrow> f i s = (g i s, True)"
  shows "step_for f xs s = (fold g xs s, True)"
  using assms by (induction xs arbitrary: s) (simp_all add: step_for_def)

end
