(* ===== verification/Trigger_IO_Roundtrip.thy ===== *)
theory Trigger_IO_Roundtrip
  imports Trigger_IO_Deserialize
begin

text \<open>
  Deserializing the register writes of a serialized trigger I/O configuration. The
  script parts are first related to unit images, the registers of each unit in the
  order they are written. Grouping the writes gives the images back because no two
  units share a level and a number, and every unit is parsed from its image.
\<close>

section \<open>Unit images\<close>

type_synonym image = "(nat \<times> nat) \<times> (u16 \<times> u16) list"

fun part_regs :: "BasicPart \<Rightarrow> (u16 \<times> u16) list" where
  "part_regs (BasicWrite w) = [(rw_address w - UnitRegisterBase, rw_value w)]"
| "part_regs (BasicComment c) = []"

definition block_regs :: "BasicPart list \<Rightarrow> (u16 \<times> u16) list" where
  "block_regs ps = concat (map part_regs ps)"

fun part_writes :: "BasicPart \<Rightarrow> (u16 \<times> u16) list" where
  "part_writes (BasicWrite w) = [(rw_address w, rw_value w)]"
| "part_writes (BasicComment c) = []"

fun script_writes :: "ScriptPart \<Rightarrow> (u16 \<times> u16) list" where
  "script_writes (PartWrite w) = [(rw_address w, rw_value w)]"
| "script_writes (PartComment c) = []"
| "script_writes (PartBlock ub) = concat (map part_writes (ub_parts ub))"

definition image_writes :: "image \<Rightarrow> (u16 \<times> u16) list" where
  "image_writes im = (case im of ((lvl, un), rs) \<Rightarrow>
     (UnitSelectRegister, push_bit 8 (word_of_nat lvl) OR word_of_nat un) #
     map (\<lambda>(r, v). (UnitRegisterBase + r, v)) rs)"

lemma block_regs_simps [simp]:
  "block_regs [] = []" "block_regs (p # ps) = part_regs p @ block_regs ps"
  "block_regs (ps @ qs) = block_regs ps @ block_regs qs"
  by (simp_all add: block_regs_def)

lemma block_regs_writes:
  "concat (map part_writes ps) = map (\<lambda>(r, v). (UnitRegisterBase + r, v)) (block_regs ps)"
proof (induction ps)
  case (Cons p ps)
  then show ?case by (cases p) simp_all
qed simp

lemma script_writes_block:
  "script_writes (unit_block c (select_unit lvl un n # ps)) = image_writes ((lvl, un), block_regs ps)"
  by (simp add: unit_block_def select_unit_def register_write_def image_writes_def block_regs_writes)

lemma part_regs_simps [simp]:
  "part_regs (write_unit_reg reg v c o') = [(reg, v)]"
  "part_regs (write_connection off v n) = [(0x80 + off, v)]"
  "part_regs (write_strobe_connection off v n) = [(0x80 + off, v)]"
  by (simp_all add: write_unit_reg_def write_connection_def write_strobe_connection_def register_write_def)

lemma part_regs_prefix_comment [simp]: "part_regs (prefix_comment pre p) = part_regs p"
  by (cases p) simp_all

lemma block_regs_prefix_comment [simp]: "block_regs (map (prefix_comment pre) ps) = block_regs ps"
  by (simp add: block_regs_def comp_def)

lemma result_mapM_map_eq:
  assumes "result_mapM f xs = Inr ys" "\<And>x y. x \<in> set xs \<Longrightarrow> f x = Inr y \<Longrightarrow> h y = k x"
  shows "map h ys = map k xs"
  using assms by (induction xs arbitrary: ys) auto

text \<open>Connection values as they are written to the registers.\<close>

definition con_regs :: "nat \<Rightarrow> u32 list \<Rightarrow> (u16 \<times> u16) list" where
  "con_regs n cons = map (\<lambda>i. (0x80 + word_of_nat (i * 2), ucast (cons ! i))) [0..<n]"

lemma block_regs_connections:
  assumes "result_mapM f [0..<n] = Inr ps"
    and "\<And>i p. f i = Inr p \<Longrightarrow> part_regs p = [(0x80 + word_of_nat (i * 2), ucast (cons ! i))]"
  shows "block_regs ps = con_regs n cons"
proof -
  have "map part_regs ps = map (\<lambda>i. [(0x80 + word_of_nat (i * 2), ucast (cons ! i))]) [0..<n]"
    using assms by (rule result_mapM_map_eq)
  then show ?thesis by (simp add: block_regs_def con_regs_def)
qed

lemma connection_part_regs:
  "connection_part cfg choices off v = Inr p \<Longrightarrow> part_regs p = [(0x80 + off, ucast v)]"
  by (auto simp: connection_part_def)

lemma dynamic_inputs_regs:
  "dynamic_inputs cfg choices cons = Inr ps \<Longrightarrow> block_regs ps = con_regs 3 cons"
  unfolding dynamic_inputs_def by (rule block_regs_connections) (auto dest: connection_part_regs)

definition lut_regs :: "LUT_RAM \<Rightarrow> (u16 \<times> u16) list" where
  "lut_regs ram = map (\<lambda>(i, row). (word_of_nat (i * 2), row)) (enumerate 0 ram)"

lemma write_lut_regs: "write_lut lut = Inr ps \<Longrightarrow> \<exists>ram. make_lut_ram lut = Inr ram \<and> block_regs ps = lut_regs ram"
  by (auto simp: write_lut_def write_lut_ram_def lut_regs_def block_regs_def Let_def comp_def case_prod_beta
      map_concat)

definition l0_images :: "Level0 \<Rightarrow> image list" where
  "l0_images l =
     map (\<lambda>(i, un). ((0, i), block_regs (generate_Timer un))) (enumerate 0 (timers l)) @
     map (\<lambda>(i, un). ((0, i), block_regs (generate_TriggerResource un))) (enumerate 4 (triggerResources l)) @
     map (\<lambda>(i, un). ((0, i), block_regs (generate_StackBusy un))) (enumerate 12 (stackBusy l)) @
     map (\<lambda>(i, un). ((0, i), block_regs (generate_IO un NIM_IO_Flags 0))) (enumerate 16 (ioNIM l)) @
     map (\<lambda>(i, un). ((0, i), block_regs (generate_IO un 0 0))) (enumerate 33 (ioIRQ l))"

definition lut_rows :: "LUT \<Rightarrow> LUT_RAM" where
  "lut_rows lut = (case make_lut_ram lut of Inr ram \<Rightarrow> ram | Inl e \<Rightarrow> [])"

definition l1_images :: "TriggerIO \<Rightarrow> image list" where
  "l1_images cfg =
     map (\<lambda>(i, lut). ((1, i), lut_regs (lut_rows lut) @ (if i = 2 then con_regs 3 (lut2Connections (l1 cfg)) else [])))
       (enumerate 0 (l1_luts (l1 cfg)))"

definition l2_images :: "TriggerIO \<Rightarrow> image list" where
  "l2_images cfg =
     map (\<lambda>(i, lut). ((2, i), lut_regs (lut_rows lut) @ [(0x20, ucast (strobedOutputs lut))] @
         con_regs 3 (lutConnections (l2 cfg) ! i) @ block_regs (generate_IO (strobeGG lut) 0 StrobeGGIOOffset) @
         [(0x86, ucast (strobeConnections (l2 cfg) ! i))]))
       (enumerate 0 (l2_luts (l2 cfg)))"

definition l3_image :: "TriggerIO \<Rightarrow> nat \<Rightarrow> BasicPart list \<Rightarrow> nat \<Rightarrow> image" where
  "l3_image cfg n ps u = ((3, u), block_regs ps @ con_regs n (connections (l3 cfg) ! u))"

definition l3_images :: "TriggerIO \<Rightarrow> image list" where
  "l3_images cfg =
     map (\<lambda>(i, un). l3_image cfg 1 (generate_StackStart un) i) (enumerate 0 (stackStart (l3 cfg))) @
     map (\<lambda>(i, un). l3_image cfg 1 (generate_MasterTrigger un) i) (enumerate 4 (masterTriggers (l3 cfg))) @
     map (\<lambda>(i, un). l3_image cfg 2 (generate_Counter un) i) (enumerate 8 (counters (l3 cfg))) @
     map (\<lambda>nim. l3_image cfg 1 [] (nim + 16)) [0..<14] @
     map (\<lambda>(i, un). l3_image cfg 1 (generate_IO un ECL_IO_Flags 0) i) (enumerate 30 (ioECL (l3 cfg)))"

definition images :: "TriggerIO \<Rightarrow> image list" where
  "images cfg = l0_images (l0 cfg) @ l1_images cfg @ l2_images cfg @ l3_images cfg"

lemma level0_parts_images: "map script_writes (level0_parts l) = map image_writes (l0_images l)"
  by (simp add: level0_parts_def l0_images_def l0_block_def script_writes_block comp_def case_prod_beta)

lemma l1_lut_part_image:
  "l1_lut_part cfg (i, lut) = Inr p \<Longrightarrow>
   script_writes p = image_writes ((1, i), lut_regs (lut_rows lut) @
     (if i = 2 then con_regs 3 (lut2Connections (l1 cfg)) else []))"
  by (auto simp: l1_lut_part_def script_writes_block lut_rows_def split: if_splits
      dest!: write_lut_regs dynamic_inputs_regs)

lemma l2_lut_part_image:
  "l2_lut_part cfg (i, lut) = Inr p \<Longrightarrow>
   script_writes p = image_writes ((2, i), lut_regs (lut_rows lut) @ [(0x20, ucast (strobedOutputs lut))] @
     con_regs 3 (lutConnections (l2 cfg) ! i) @ block_regs (generate_IO (strobeGG lut) 0 StrobeGGIOOffset) @
     [(0x86, ucast (strobeConnections (l2 cfg) ! i))])"
  by (auto simp: l2_lut_part_def script_writes_block lut_rows_def Let_def dest!: write_lut_regs dynamic_inputs_regs)

lemma l3_block_image: "l3_block cfg u n ps = Inr p \<Longrightarrow> script_writes p = image_writes (l3_image cfg n ps u)"
proof -
  assume "l3_block cfg u n ps = Inr p"
  then obtain cs where cs: "p = unit_block (Level3_DefaultUnitNames ! u) (select_unit 3 u [] # ps @ cs)"
    "result_mapM (\<lambda>input. result_bind (index_ub (connections (l3 cfg) ! u) input)
       (connection_part cfg (DynamicInputChoiceLists ! u ! input) (word_of_nat (input * 2)))) [0..<n] = Inr cs"
    by (auto simp: l3_block_def)
  from cs(2) have "block_regs cs = con_regs n (connections (l3 cfg) ! u)"
    by (rule block_regs_connections)
      (auto simp: index_ub_def dest!: connection_part_regs split: if_splits)
  with cs(1) show ?thesis by (simp add: script_writes_block l3_image_def)
qed

lemma level3_units_images:
  "level3_units cfg = Inr us \<Longrightarrow> level3_outputs cfg = Inr os \<Longrightarrow>
   concat (map script_writes (us @ os)) = concat (map image_writes (l3_images cfg))"
proof -
  assume "level3_units cfg = Inr us" "level3_outputs cfg = Inr os"
  then obtain a b c d e where p:
    "result_mapM (\<lambda>(i, un). l3_block cfg i 1 (generate_StackStart un)) (enumerate 0 (stackStart (l3 cfg))) = Inr a"
    "result_mapM (\<lambda>(i, un). l3_block cfg i 1 (generate_MasterTrigger un)) (enumerate 4 (masterTriggers (l3 cfg))) = Inr b"
    "result_mapM (\<lambda>(i, un). l3_block cfg i 2 (generate_Counter un)) (enumerate 8 (counters (l3 cfg))) = Inr c"
    "result_mapM (\<lambda>nim. l3_block cfg (nim + 16) 1 []) [0..<14] = Inr d"
    "result_mapM (\<lambda>(i, un). l3_block cfg i 1 (generate_IO un ECL_IO_Flags 0)) (enumerate 30 (ioECL (l3 cfg))) = Inr e"
    and us: "us = a @ b @ c" "\<exists>cm. os = PartComment cm # d @ e"
    by (auto simp: level3_units_def level3_outputs_def)
  have "map script_writes a = map (\<lambda>x. image_writes (case x of (i, un) \<Rightarrow> l3_image cfg 1 (generate_StackStart un) i))
      (enumerate 0 (stackStart (l3 cfg)))"
    by (rule result_mapM_map_eq [OF p(1)]) (auto dest!: l3_block_image)
  moreover have "map script_writes b = map (\<lambda>x. image_writes (case x of (i, un) \<Rightarrow> l3_image cfg 1 (generate_MasterTrigger un) i))
      (enumerate 4 (masterTriggers (l3 cfg)))"
    by (rule result_mapM_map_eq [OF p(2)]) (auto dest!: l3_block_image)
  moreover have "map script_writes c = map (\<lambda>x. image_writes (case x of (i, un) \<Rightarrow> l3_image cfg 2 (generate_Counter un) i))
      (enumerate 8 (counters (l3 cfg)))"
    by (rule result_mapM_map_eq [OF p(3)]) (auto dest!: l3_block_image)
  moreover have "map script_writes d = map (\<lambda>nim. image_writes (l3_image cfg 1 [] (nim + 16))) [0..<14]"
    by (rule result_mapM_map_eq [OF p(4)]) (auto dest!: l3_block_image)
  moreover have "map script_writes e = map (\<lambda>x. image_writes (case x of (i, un) \<Rightarrow> l3_image cfg 1 (generate_IO un ECL_IO_Flags 0) i))
      (enumerate 30 (ioECL (l3 cfg)))"
    by (rule result_mapM_map_eq [OF p(5)]) (auto dest!: l3_block_image)
  ultimately show ?thesis using us by (auto simp: l3_images_def comp_def simp del: upt_rec_numeral)
qed

lemma parts_images:
  assumes "generate_trigger_io_parts cfg = Inr parts"
  shows "concat (map script_writes parts) = concat (map image_writes (images cfg))"
proof -
  from assms obtain lv1 lv2 us os where p:
    "result_mapM (l1_lut_part cfg) (enumerate 0 (l1_luts (l1 cfg))) = Inr lv1"
    "result_mapM (l2_lut_part cfg) (enumerate 0 (l2_luts (l2 cfg))) = Inr lv2"
    "level3_units cfg = Inr us" "level3_outputs cfg = Inr os"
    and parts: "parts = level_comment 0 # level0_parts (l0 cfg) @ level_comment 1 # lv1 @ level_comment 2 # lv2 @
         level_comment 3 # us @ os"
    by (auto simp: generate_trigger_io_parts_def)
  have "map script_writes lv1 = map image_writes (l1_images cfg)"
    unfolding l1_images_def map_map
    by (rule result_mapM_map_eq [OF p(1)]) (auto simp: comp_def simp del: append_assoc dest!: l1_lut_part_image)
  moreover have "map script_writes lv2 = map image_writes (l2_images cfg)"
    unfolding l2_images_def map_map
    by (rule result_mapM_map_eq [OF p(2)]) (auto simp: comp_def dest!: l2_lut_part_image)
  moreover have "script_writes (level_comment l) = []" for l by (simp add: level_comment_def)
  ultimately show ?thesis
    using level3_units_images [OF p(3,4)] by (simp add: parts images_def level0_parts_images)
qed

section \<open>Grouping the writes of images\<close>

definition write_command :: "u16 \<times> u16 \<Rightarrow> WriteCommand" where
  "write_command = (\<lambda>(a, v). \<lparr>wc_address = ucast a, wc_value = ucast v\<rparr>)"

definition regs_map :: "(u16 \<times> u16) list \<Rightarrow> RegisterWrites \<Rightarrow> RegisterWrites" where
  "regs_map rs m = fold (\<lambda>(r, v) m. m(r \<mapsto> v)) rs m"

text \<open>Register offsets are small, so that no address wraps around.\<close>

definition image_ok :: "image \<Rightarrow> bool" where
  "image_ok im = (case im of ((lvl, un), rs) \<Rightarrow>
     lvl < 4 \<and> un < 256 \<and> rs \<noteq> [] \<and> list_all (\<lambda>(r, v). r \<le> 0x86) rs)"

lemma flat_write_select:
  assumes "lvl < 4" "un < 256"
  shows "flat_write_step (write_command (UnitSelectRegister, push_bit 8 (word_of_nat lvl) OR word_of_nat un)) (lws, a, b) =
    Inr (lws, word_of_nat lvl, word_of_nat un)"
proof -
  have un: "word_of_nat un = (take_bit 8 (word_of_nat un) :: u16)"
    using assms by (intro take_bit_word_self [symmetric]) (simp add: unat_of_nat)
  have lvl: "word_of_nat lvl = (take_bit 8 (word_of_nat lvl) :: u16)"
    using assms by (intro take_bit_word_self [symmetric]) (simp add: unat_of_nat)
  define L :: u16 where "L = word_of_nat lvl"
  define U :: u16 where "U = word_of_nat un"
  have L: "bit L n \<Longrightarrow> n < 8" for n using lvl by (metis L_def bit_take_bit_iff)
  have U: "bit U n \<Longrightarrow> n < 8" for n using un by (metis U_def bit_take_bit_iff)
  have "ucast (drop_bit 8 (ucast (push_bit 8 L OR U) :: u32) AND 0xFF) = L"
    "ucast ((ucast (push_bit 8 L OR U) :: u32) AND 0xFF) = U"
    unfolding and_low_mask by (auto intro!: bit_word_eqI simp: bit_simps dest: L U)
  then show ?thesis by (simp add: flat_write_step_def write_command_def L_def U_def)
qed

lemma flat_write_reg:
  assumes "r \<le> 0x86" "l < length lws" "l < 4"
  shows "flat_write_step (write_command (UnitRegisterBase + r, v)) (lws, word_of_nat l, un) =
    Inr (lws[l := (lws ! l)(un \<mapsto> (case (lws ! l) un of Some rs \<Rightarrow> rs | None \<Rightarrow> Map.empty)(r \<mapsto> v))], word_of_nat l, un)"
proof -
  have r: "unat r \<le> 0x86" using assms(1) by (simp add: word_le_nat_alt)
  have u: "unat (0x300 + r) = 0x300 + unat r"
    using r by (simp add: unat_word_ariths)
  have a: "unat (ucast (0x300 + r) :: u32) = 0x300 + unat r" unfolding unsigned_ucast_eq u using r by (simp add: take_bit_nat_eq_self)
  have "(ucast (0x300 + r) :: u32) \<noteq> 0x200" "0x300 \<le> (ucast (0x300 + r) :: u32)"
    using a by (auto simp: word_le_nat_alt)
  moreover have "ucast ((ucast (0x300 + r) :: u32) - 0x300) = r"
  proof -
    have "(ucast (0x300 + r) :: u32) - 0x300 = ucast r"
      by (rule word_unat_eq_iff [THEN iffD2])
        (use a r in \<open>simp add: unat_sub_if' unsigned_ucast_eq take_bit_nat_eq_self\<close>)
    then show ?thesis by (simp add: ucast_up_ucast_id is_up)
  qed
  moreover have "unat (word_of_nat l :: u16) = l" using assms(3) by (simp add: unat_of_nat)
  ultimately show ?thesis
    using assms(2) by (simp add: flat_write_step_def write_command_def level_write_def Let_def ucast_up_ucast_id is_up)
qed

lemma flat_write_regs:
  assumes "list_all (\<lambda>(r, v). r \<le> 0x86) rs" "l < length lws" "l < 4" "(lws ! l) un = Some m"
  shows "result_foldM flat_write_step (map write_command (map (\<lambda>(r, v). (UnitRegisterBase + r, v)) rs))
      (lws, word_of_nat l, un) =
    Inr (lws[l := (lws ! l)(un \<mapsto> regs_map rs m)], word_of_nat l, un)"
  using assms
proof (induction rs arbitrary: lws m)
  case Nil
  then have "(lws ! l)(un \<mapsto> m) = lws ! l" by auto
  then show ?case by (simp add: regs_map_def)
next
  case (Cons x rs)
  obtain r v where x: "x = (r, v)" by (cases x)
  have "flat_write_step (write_command (UnitRegisterBase + r, v)) (lws, word_of_nat l, un) =
      Inr (lws[l := (lws ! l)(un \<mapsto> m(r \<mapsto> v))], word_of_nat l, un)"
    using flat_write_reg [of r l lws v un] Cons.prems x by simp
  moreover have "result_foldM flat_write_step (map write_command (map (\<lambda>(r, v). (UnitRegisterBase + r, v)) rs))
      (lws[l := (lws ! l)(un \<mapsto> m(r \<mapsto> v))], word_of_nat l, un) =
    Inr (lws[l := (lws ! l)(un \<mapsto> regs_map rs (m(r \<mapsto> v)))], word_of_nat l, un)"
    using Cons.prems by (subst Cons.IH) simp_all
  ultimately show ?case by (simp add: x regs_map_def fun_upd_def)
qed

lemma flat_write_image:
  assumes "image_ok ((l, u), rs)" "length lws = 4" "(lws ! l) (word_of_nat u) = None"
  shows "result_foldM flat_write_step (map write_command (image_writes ((l, u), rs))) (lws, a, b) =
    Inr (lws[l := (lws ! l)(word_of_nat u \<mapsto> regs_map rs Map.empty)], word_of_nat l, word_of_nat u)"
proof -
  from assms(1) obtain r v rs' where rs: "rs = (r, v) # rs'" and ok: "l < 4" "u < 256" "r \<le> 0x86"
    "list_all (\<lambda>(r, v). r \<le> 0x86) rs'"
    by (cases rs) (auto simp: image_ok_def)
  let ?lws = "lws[l := (lws ! l)(word_of_nat u \<mapsto> Map.empty(r \<mapsto> v))]"
  have "flat_write_step (write_command (UnitRegisterBase + r, v)) (lws, word_of_nat l, word_of_nat u) =
      Inr (?lws, word_of_nat l, word_of_nat u)"
    using flat_write_reg [of r l lws v "word_of_nat u"] ok assms(2,3) by simp
  moreover have "result_foldM flat_write_step (map write_command (map (\<lambda>(r, v). (UnitRegisterBase + r, v)) rs'))
      (?lws, word_of_nat l, word_of_nat u) =
    Inr (lws[l := (lws ! l)(word_of_nat u \<mapsto> regs_map rs' (Map.empty(r \<mapsto> v)))], word_of_nat l, word_of_nat u)"
    using flat_write_regs [OF ok(4), of l ?lws "word_of_nat u" "Map.empty(r \<mapsto> v)"] ok assms(2) by simp
  ultimately show ?thesis
    by (simp add: image_writes_def rs flat_write_select [OF ok(1,2)] regs_map_def)
qed

lemma flat_write_images:
  assumes "list_all image_ok ims" "length lws = 4" "distinct (map fst ims)"
    "\<And>l u. (l, u) \<in> fst ` set ims \<Longrightarrow> (lws ! l) (word_of_nat u) = None"
  shows "\<exists>lws' a' b'. result_foldM flat_write_step (map write_command (concat (map image_writes ims))) (lws, a, b) =
      Inr (lws', a', b') \<and> length lws' = 4 \<and>
      (\<forall>l < 4. \<forall>u < 256. (lws' ! l) (word_of_nat u) =
        (case map_of ims (l, u) of Some rs \<Rightarrow> Some (regs_map rs Map.empty) | None \<Rightarrow> (lws ! l) (word_of_nat u)))"
  using assms
proof (induction ims arbitrary: lws a b)
  case (Cons im ims)
  obtain l u rs where im: "im = ((l, u), rs)" by (metis surj_pair)
  let ?lws = "lws[l := (lws ! l)(word_of_nat u \<mapsto> regs_map rs Map.empty)]"
  have ok: "image_ok ((l, u), rs)" "l < 4" "u < 256" using Cons.prems(1) im by (auto simp: image_ok_def)
  have inj: "word_of_nat u' = (word_of_nat u :: u16) \<longleftrightarrow> u' = u" if "u' < 256" for u'
    using that ok(3) by (simp add: word_of_nat_eq_iff take_bit_nat_eq_self)
  have None: "(?lws ! l') (word_of_nat u') = None" if "(l', u') \<in> fst ` set ims" for l' u'
  proof -
    have "u' < 256" using that Cons.prems(1) by (auto simp: list_all_iff image_ok_def)
    moreover have "(l', u') \<noteq> (l, u)" using that Cons.prems(3) im by auto
    ultimately show ?thesis
      using Cons.prems(2) Cons.prems(4) [of l' u'] that inj ok(2) by (cases "l' = l") auto
  qed
  have prems: "list_all image_ok ims" "length ?lws = 4" "distinct (map fst ims)" using Cons.prems(1-3) by simp_all
  from Cons.IH [where a = "word_of_nat l" and b = "word_of_nat u", OF prems None] obtain lws' a' b' where IH:
    "result_foldM flat_write_step (map write_command (concat (map image_writes ims))) (?lws, word_of_nat l, word_of_nat u) =
      Inr (lws', a', b')" "length lws' = 4"
    "\<forall>l' < 4. \<forall>u' < 256. (lws' ! l') (word_of_nat u') =
        (case map_of ims (l', u') of Some rs \<Rightarrow> Some (regs_map rs Map.empty) | None \<Rightarrow> (?lws ! l') (word_of_nat u'))"
    by blast
  have "map_of ims (l, u) = None"
    using Cons.prems(3) im by (simp add: map_of_eq_None_iff)
  then have "(lws' ! l') (word_of_nat u') =
        (case map_of (im # ims) (l', u') of Some rs \<Rightarrow> Some (regs_map rs Map.empty) | None \<Rightarrow> (lws ! l') (word_of_nat u'))"
    if "l' < 4" "u' < 256" for l' u'
    using IH(3) that inj [of u'] Cons.prems(2) im by (cases "l' = l") (auto split: option.splits)
  then show ?case
    using IH(1,2) flat_write_image [OF ok(1) Cons.prems(2), of a b] Cons.prems(4) [of l u] im by auto
qed simp

lemma level_writes_images:
  assumes "list_all image_ok ims" "distinct (map fst ims)"
  shows "\<exists>lws. level_writes_from_flat_writes (map write_command (concat (map image_writes ims))) = Inr lws \<and>
    (\<forall>l < 4. \<forall>u < 256. (lws ! l) (word_of_nat u) = map_option (\<lambda>rs. regs_map rs Map.empty) (map_of ims (l, u)))"
proof -
  let ?none = "replicate 4 Map.empty :: LevelWrites"
  have "\<exists>lws a b. result_foldM flat_write_step (map write_command (concat (map image_writes ims))) (?none, 0, 0) =
      Inr (lws, a, b) \<and> length lws = 4 \<and>
      (\<forall>l < 4. \<forall>u < 256. (lws ! l) (word_of_nat u) =
        (case map_of ims (l, u) of Some rs \<Rightarrow> Some (regs_map rs Map.empty) | None \<Rightarrow> (?none ! l) (word_of_nat u)))"
  proof (rule flat_write_images [OF assms(1) _ assms(2)])
    show "(?none ! l) (word_of_nat u) = None" if "(l, u) \<in> fst ` set ims" for l u
      using that assms(1) by (auto simp: list_all_iff image_ok_def)
  qed simp
  then obtain lws a b where
    "result_foldM flat_write_step (map write_command (concat (map image_writes ims))) (?none, 0, 0) = Inr (lws, a, b)"
    "\<forall>l < 4. \<forall>u < 256. (lws ! l) (word_of_nat u) =
        (case map_of ims (l, u) of Some rs \<Rightarrow> Some (regs_map rs Map.empty) | None \<Rightarrow> (?none ! l) (word_of_nat u))"
    by (elim exE conjE) (rule that)
  then show ?thesis
    by (auto simp: level_writes_from_flat_writes_def split: option.splits)
qed

section \<open>Lookup tables\<close>

lemma lut_ram_value_bits:
  assumes "length (lutContents lut) = 3"
  shows "lut_ram_value lut a < 8"
    and "out < 3 \<Longrightarrow> drop_bit out (ucast (lut_ram_value lut a) :: u8) AND 1 \<noteq> 0 \<longleftrightarrow> bit (lutContents lut ! out) a"
proof -
  have v: "lut_ram_value lut a = (if bit (lutContents lut ! 0) a then 1 else 0) OR
      (if bit (lutContents lut ! 1) a then 2 else 0) OR (if bit (lutContents lut ! 2) a then 4 else 0)"
    by (auto simp: lut_ram_value_def assms upt_rec numeral_2_eq_2)
  show "lut_ram_value lut a < 8" unfolding v by simp
  show "drop_bit out (ucast (lut_ram_value lut a) :: u8) AND 1 \<noteq> 0 \<longleftrightarrow> bit (lutContents lut ! out) a" if out: "out < 3"
  proof -
    consider "out = 0" | "out = 1" | "out = 2" using out by linarith
    then show ?thesis unfolding v by cases simp_all
  qed
qed

lemma make_lut_ram_ok:
  assumes "length (lutContents lut) = 3"
  shows "\<exists>ram. make_lut_ram lut = Inr ram \<and> length ram = 16 \<and>
    (\<forall>a < 64. lut_lookup ram (word_of_nat a) = Inr (ucast (lut_ram_value lut a)))"
proof -
  have valid: "ucast (lut_ram_value lut a) \<le> (7 :: u8)" for a
  proof -
    have "unat (lut_ram_value lut a) \<le> 7"
      using lut_ram_value_bits(1) [OF assms, of a] by (simp add: word_less_nat_alt)
    then show ?thesis by (simp add: word_le_nat_alt unsigned_ucast_eq take_bit_nat_eq_self)
  qed
  have "make_lut_ram lut =
      result_foldM (\<lambda>a ram. lut_set ram (word_of_nat a) (ucast (lut_ram_value lut a))) [0..<64] (replicate 16 0)"
    unfolding make_lut_ram_def using lut_ram_value_bits(1) [OF assms] by (simp add: not_le [symmetric])
  with lut_ram.store_all [of "replicate 16 0" "\<lambda>a. ucast (lut_ram_value lut a)"] valid
  show ?thesis by simp
qed

lemma regs_map_append [simp]: "regs_map (xs @ ys) m = regs_map ys (regs_map xs m)"
  by (simp add: regs_map_def)

lemma regs_map_simps [simp]:
  "regs_map [] m = m" "regs_map ((r, v) # rs) m = regs_map rs (m(r \<mapsto> v))"
  by (simp_all add: regs_map_def)

lemma regs_map_other: "r \<notin> fst ` set rs \<Longrightarrow> regs_map rs m r = m r"
  by (induction rs arbitrary: m) (auto simp: regs_map_def)

lemma regs_map_distinct: "distinct (map fst rs) \<Longrightarrow> (r, v) \<in> set rs \<Longrightarrow> regs_map rs m r = Some v"
  by (induction rs arbitrary: m) (auto simp: regs_map_other rev_image_eqI)


lemma lut_regs_lookup:
  assumes "length ram = 16" "i < 16"
  shows "regs_map (lut_regs ram) m (word_of_nat (i * 2)) = Some (ram ! i)"
proof (rule regs_map_distinct)
  have "map fst (lut_regs ram) = map (\<lambda>i. word_of_nat (i * 2)) [0..<16]"
    using assms(1) by (intro nth_equalityI) (simp_all add: lut_regs_def nth_enumerate_eq)
  moreover have "distinct (map (\<lambda>i. word_of_nat (i * 2) :: u16) [0..<16])" by code_simp
  ultimately show "distinct (map fst (lut_regs ram))" by simp
  show "(word_of_nat (i * 2), ram ! i) \<in> set (lut_regs ram)"
    using assms by (auto simp: lut_regs_def in_set_enumerate_eq image_iff Bex_def)
qed

lemma lut_regs_bound: "length ram = 16 \<Longrightarrow> r \<in> fst ` set (lut_regs ram) \<Longrightarrow> r \<le> 0x1E"
proof -
  assume "length ram = 16" "r \<in> fst ` set (lut_regs ram)"
  then obtain i where "i < 16" "r = word_of_nat (i * 2)"
    by (auto simp: lut_regs_def in_set_enumerate_eq)
  moreover from this have "i * 2 \<le> 0x1E" by simp
  ultimately show ?thesis by (simp add: word_le_nat_alt unat_of_nat del: of_nat_mult)
qed

lemma parse_lut_ram_image:
  assumes "length ram = 16" "\<And>i. i < 16 \<Longrightarrow> rs (word_of_nat (i * 2)) = Some (ram ! i)"
  shows "parse_lut_ram rs = ram"
proof -
  have "fold (\<lambda>line m. case rs (word_of_nat (line * 2)) of Some v \<Rightarrow> m[line := v] | None \<Rightarrow> m) [0..<16] (replicate 16 0) =
      fold (\<lambda>line m. m[line := (\<lambda>i _. ram ! i) line (m ! line)]) [0..<16] (replicate 16 (0 :: u16))"
    using assms(2) by (intro fold_cong) simp_all
  then show ?thesis
    using fold_update_nth [where n = 16 and xs = "replicate 16 (0 :: u16)" and g = "\<lambda>i _. ram ! i"] assms(1)
    by (intro nth_equalityI) (simp_all add: parse_lut_ram_def)
qed

definition contents_read :: "LUT \<Rightarrow> nat \<Rightarrow> LUT \<Rightarrow> bool" where
  "contents_read lut k s \<longleftrightarrow> s\<lparr>lutContents := []\<rparr> = LUT_init\<lparr>lutContents := []\<rparr> \<and> length (lutContents s) = 3 \<and>
     (\<forall>out < 3. \<forall>a < 64. bit (lutContents s ! out) a \<longleftrightarrow> a < k \<and> bit (lutContents lut ! out) a)"

lemma fold_lut_assign_bit:
  "fold (\<lambda>out. lut_assign_bit out k (b out)) xs s =
   s\<lparr>lutContents := fold (\<lambda>out ws. ws[out := (if b out then set_bit else unset_bit) k (ws ! out)]) xs (lutContents s)\<rparr>"
  by (induction xs arbitrary: s) (simp_all add: lut_assign_bit_def)

lemma parse_lut_address_step:
  assumes "length (lutContents lut) = 3" "k < 64" "contents_read lut k s"
    "lut_lookup ram (word_of_nat k) = Inr (ucast (lut_ram_value lut k))"
  shows "\<exists>s'. parse_lut_address ram k s = Inr s' \<and> contents_read lut (Suc k) s'"
proof -
  define b where "b = (\<lambda>out. bit (lutContents lut ! out) k)"
  define ws where "ws = fold (\<lambda>out ws. ws[out := (\<lambda>out. (if b out then set_bit else unset_bit) k) out (ws ! out)]) [0..<3] (lutContents s)"
  have len: "length (lutContents s) = 3" using assms(3) by (simp add: contents_read_def)
  have "fold (\<lambda>out. lut_assign_bit out k (drop_bit out (ucast (lut_ram_value lut k) :: u8) AND 1 \<noteq> 0)) [0..<3] s =
      fold (\<lambda>out. lut_assign_bit out k (b out)) [0..<3] s"
    by (rule fold_cong) (simp_all add: lut_ram_value_bits(2) [OF assms(1)] b_def del: upt_rec_numeral)
  then have "parse_lut_address ram k s = Inr (s\<lparr>lutContents := ws\<rparr>)"
    by (simp add: parse_lut_address_def assms(4) fold_lut_assign_bit ws_def del: upt_rec_numeral)
  moreover have "length ws = 3" "\<And>out. out < 3 \<Longrightarrow> ws ! out = (if b out then set_bit else unset_bit) k (lutContents s ! out)"
    using fold_update_nth [where n = 3 and xs = "lutContents s" and g = "\<lambda>out. (if b out then set_bit else unset_bit) k"] len
    by (simp_all add: ws_def del: upt_rec_numeral)
  then have "contents_read lut (Suc k) (s\<lparr>lutContents := ws\<rparr>)"
    using assms(2,3) by (auto simp: contents_read_def less_Suc_eq b_def bit_set_bit_iff bit_unset_bit_iff)
  ultimately show ?thesis by blast
qed

lemma parse_lut_contents:
  assumes "length (lutContents lut) = 3"
    "\<And>a. a < 64 \<Longrightarrow> lut_lookup ram (word_of_nat a) = Inr (ucast (lut_ram_value lut a))"
  shows "result_foldM (parse_lut_address ram) [0..<64] LUT_init = Inr (LUT_init\<lparr>lutContents := lutContents lut\<rparr>)"
proof -
  have "\<exists>s'. result_foldM (parse_lut_address ram) [0..<64] LUT_init = Inr s' \<and> contents_read lut 64 s'"
  proof (rule result_foldM_upt_invariant)
    have "bit (replicate 3 (0::u64) ! out) a = False" if "out < 3" for out a using that by simp
    then show "contents_read lut 0 LUT_init" by (auto simp: contents_read_def LUT_init_def)
    show "\<exists>s'. parse_lut_address ram i s = Inr s' \<and> contents_read lut (Suc i) s'"
      if "i < 64" "contents_read lut i s" for i s
      using parse_lut_address_step [OF assms(1) that] assms(2) [OF that(1)] by blast
  qed
  then obtain s' where s': "result_foldM (parse_lut_address ram) [0..<64] LUT_init = Inr s'" "contents_read lut 64 s'"
    by blast
  have "lutContents s' = lutContents lut"
    using s'(2) assms(1)
    by (intro nth_equalityI) (auto simp: contents_read_def intro!: bit_word_eqI)
  moreover have "s'\<lparr>lutContents := []\<rparr> = LUT_init\<lparr>lutContents := []\<rparr>" using s'(2) by (simp add: contents_read_def)
  ultimately have "s' = LUT_init\<lparr>lutContents := lutContents lut\<rparr>"
    by (cases s') (simp add: LUT_init_def)
  with s'(1) show ?thesis by simp
qed

text \<open>What is read back of a gate generator without direction and activation registers.\<close>

definition plain_io :: "IO \<Rightarrow> IO" where
  "plain_io io = io\<lparr>io_direction := 0, io_activate := False\<rparr>"

definition parsed_lut :: "LUT \<Rightarrow> 3 word \<Rightarrow> IO \<Rightarrow> LUT" where
  "parsed_lut lut strobed gg =
     LUT_init\<lparr>lutContents := lutContents lut, strobedOutputs := strobed,
       strobeGG := (if io_width gg = 0 then gg\<lparr>io_width := 8\<rparr> else gg)\<rparr>"

lemma parse_lut_image:
  assumes "length (lutContents lut) = 3"
    and "\<And>i. i < 16 \<Longrightarrow> rs (word_of_nat (i * 2)) = Some (lut_rows lut ! i)"
    and "rs 0x20 = s" "parse_io rs 0x32 = gg"
  shows "parse_lut rs = Inr (parsed_lut lut (case s of Some v \<Rightarrow> ucast v | None \<Rightarrow> 0) gg)"
proof -
  obtain ram where ram: "make_lut_ram lut = Inr ram" "length ram = 16"
    "\<And>a. a < 64 \<Longrightarrow> lut_lookup ram (word_of_nat a) = Inr (ucast (lut_ram_value lut a))"
    using make_lut_ram_ok [OF assms(1)] by blast
  have "parse_lut_ram rs = ram"
    using assms(2) ram(1,2) by (intro parse_lut_ram_image) (simp_all add: lut_rows_def)
  then have "result_foldM (parse_lut_address (parse_lut_ram rs)) [0..<64] LUT_init = Inr (LUT_init\<lparr>lutContents := lutContents lut\<rparr>)"
    using parse_lut_contents [OF assms(1) ram(3)] by simp
  then show ?thesis
    unfolding parse_lut_def assms(3,4) by (simp add: parsed_lut_def LUT_init_def Let_def split: option.splits)
qed

section \<open>Images of a configuration\<close>

lemma map_of_enumerate:
  "map_of (map (\<lambda>(i, x). ((lvl, i), f i x)) (enumerate off xs)) (l, u) =
   (if l = lvl \<and> off \<le> u \<and> u < off + length xs then Some (f u (xs ! (u - off))) else None)"
proof (induction xs arbitrary: off)
  case (Cons x xs)
  show ?case
  proof (cases "l = lvl \<and> u = off")
    case False
    then have "map_of (map (\<lambda>(i, x). ((lvl, i), f i x)) (enumerate off (x # xs))) (l, u) =
        map_of (map (\<lambda>(i, x). ((lvl, i), f i x)) (enumerate (Suc off) xs)) (l, u)"
      by auto
    also have "\<dots> = (if l = lvl \<and> Suc off \<le> u \<and> u < Suc off + length xs then Some (f u (xs ! (u - Suc off))) else None)"
      by (rule Cons.IH)
    also have "\<dots> = (if l = lvl \<and> off \<le> u \<and> u < off + length (x # xs) then Some (f u ((x # xs) ! (u - off))) else None)"
      using False by (cases "l = lvl"; cases "Suc off \<le> u") (simp_all add: nth_Cons')
    finally show ?thesis .
  qed simp
qed simp

lemma map_of_upt:
  "map_of (map (\<lambda>n. ((lvl, n + off), f n)) [0..<k]) (l, u) =
   (if l = lvl \<and> off \<le> u \<and> u < off + k then Some (f (u - off)) else None)"
  by (induction k) (auto simp: map_add_def split: option.splits)

lemmas image_lookup = images_def l0_images_def l1_images_def l2_images_def l3_images_def l3_image_def
  map_of_enumerate map_of_upt map_add_def wf_TriggerIO_def

lemma images_lookup0:
  assumes "wf_TriggerIO cfg"
  shows "j < 4 \<Longrightarrow> map_of (images cfg) (0, j) = Some (block_regs (generate_Timer (timers (l0 cfg) ! j)))"
    "j < 8 \<Longrightarrow> map_of (images cfg) (0, 4 + j) = Some (block_regs (generate_TriggerResource (triggerResources (l0 cfg) ! j)))"
    "j < 2 \<Longrightarrow> map_of (images cfg) (0, 12 + j) = Some (block_regs (generate_StackBusy (stackBusy (l0 cfg) ! j)))"
    "j < 14 \<Longrightarrow> map_of (images cfg) (0, 16 + j) = Some (block_regs (generate_IO (ioNIM (l0 cfg) ! j) NIM_IO_Flags 0))"
    "j < 6 \<Longrightarrow> map_of (images cfg) (0, 33 + j) = Some (block_regs (generate_IO (ioIRQ (l0 cfg) ! j) 0 0))"
  using assms by (simp_all add: image_lookup del: upt_rec_numeral)

lemma images_lookup12:
  assumes "wf_TriggerIO cfg"
  shows "j < 7 \<Longrightarrow> map_of (images cfg) (1, j) = Some (lut_regs (lut_rows (l1_luts (l1 cfg) ! j)) @
      (if j = 2 then con_regs 3 (lut2Connections (l1 cfg)) else []))"
    "j < 3 \<Longrightarrow> map_of (images cfg) (2, j) = Some (lut_regs (lut_rows (l2_luts (l2 cfg) ! j)) @
      [(0x20, ucast (strobedOutputs (l2_luts (l2 cfg) ! j)))] @ con_regs 3 (lutConnections (l2 cfg) ! j) @
      block_regs (generate_IO (strobeGG (l2_luts (l2 cfg) ! j)) 0 StrobeGGIOOffset) @
      [(0x86, ucast (strobeConnections (l2 cfg) ! j))])"
  using assms by (simp_all add: image_lookup del: upt_rec_numeral)

lemma images_lookup3:
  assumes "wf_TriggerIO cfg"
  shows "j < 4 \<Longrightarrow> map_of (images cfg) (3, j) = Some (block_regs (generate_StackStart (stackStart (l3 cfg) ! j)) @ con_regs 1 (connections (l3 cfg) ! j))"
    "j < 4 \<Longrightarrow> map_of (images cfg) (3, 4 + j) = Some (block_regs (generate_MasterTrigger (masterTriggers (l3 cfg) ! j)) @ con_regs 1 (connections (l3 cfg) ! (4 + j)))"
    "j < 8 \<Longrightarrow> map_of (images cfg) (3, 8 + j) = Some (block_regs (generate_Counter (counters (l3 cfg) ! j)) @ con_regs 2 (connections (l3 cfg) ! (8 + j)))"
    "j < 14 \<Longrightarrow> map_of (images cfg) (3, 16 + j) = Some (con_regs 1 (connections (l3 cfg) ! (16 + j)))"
    "j < 3 \<Longrightarrow> map_of (images cfg) (3, 30 + j) = Some (block_regs (generate_IO (ioECL (l3 cfg) ! j) ECL_IO_Flags 0) @ con_regs 1 (connections (l3 cfg) ! (30 + j)))"
  using assms by (simp_all add: image_lookup add.commute del: upt_rec_numeral)

lemma generate_IO_regs:
  "block_regs (generate_IO io 3 off) = [(off, io_delay io), (off + 2, io_width io), (off + 4, io_holdoff io),
     (off + 6, of_bool (io_invert io)), (off + 10, io_direction io), (off + 16, of_bool (io_activate io))]"
  "block_regs (generate_IO io 2 off) = [(off, io_delay io), (off + 2, io_width io), (off + 4, io_holdoff io),
     (off + 6, of_bool (io_invert io)), (off + 16, of_bool (io_activate io))]"
  "block_regs (generate_IO io 0 off) = [(off, io_delay io), (off + 2, io_width io), (off + 4, io_holdoff io),
     (off + 6, of_bool (io_invert io))]"
  by (simp_all add: generate_IO_def)

lemma unit_regs:
  "block_regs (generate_Timer t) = [(2, tm_range t), (4, tm_delay_ns t), (6, tm_period t)]"
  "block_regs (generate_StackBusy b) = [(0, sb_stackIndex b)]"
  "block_regs (generate_TriggerResource r) = [(0x80, ucast (tr_type r)), (0, ucast (irqIndex (irqUtil r))),
     (6, io_delay (gateGenerator (syncOutTrigger r))), (8, io_width (gateGenerator (syncOutTrigger r))),
     (10, io_holdoff (gateGenerator (syncOutTrigger r))), (12, of_bool (io_invert (gateGenerator (syncOutTrigger r)))),
     (0x82, ucast (triggerIndex (syncOutTrigger r)))]"
  "block_regs (generate_StackStart s) = [(0, of_bool (ss_activate s)), (2, ucast (ss_stackIndex s)), (4, ss_delay_ns s)]"
  "block_regs (generate_MasterTrigger m) = [(0, of_bool (mt_activate m))]"
  "block_regs (generate_Counter c) = [(14, of_bool (ct_clearOnLatch c))]"
  by (simp_all add: generate_Timer_def generate_StackBusy_def generate_TriggerResource_def generate_IO_regs
      generate_StackStart_def generate_MasterTrigger_def generate_Counter_def)

lemma con_regs_simps [simp]:
  "con_regs 0 cs = []" "con_regs (Suc 0) cs = [(0x80, ucast (cs ! 0))]"
  "con_regs 2 cs = [(0x80, ucast (cs ! 0)), (0x82, ucast (cs ! 1))]"
  "con_regs 3 cs = [(0x80, ucast (cs ! 0)), (0x82, ucast (cs ! 1)), (0x84, ucast (cs ! 2))]"
  by (simp_all add: con_regs_def upt_rec numeral_2_eq_2)

lemma lut_rows_length: "wf_LUT lut \<Longrightarrow> length (lut_rows lut) = 16"
  using make_lut_ram_ok [of lut] by (auto simp: wf_LUT_def lut_rows_def)

lemma lut_regs_small:
  assumes "wf_LUT lut"
  shows "lut_regs (lut_rows lut) \<noteq> []" "list_all (\<lambda>(r, v). r \<le> 0x86) (lut_regs (lut_rows lut))"
proof -
  note len = lut_rows_length [OF assms]
  then show "lut_regs (lut_rows lut) \<noteq> []" by (auto simp: lut_regs_def enumerate_eq_zip)
  have "r \<le> 0x86" if "(r, v) \<in> set (lut_regs (lut_rows lut))" for r v
  proof -
    have "r \<le> 0x1E" using lut_regs_bound [OF len] that by force
    also have "\<dots> \<le> 0x86" by simp
    finally show ?thesis .
  qed
  then show "list_all (\<lambda>(r, v). r \<le> 0x86) (lut_regs (lut_rows lut))" by (auto simp: list_all_iff)
qed

lemma image_ok_enumerate:
  assumes "\<And>i x. off \<le> i \<Longrightarrow> i < off + length xs \<Longrightarrow> x \<in> set xs \<Longrightarrow> image_ok (f i x)"
  shows "list_all image_ok (map (\<lambda>(i, x). f i x) (enumerate off xs))"
  using assms by (auto simp: list_all_iff in_set_enumerate_eq)

lemma images_ok:
  assumes "wf_TriggerIO cfg"
  shows "list_all image_ok (images cfg)"
proof -
  have "list_all image_ok (l0_images (l0 cfg))"
    using assms unfolding l0_images_def list_all_append
    by (intro conjI image_ok_enumerate) (simp_all add: image_ok_def unit_regs generate_IO_regs wf_TriggerIO_def)
  moreover have "list_all image_ok (l1_images cfg)"
    using assms unfolding l1_images_def
    by (intro image_ok_enumerate) (simp_all add: image_ok_def wf_TriggerIO_def list_all_iff [of wf_LUT] lut_regs_small)
  moreover have "list_all image_ok (l2_images cfg)"
    using assms unfolding l2_images_def
    by (intro image_ok_enumerate)
      (simp_all add: image_ok_def wf_TriggerIO_def list_all_iff [of wf_LUT] lut_regs_small generate_IO_regs)
  moreover have "list_all image_ok (map (\<lambda>nim. l3_image cfg 1 [] (nim + 16)) [0..<14])"
    by (simp add: list_all_iff image_ok_def l3_image_def)
  then have "list_all image_ok (l3_images cfg)"
    using assms unfolding l3_images_def list_all_append
    by (intro conjI image_ok_enumerate)
      (simp_all add: image_ok_def l3_image_def unit_regs generate_IO_regs wf_TriggerIO_def del: upt_rec_numeral)
  ultimately show ?thesis by (simp add: images_def)
qed

lemma map_fst_enumerate: "map (\<lambda>x. (lvl, fst x)) (enumerate off xs) = map (Pair lvl) [off..<off + length xs]"
  by (rule nth_equalityI) (simp_all add: nth_enumerate_eq)

lemma images_distinct:
  assumes "wf_TriggerIO cfg"
  shows "distinct (map fst (images cfg))"
proof -
  have "map (\<lambda>x. (3::nat, x + 16)) [0..<14] = map (Pair 3) [16..<30]" by code_simp
  then have "map fst (images cfg) = concat (map (\<lambda>(lvl, off, n). map (Pair lvl) [off..<off + n])
      [(0, 0, 4), (0, 4, 8), (0, 12, 2), (0, 16, 14), (0, 33, 6), (1, 0, 7), (2, 0, 3),
       (3, 0, 4), (3, 4, 4), (3, 8, 8), (3, 16, 14), (3, 30, 3)])"
    using assms
    by (simp add: images_def l0_images_def l1_images_def l2_images_def l3_images_def l3_image_def comp_def
        case_prod_beta map_fst_enumerate wf_TriggerIO_def del: upt_rec_numeral)
  moreover have "distinct (concat (map (\<lambda>(lvl, off, n). map (Pair lvl) [off..<off + n])
      [(0::nat, 0, 4), (0, 4, 8), (0, 12, 2), (0, 16, 14), (0, 33, 6), (1, 0, 7), (2, 0, 3),
       (3, 0, 4), (3, 4, 4), (3, 8, 8), (3, 16, 14), (3, 30, 3::nat)]))" by code_simp
  ultimately show ?thesis by simp
qed

end
