(* ===== verification/Trigger_IO_Restore.thy ===== *)
theory Trigger_IO_Restore
  imports Trigger_IO_Roundtrip
begin

text \<open>
  Reading a trigger I/O configuration back from the images of its units. A locale
  states what the loops of the deserializer rely on, that a unit is read from its own
  registers; it is interpreted for every kind of unit, and the loops over the arrays
  of a level are handled once inside it.
\<close>

section \<open>Units read from their registers\<close>

text \<open>
  A unit \<open>x\<close> of an array is parsed into an object that holds \<open>start x\<close>; \<open>kept x\<close> is
  the part of the unit that survives. The registers of up to \<open>inputs\<close> connections
  may follow those of the unit.
\<close>

locale register_unit =
  fixes regs :: "'u \<Rightarrow> (u16 \<times> u16) list" and parse :: "UnitWrites \<Rightarrow> nat \<Rightarrow> 'u step"
    and start :: "'u \<Rightarrow> 'u" and kept :: "'u \<Rightarrow> 'u" and inputs :: nat
  assumes parse_regs: "n \<le> inputs \<Longrightarrow>
      ws (word_of_nat u) = Some (regs_map (regs x @ con_regs n cs) Map.empty) \<Longrightarrow>
      parse ws u (start x) = (kept x, True)"
begin

lemma array_parsed:
  assumes "\<And>j. j < length xs \<Longrightarrow> ws (word_of_nat (off + j)) = Some (regs_map (regs (xs ! j)) Map.empty)"
  shows "each_unit (parse ws) off (map start xs) = (map kept xs, True)"
proof -
  have "each_unit (parse ws) off (map start xs) = (map (\<lambda>j. kept (xs ! j)) [0..<length (map start xs)], True)"
    using assms parse_regs [of 0 ws _ _ "[]"] by (intro each_unit_ok) simp
  also have "map (\<lambda>j. kept (xs ! j)) [0..<length (map start xs)] = map kept xs"
    by (rule nth_equalityI) simp_all
  finally show ?thesis .
qed

end

lemma of_bool_neq_0 [simp]: "(of_bool b :: 'a::len word) \<noteq> 0 \<longleftrightarrow> b"
  by simp

lemmas parse_unit = at2_def parse_io_def assign_def then_step_def unit_regs generate_IO_regs IO_init_def
  plain_io_def

lemma le_2_cases: "n \<le> 2 \<Longrightarrow> n = 0 \<or> n = Suc 0 \<or> n = (2::nat)"
  by linarith

interpretation timer: register_unit "\<lambda>t. block_regs (generate_Timer t)" timer_steps "\<lambda>_. Timer_init"
  "\<lambda>t. t\<lparr>tm_softActivate := False\<rparr>" 0
  by unfold_locales (simp add: timer_steps_def Timer_init_def parse_unit)

definition plain_resource :: "TriggerResource \<Rightarrow> TriggerResource" where
  "plain_resource r = r\<lparr>syncOutTrigger := (syncOutTrigger r)\<lparr>gateGenerator := plain_io (gateGenerator (syncOutTrigger r))\<rparr>\<rparr>"

interpretation trigger_resource: register_unit "\<lambda>r. block_regs (generate_TriggerResource r)"
  trigger_resource_steps "\<lambda>_. TriggerResource_init" plain_resource 0
  by unfold_locales
    (simp add: trigger_resource_steps_def TriggerResource_init_def plain_resource_def parse_unit
      ucast_up_ucast_id is_up)

interpretation stack_busy: register_unit "\<lambda>b. block_regs (generate_StackBusy b)" stack_busy_steps
  "\<lambda>_. \<lparr>sb_stackIndex = 0\<rparr>" "\<lambda>b. b" 0
  by unfold_locales (simp add: stack_busy_steps_def parse_unit)

interpretation nim_io: register_unit "\<lambda>io. block_regs (generate_IO io NIM_IO_Flags 0)" io_steps "\<lambda>_. IO_init"
  "\<lambda>io. io" 0
  by unfold_locales (simp add: io_steps_def parse_unit)

interpretation irq_io: register_unit "\<lambda>io. block_regs (generate_IO io 0 0)" io_steps "\<lambda>_. IO_init" plain_io 0
  by unfold_locales (simp add: io_steps_def parse_unit)

interpretation stack_start: register_unit "\<lambda>s. block_regs (generate_StackStart s)" stack_start_steps
  "\<lambda>_. \<lparr>ss_activate = False, ss_stackIndex = 0, ss_delay_ns = 0\<rparr>" "\<lambda>s. s" 2
  by unfold_locales
    (auto dest!: le_2_cases simp: stack_start_steps_def parse_unit ucast_up_ucast_id is_up)

interpretation master_trigger: register_unit "\<lambda>m. block_regs (generate_MasterTrigger m)" master_trigger_steps
  "\<lambda>_. \<lparr>mt_activate = False\<rparr>" "\<lambda>m. m" 2
  by unfold_locales (auto dest!: le_2_cases simp: master_trigger_steps_def parse_unit)

interpretation counter: register_unit "\<lambda>c. block_regs (generate_Counter c)" counter_steps
  "\<lambda>_. \<lparr>ct_clearOnLatch = False, ct_softActivate = False\<rparr>" "\<lambda>c. c\<lparr>ct_softActivate := False\<rparr>" 2
  by unfold_locales (auto dest!: le_2_cases simp: counter_steps_def parse_unit)

interpretation nim_output: register_unit "\<lambda>_. []" "\<lambda>ws u io. (io, True)" "\<lambda>io :: IO. io" "\<lambda>io. io" 2
  by unfold_locales simp

interpretation ecl_output: register_unit "\<lambda>io. block_regs (generate_IO io ECL_IO_Flags 0)" io_steps
  "\<lambda>_. IO_init" plain_io 2
  by unfold_locales (auto dest!: le_2_cases simp: io_steps_def parse_unit)

section \<open>Level 3\<close>

text \<open>The connection values that are read back: those of the inputs that are written.\<close>

definition written_inputs :: "nat \<Rightarrow> nat" where
  "written_inputs u = (if 8 \<le> u \<and> u < 16 then 2 else 1)"

definition small :: "u32 list \<Rightarrow> bool" where
  "small cs \<longleftrightarrow> list_all (\<lambda>c. c < 0x10000) cs"

lemma ucast_small: "c < 0x10000 \<Longrightarrow> ucast (ucast c :: u16) = (c :: u32)"
proof -
  assume "c < 0x10000"
  then have "unat c < 65536" by (simp add: word_less_nat_alt)
  then show ?thesis
    by (simp add: word_unat_eq_iff unsigned_ucast_eq take_bit_word_self)
qed

lemma connect_at_con_regs:
  assumes "ws (word_of_nat u) = Some (regs_map (rs @ con_regs n cs) m)" "n \<le> 3" "i < n" "n \<le> length cs" "small (take n cs)"
  shows "connect_at ws u i = Some (cs ! i)"
proof -
  have "cs ! i < 0x10000"
    using assms(3-5) by (auto simp: small_def list_all_length)
  moreover have "n = 1 \<or> n = 2 \<or> n = 3" using assms(2,3) by linarith
  then have "regs_map (con_regs n cs) m' (0x80 + word_of_nat (2 * i)) = Some (ucast (cs ! i))" for m'
  proof (elim disjE)
    assume "n = 1" then show ?thesis using assms(3) by simp
  next
    assume "n = 2" then show ?thesis using assms(3) by (auto simp: less_2_cases_iff)
  next
    assume "n = 3"
    moreover have "i = 0 \<or> i = 1 \<or> i = 2" using \<open>n = 3\<close> assms(3) by linarith
    ultimately show ?thesis by auto
  qed
  ultimately show ?thesis
    using assms(1) by (simp add: connect_at_def at2_def ucast_small)
qed

lemma those_map_Some: "(\<And>x. x \<in> set xs \<Longrightarrow> f x = Some (g x)) \<Longrightarrow> those (map f xs) = Some (map g xs)"
  by (induction xs) simp_all

lemma connection_step_ok:
  assumes "ws (word_of_nat u) = Some (regs_map (rs @ con_regs n cs) m)" "n \<le> 3" "n \<le> length cs" "small (take n cs)"
  shows "connection_step ws n u l = (connections_update (\<lambda>c. c[u := take n cs]) l, True)"
proof -
  have "those (map (connect_at ws u) [0..<n]) = Some (map (\<lambda>i. cs ! i) [0..<n])"
    by (rule those_map_Some) (rule connect_at_con_regs [where m = m], use assms in simp_all)
  also have "map (\<lambda>i. cs ! i) [0..<n] = take n cs"
    using assms(3) by (intro nth_equalityI) simp_all
  finally show ?thesis by (simp add: connection_step_def)
qed

text \<open>An array of level 3 together with its selector and update function.\<close>

locale connected_array = register_unit regs parse start kept inputs
  for regs :: "'u \<Rightarrow> (u16 \<times> u16) list" and parse start kept inputs +
  fixes get :: "Level3 \<Rightarrow> 'u list" and upd :: "('u list \<Rightarrow> 'u list) \<Rightarrow> Level3 \<Rightarrow> Level3"
  assumes get_upd: "get (upd f l) = f (get l)"
    and get_connections: "get (connections_update g l) = get l"
    and connections_upd: "connections (upd f l) = connections l"
    and upd_upd: "upd f (upd f' l) = upd (\<lambda>x. f (f' x)) l"
    and upd_same: "upd (\<lambda>_. get l) l = l"
    and upd_connections: "upd f (connections_update g l) = connections_update g (upd f l)"
begin

lemma loop_step:
  assumes "ws (word_of_nat (i + off)) = Some (regs_map (regs x @ con_regs n cs) Map.empty)"
    and "n \<le> inputs" "n \<le> 3" "n \<le> length cs" "small (take n cs)" "get l ! i = start x"
  shows "level3_unit_steps get upd (parse ws) ws n off i l =
    (connections_update (\<lambda>c. c[i + off := take n cs]) (upd (\<lambda>xs. xs[i := kept x]) l), True)"
proof -
  have "parse ws (i + off) (start x) = (kept x, True)" by (rule parse_regs) (use assms in blast)+
  moreover have "connection_step ws n (i + off) l' = (connections_update (\<lambda>c. c[i + off := take n cs]) l', True)" for l'
    by (rule connection_step_ok) (use assms in blast)+
  ultimately show ?thesis using assms(6) by (simp add: level3_unit_steps_def then_step_def in_member_def)
qed

lemma loop_invariant:
  assumes "k \<le> length xs" "get l = map start xs" "off + length xs \<le> length (connections l)"
    and "\<And>j. j < length xs \<Longrightarrow> ws (word_of_nat (j + off)) = Some (regs_map (regs (xs ! j) @ con_regs n (cons ! (j + off))) Map.empty)"
    and "n \<le> inputs" "n \<le> 3" "\<And>j. j < length xs \<Longrightarrow> n \<le> length (cons ! (j + off)) \<and> small (take n (cons ! (j + off)))"
  shows "step_for (level3_unit_steps get upd (parse ws) ws n off) [0..<k] l =
    (connections_update (\<lambda>_. take off (connections l) @ map (\<lambda>j. take n (cons ! (j + off))) [0..<k] @ drop (off + k) (connections l))
      (upd (\<lambda>_. map kept (take k xs) @ map start (drop k xs)) l), True)"
  using assms(1)
proof (induction k)
  case 0
  have "connections_update (\<lambda>_. connections l) l = l" by simp
  then show ?case using assms(2) upd_same [of l] by (simp add: step_for_def)
next
  case (Suc k)
  let ?c = "\<lambda>k. take off (connections l) @ map (\<lambda>j. take n (cons ! (j + off))) [0..<k] @ drop (off + k) (connections l)"
  let ?x = "\<lambda>k. map kept (take k xs) @ map start (drop k xs)"
  have k: "k < length xs" using Suc.prems by simp
  have IH: "step_for (level3_unit_steps get upd (parse ws) ws n off) [0..<k] l =
      (connections_update (\<lambda>_. ?c k) (upd (\<lambda>_. ?x k) l), True)"
    using Suc by simp
  have at: "get (connections_update (\<lambda>_. ?c k) (upd (\<lambda>_. ?x k) l)) ! k = start (xs ! k)"
    using k by (simp add: get_upd get_connections nth_append)
  have "step_for (level3_unit_steps get upd (parse ws) ws n off) [0..<Suc k] l =
      level3_unit_steps get upd (parse ws) ws n off k (connections_update (\<lambda>_. ?c k) (upd (\<lambda>_. ?x k) l))"
    by (simp add: step_for_snoc IH)
  also have "\<dots> = (connections_update (\<lambda>c. c[k + off := take n (cons ! (k + off))])
      (upd (\<lambda>ys. ys[k := kept (xs ! k)]) (connections_update (\<lambda>_. ?c k) (upd (\<lambda>_. ?x k) l))), True)"
    by (rule loop_step) (use k assms(4-7) at in auto)
  also have "\<dots> = (connections_update (\<lambda>_. (?c k)[k + off := take n (cons ! (k + off))])
      (upd (\<lambda>_. (?x k)[k := kept (xs ! k)]) l), True)"
    by (simp add: upd_connections upd_upd)
  also have "(?c k)[k + off := take n (cons ! (k + off))] = ?c (Suc k)"
    using k assms(3) by (intro nth_equalityI) (auto simp: nth_append nth_list_update min_def)
  also have "(?x k)[k := kept (xs ! k)] = ?x (Suc k)"
    using k by (intro nth_equalityI) (auto simp: nth_append nth_list_update min_def less_Suc_eq)
  finally show ?case .
qed

lemma loop_ok:
  assumes "get l = map start xs" "connections l = map c [0..<off] @ drop off c0" "length c0 = 33" "off + length xs \<le> 33"
    and "\<And>j. j < length xs \<Longrightarrow> ws (word_of_nat (j + off)) = Some (regs_map (regs (xs ! j) @ con_regs n (cons ! (j + off))) Map.empty)"
    and "n \<le> inputs" "n \<le> 3" "\<And>j. j < length xs \<Longrightarrow> n \<le> length (cons ! (j + off)) \<and> small (take n (cons ! (j + off)))"
    and "\<And>j. j < length xs \<Longrightarrow> c (j + off) = take n (cons ! (j + off))"
  shows "level3_loop get upd (parse ws) ws n off l =
    (connections_update (\<lambda>_. map c [0..<off + length xs] @ drop (off + length xs) c0) (upd (\<lambda>_. map kept xs) l), True)"
proof -
  have "step_for (level3_unit_steps get upd (parse ws) ws n off) [0..<length xs] l =
    (connections_update (\<lambda>_. take off (connections l) @ map (\<lambda>j. take n (cons ! (j + off))) [0..<length xs] @ drop (off + length xs) (connections l))
      (upd (\<lambda>_. map kept (take (length xs) xs) @ map start (drop (length xs) xs)) l), True)"
    by (rule loop_invariant) (use assms in auto)
  moreover have "take off (connections l) @ map (\<lambda>j. take n (cons ! (j + off))) [0..<length xs] @ drop (off + length xs) (connections l) =
      map c [0..<off + length xs] @ drop (off + length xs) c0"
  proof -
    have "map (\<lambda>j. take n (cons ! (j + off))) [0..<length xs] = map (\<lambda>j. c (j + off)) [0..<length xs]"
      using assms(9) by simp
    then show ?thesis
      using assms(2-4) by (simp only:) (auto intro!: nth_equalityI simp: nth_append)
  qed
  ultimately show ?thesis using assms(1) by (simp add: level3_loop_def)
qed
end

interpretation stack_start3: connected_array "\<lambda>s. block_regs (generate_StackStart s)" stack_start_steps
  "\<lambda>_. \<lparr>ss_activate = False, ss_stackIndex = 0, ss_delay_ns = 0\<rparr>" "\<lambda>s. s" 2 stackStart stackStart_update
  by unfold_locales simp_all

interpretation master_trigger3: connected_array "\<lambda>m. block_regs (generate_MasterTrigger m)" master_trigger_steps
  "\<lambda>_. \<lparr>mt_activate = False\<rparr>" "\<lambda>m. m" 2 masterTriggers masterTriggers_update
  by unfold_locales simp_all

interpretation counter3: connected_array "\<lambda>c. block_regs (generate_Counter c)" counter_steps
  "\<lambda>_. \<lparr>ct_clearOnLatch = False, ct_softActivate = False\<rparr>" "\<lambda>c. c\<lparr>ct_softActivate := False\<rparr>" 2
  counters counters_update
  by unfold_locales simp_all

interpretation nim_output3: connected_array "\<lambda>_. []" "\<lambda>ws u io. (io, True)" "\<lambda>io :: IO. io" "\<lambda>io. io" 2
  l3_ioNIM l3_ioNIM_update
  by unfold_locales simp_all

interpretation ecl_output3: connected_array "\<lambda>io. block_regs (generate_IO io ECL_IO_Flags 0)" io_steps
  "\<lambda>_. IO_init" plain_io 2 ioECL ioECL_update
  by unfold_locales simp_all

text \<open>What the deserializer makes of the registers of a level.\<close>

definition parsed_level3 :: "IO list \<Rightarrow> Level3 \<Rightarrow> Level3" where
  "parsed_level3 nims l =
     l\<lparr>counters := map (\<lambda>c. c\<lparr>ct_softActivate := False\<rparr>) (counters l), l3_ioNIM := nims,
       ioECL := map plain_io (ioECL l), l3_unitNames := Level3_DefaultUnitNames,
       connections := map (\<lambda>u. take (written_inputs u) (connections l ! u)) [0..<33]\<rparr>"

definition grouped :: "LevelWrites \<Rightarrow> TriggerIO \<Rightarrow> bool" where
  "grouped lws cfg \<longleftrightarrow>
     (\<forall>l < 4. \<forall>u < 256. (lws ! l) (word_of_nat u) = map_option (\<lambda>rs. regs_map rs Map.empty) (map_of (images cfg) (l, u)))"

lemma grouped_unit:
  "grouped lws cfg \<Longrightarrow> l < 4 \<Longrightarrow> u < 256 \<Longrightarrow> map_of (images cfg) (l, u) = Some rs \<Longrightarrow>
   (lws ! l) (word_of_nat u) = Some (regs_map rs Map.empty)"
  by (simp add: grouped_def)

definition inputs_ok :: "Level3 \<Rightarrow> bool" where
  "inputs_ok l \<longleftrightarrow> (\<forall>u < 33. written_inputs u \<le> length (connections l ! u) \<and>
     small (take (written_inputs u) (connections l ! u)))"

lemma replicate_start: "length xs = n \<Longrightarrow> replicate n c = map (\<lambda>_. c) xs"
  by (simp add: map_replicate_const)

lemma level3_parsed:
  assumes wf: "wf_TriggerIO cfg" and g: "grouped lws cfg" and ok: "inputs_ok (l3 cfg)"
    and nims: "length nims = 14"
  shows "level3_steps (lws ! 3) (Level3_init\<lparr>l3_ioNIM := nims\<rparr>) = (parsed_level3 nims (l3 cfg), True)"
proof -
  let ?ws = "lws ! 3" and ?cs = "connections (l3 cfg)" and ?base = "connections Level3_init"
  let ?c = "\<lambda>u. take (written_inputs u) (?cs ! u)"
  note im = images_lookup3 [OF wf, THEN grouped_unit [OF g, rotated 2]]
  have c0: "length ?base = 33" by (simp add: Level3_init_def)
  have len: "length (stackStart (l3 cfg)) = 4" "length (masterTriggers (l3 cfg)) = 4" "length (counters (l3 cfg)) = 8"
    "length (ioECL (l3 cfg)) = 3" using wf by (simp_all add: wf_TriggerIO_def)
  have w: "u < 33 \<Longrightarrow> written_inputs u = n \<Longrightarrow> n \<le> length (?cs ! u) \<and> small (take n (?cs ! u))" for u n
    using ok by (auto simp: inputs_ok_def)
  have 1: "level3_loop stackStart stackStart_update (stack_start_steps ?ws) ?ws 1 0 l =
      (connections_update (\<lambda>_. map ?c [0..<4] @ drop 4 ?base) (stackStart_update (\<lambda>_. stackStart (l3 cfg)) l), True)"
    if "stackStart l = stackStart Level3_init" "connections l = ?base" for l
    using stack_start3.loop_ok [of l "stackStart (l3 cfg)" ?c 0 ?base ?ws 1 ?cs] that len c0 w im(1)
    by (simp add: Level3_init_def map_replicate_const written_inputs_def del: upt_rec_numeral)
  have 2: "level3_loop masterTriggers masterTriggers_update (master_trigger_steps ?ws) ?ws 1 4 l =
      (connections_update (\<lambda>_. map ?c [0..<8] @ drop 8 ?base) (masterTriggers_update (\<lambda>_. masterTriggers (l3 cfg)) l), True)"
    if "masterTriggers l = masterTriggers Level3_init" "connections l = map ?c [0..<4] @ drop 4 ?base" for l
    using master_trigger3.loop_ok [of l "masterTriggers (l3 cfg)" ?c 4 ?base ?ws 1 ?cs] that len c0 w im(2)
    by (simp add: Level3_init_def map_replicate_const written_inputs_def add.commute del: upt_rec_numeral)
  have 3: "level3_loop counters counters_update (counter_steps ?ws) ?ws 2 8 l =
      (connections_update (\<lambda>_. map ?c [0..<16] @ drop 16 ?base)
        (counters_update (\<lambda>_. map (\<lambda>c. c\<lparr>ct_softActivate := False\<rparr>) (counters (l3 cfg))) l), True)"
    if "counters l = counters Level3_init" "connections l = map ?c [0..<8] @ drop 8 ?base" for l
    using counter3.loop_ok [of l "counters (l3 cfg)" ?c 8 ?base ?ws 2 ?cs] that len c0 w im(3)
    by (simp add: Level3_init_def map_replicate_const written_inputs_def add.commute del: upt_rec_numeral)
  have 4: "level3_loop l3_ioNIM l3_ioNIM_update (\<lambda>_ io. (io, True)) ?ws 1 16 l =
      (connections_update (\<lambda>_. map ?c [0..<30] @ drop 30 ?base) (l3_ioNIM_update (\<lambda>_. nims) l), True)"
    if "l3_ioNIM l = nims" "connections l = map ?c [0..<16] @ drop 16 ?base" for l
    using nim_output3.loop_ok [of l nims ?c 16 ?base ?ws 1 ?cs] that nims c0 w im(4)
    by (simp add: Level3_init_def map_replicate_const written_inputs_def add.commute del: upt_rec_numeral)
  have 5: "level3_loop ioECL ioECL_update (io_steps ?ws) ?ws 1 30 l =
      (connections_update (\<lambda>_. map ?c [0..<33] @ drop 33 ?base) (ioECL_update (\<lambda>_. map plain_io (ioECL (l3 cfg))) l), True)"
    if "ioECL l = ioECL Level3_init" "connections l = map ?c [0..<30] @ drop 30 ?base" for l
    using ecl_output3.loop_ok [of l "ioECL (l3 cfg)" ?c 30 ?base ?ws 1 ?cs] that len c0 w im(5)
    by (simp add: Level3_init_def map_replicate_const written_inputs_def add.commute del: upt_rec_numeral)
  have "level3_steps ?ws (Level3_init\<lparr>l3_ioNIM := nims\<rparr>) =
      (Level3_init\<lparr>stackStart := stackStart (l3 cfg), masterTriggers := masterTriggers (l3 cfg),
        counters := map (\<lambda>c. c\<lparr>ct_softActivate := False\<rparr>) (counters (l3 cfg)), l3_ioNIM := nims,
        ioECL := map plain_io (ioECL (l3 cfg)), connections := map ?c [0..<33]\<rparr>, True)"
    using c0 by (simp add: level3_steps_def then_step_def 1 2 3 4 5 del: upt_rec_numeral One_nat_def)
  then show ?thesis
    by (cases "l3 cfg") (simp add: parsed_level3_def Level3_init_def del: upt_rec_numeral)
qed

section \<open>Levels 0 to 2\<close>

definition parsed_level0 :: "Level0 \<Rightarrow> Level0" where
  "parsed_level0 l =
     l\<lparr>timers := map (\<lambda>t. t\<lparr>tm_softActivate := False\<rparr>) (timers l),
       triggerResources := map plain_resource (triggerResources l), ioIRQ := map plain_io (ioIRQ l),
       l0_unitNames := Level0_DefaultUnitNames\<rparr>"

lemma level0_parsed:
  assumes wf: "wf_TriggerIO cfg" and g: "grouped lws cfg"
  shows "level0_steps (lws ! 0) Level0_init = (parsed_level0 (l0 cfg), True)"
proof -
  let ?ws = "lws ! 0"
  note im = images_lookup0 [OF wf, THEN grouped_unit [OF g, rotated 2]]
  have len: "length (timers (l0 cfg)) = 4" "length (triggerResources (l0 cfg)) = 8" "length (stackBusy (l0 cfg)) = 2"
    "length (ioNIM (l0 cfg)) = 14" "length (ioIRQ (l0 cfg)) = 6" using wf by (simp_all add: wf_TriggerIO_def)
  have "each_unit (timer_steps ?ws) 0 (timers Level0_init) =
      (map (\<lambda>t. t\<lparr>tm_softActivate := False\<rparr>) (timers (l0 cfg)), True)"
    using timer.array_parsed [of "timers (l0 cfg)" ?ws 0] len im(1)
    by (simp add: Level0_init_def map_replicate_const)
  moreover have "each_unit (trigger_resource_steps ?ws) 4 (triggerResources Level0_init) =
      (map plain_resource (triggerResources (l0 cfg)), True)"
    using trigger_resource.array_parsed [of "triggerResources (l0 cfg)" ?ws 4] len im(2)
    by (simp add: Level0_init_def map_replicate_const)
  moreover have "each_unit (stack_busy_steps ?ws) 12 (stackBusy Level0_init) = (stackBusy (l0 cfg), True)"
    using stack_busy.array_parsed [of "stackBusy (l0 cfg)" ?ws 12] len im(3)
    by (simp add: Level0_init_def map_replicate_const)
  moreover have "each_unit (io_steps ?ws) 16 (ioNIM Level0_init) = (ioNIM (l0 cfg), True)"
    using nim_io.array_parsed [of "ioNIM (l0 cfg)" ?ws 16] len im(4)
    by (simp add: Level0_init_def map_replicate_const)
  moreover have "each_unit (io_steps ?ws) 33 (ioIRQ Level0_init) = (map plain_io (ioIRQ (l0 cfg)), True)"
    using irq_io.array_parsed [of "ioIRQ (l0 cfg)" ?ws 33] len im(5)
    by (simp add: Level0_init_def map_replicate_const)
  ultimately have "level0_steps ?ws Level0_init =
      (Level0_init\<lparr>timers := map (\<lambda>t. t\<lparr>tm_softActivate := False\<rparr>) (timers (l0 cfg)),
        triggerResources := map plain_resource (triggerResources (l0 cfg)), stackBusy := stackBusy (l0 cfg),
        ioNIM := ioNIM (l0 cfg), ioIRQ := map plain_io (ioIRQ (l0 cfg))\<rparr>, True)"
    by (simp add: level0_steps_def then_step_def in_member_def)
  then show ?thesis by (cases "l0 cfg") (simp add: parsed_level0_def Level0_init_def)
qed

lemma dynamic_input_steps_ok:
  assumes "\<And>i. i < 3 \<Longrightarrow> connect_at ws u i = Some (cs ! i)" "length cs = 3" "length old = 3"
  shows "dynamic_input_steps ws u old = (cs, True)"
proof -
  have "dynamic_input_steps ws u old = (fold (\<lambda>i xs. xs[i := (\<lambda>i _. cs ! i) i (xs ! i)]) [0..<3] old, True)"
    unfolding dynamic_input_steps_def by (rule step_for_ok) (simp add: assms(1) del: upt_rec_numeral)
  moreover have "fold (\<lambda>i xs. xs[i := (\<lambda>i _. cs ! i) i (xs ! i)]) [0..<3] old = cs"
    using fold_update_nth [where n = 3 and xs = old and g = "\<lambda>i _. cs ! i"] assms(2,3)
    by (intro nth_equalityI) (simp_all del: upt_rec_numeral)
  ultimately show ?thesis by simp
qed

lemma regs_map_cong: "m r = m' r \<Longrightarrow> regs_map rs m r = regs_map rs m' r"
proof (induction rs arbitrary: m m')
  case (Cons x rs)
  obtain k v where x: "x = (k, v)" by (cases x)
  have "(m(k \<mapsto> v)) r = (m'(k \<mapsto> v)) r" using Cons.prems by simp
  then show ?case unfolding x regs_map_simps by (rule Cons.IH)
qed simp

lemma lut_at_image:
  assumes "wf_LUT lut" "ws (word_of_nat u) = Some (regs_map (lut_regs (lut_rows lut) @ rs) Map.empty)"
    and "list_all (\<lambda>(r, v). 0x20 \<le> r) rs"
  shows "lut_at ws u = Some (parsed_lut lut (case regs_map rs Map.empty 0x20 of Some v \<Rightarrow> ucast v | None \<Rightarrow> 0)
    (parse_io (regs_map rs Map.empty) 0x32))"
proof -
  let ?m = "regs_map (lut_regs (lut_rows lut) @ rs) Map.empty"
  note len = lut_rows_length [OF assms(1)]
  have rs: "0x20 \<le> r" if "r \<in> fst ` set rs" for r
    using that assms(3) unfolding list_all_iff by fastforce
  have low: "?m (word_of_nat (i * 2)) = Some (lut_rows lut ! i)" if "i < 16" for i
  proof -
    have "unat (word_of_nat (i * 2) :: u16) = i * 2"
      unfolding unat_of_nat by (rule mod_less) (use that in simp)
    then have "word_of_nat (i * 2) < (0x20 :: u16)"
      unfolding word_less_nat_alt using that by (simp only:) simp
    then have "word_of_nat (i * 2) \<notin> fst ` set rs" using rs not_less by blast
    then have "?m (word_of_nat (i * 2)) = regs_map (lut_regs (lut_rows lut)) Map.empty (word_of_nat (i * 2))"
      unfolding regs_map_append by (rule regs_map_other)
    also have "\<dots> = Some (lut_rows lut ! i)" by (rule lut_regs_lookup [OF len that])
    finally show ?thesis .
  qed
  have high: "?m r = regs_map rs Map.empty r" if "0x20 \<le> r" for r
  proof -
    have "r \<notin> fst ` set (lut_regs (lut_rows lut))"
    proof
      assume "r \<in> fst ` set (lut_regs (lut_rows lut))"
      then have "r \<le> 0x1E" by (rule lut_regs_bound [OF len])
      with that have "(0x20 :: u16) \<le> 0x1E" by (rule order_trans)
      then show False by simp
    qed
    then have "regs_map (lut_regs (lut_rows lut)) Map.empty r = Map.empty r" by (rule regs_map_other)
    then show ?thesis unfolding regs_map_append by (rule regs_map_cong)
  qed
  have "parse_lut ?m = Inr (parsed_lut lut (case regs_map rs Map.empty 0x20 of Some v \<Rightarrow> ucast v | None \<Rightarrow> 0)
    (parse_io (regs_map rs Map.empty) 0x32))"
  proof (rule parse_lut_image)
    show "length (lutContents lut) = 3" using assms(1) by (simp add: wf_LUT_def)
    show "?m (word_of_nat (i * 2)) = Some (lut_rows lut ! i)" if "i < 16" for i using that by (rule low)
    show "?m 0x20 = regs_map rs Map.empty 0x20" by (rule high) simp
    have "?m (0x32 + 0) = regs_map rs Map.empty (0x32 + 0)" "?m (0x32 + 2) = regs_map rs Map.empty (0x32 + 2)"
      "?m (0x32 + 4) = regs_map rs Map.empty (0x32 + 4)" "?m (0x32 + 6) = regs_map rs Map.empty (0x32 + 6)"
      "?m (0x32 + 10) = regs_map rs Map.empty (0x32 + 10)" "?m (0x32 + 16) = regs_map rs Map.empty (0x32 + 16)"
      by (rule high, simp)+
    then show "parse_io ?m 0x32 = parse_io (regs_map rs Map.empty) 0x32" by (simp only: parse_io_def)
  qed
  then show ?thesis unfolding lut_at_def assms(2) by (simp only: option.case sum.case)
qed

definition parsed_level1 :: "Level1 \<Rightarrow> Level1" where
  "parsed_level1 l = l\<lparr>l1_luts := map (\<lambda>lut. parsed_lut lut 0 IO_init) (l1_luts l)\<rparr>"

lemma level1_lut_parsed:
  assumes "wf_TriggerIO cfg" "grouped lws cfg" "small (lut2Connections (l1 cfg))" "u < 7" "length (lut2Connections l) = 3"
  shows "level1_lut_steps (lws ! 1) u l =
    (l\<lparr>l1_luts := (l1_luts l)[u := parsed_lut (l1_luts (l1 cfg) ! u) 0 IO_init],
       lut2Connections := (if u = 2 then lut2Connections (l1 cfg) else lut2Connections l)\<rparr>, True)"
proof -
  let ?rs = "if u = 2 then con_regs 3 (lut2Connections (l1 cfg)) else []"
  have im: "(lws ! 1) (word_of_nat u) = Some (regs_map (lut_regs (lut_rows (l1_luts (l1 cfg) ! u)) @ ?rs) Map.empty)"
    by (rule grouped_unit [OF assms(2)]) (use assms(4) images_lookup12(1) [OF assms(1,4)] in simp_all)
  have wf: "wf_LUT (l1_luts (l1 cfg) ! u)" "length (lut2Connections (l1 cfg)) = 3"
    using assms(1,4) by (auto simp: wf_TriggerIO_def list_all_length)
  have io: "parse_io (regs_map ?rs Map.empty) 0x32 = IO_init" "regs_map ?rs Map.empty 0x20 = None"
    by (simp_all add: parse_io_def assign_def then_step_def)
  have lut: "lut_at (lws ! 1) u = Some (parsed_lut (l1_luts (l1 cfg) ! u) 0 IO_init)"
    using lut_at_image [where ws = "lws ! 1" and u = u and rs = ?rs, OF wf(1) im] io by simp
  show ?thesis
  proof (cases "u = 2")
    case True
    with im have "(lws ! 1) (word_of_nat u) =
        Some (regs_map (lut_regs (lut_rows (l1_luts (l1 cfg) ! u)) @ con_regs 3 (lut2Connections (l1 cfg))) Map.empty)"
      by (simp only: refl if_True)
    then have "connect_at (lws ! 1) u i = Some (lut2Connections (l1 cfg) ! i)" if "i < 3" for i
      by (rule connect_at_con_regs) (use that wf(2) assms(3) in simp_all)
    then have "dynamic_input_steps (lws ! 1) u (lut2Connections l) = (lut2Connections (l1 cfg), True)"
      using wf(2) assms(5) by (rule dynamic_input_steps_ok)
    then show ?thesis using True lut by (simp add: level1_lut_steps_def then_step_def in_member_def)
  next
    case False
    then show ?thesis using lut by (simp add: level1_lut_steps_def)
  qed
qed

lemma level1_parsed:
  assumes "wf_TriggerIO cfg" "grouped lws cfg" "small (lut2Connections (l1 cfg))"
  shows "level1_steps (lws ! 1) Level1_init = (parsed_level1 (l1 cfg), True)"
proof -
  let ?luts = "l1_luts (l1 cfg)" and ?init = "l1_luts Level1_init"
  have len: "length ?luts = 7" "length ?init = 7" using assms(1) by (simp_all add: wf_TriggerIO_def Level1_init_def)
  have "k \<le> 7 \<Longrightarrow> step_for (level1_lut_steps (lws ! 1)) [0..<k] Level1_init =
      (\<lparr>l1_luts = map (\<lambda>lut. parsed_lut lut 0 IO_init) (take k ?luts) @ drop k ?init,
        lut2Connections = (if 2 < k then lut2Connections (l1 cfg) else [0, 0, 0])\<rparr>, True)" for k
  proof (induction k)
    case 0
    show ?case by (simp add: step_for_def Level1_init_def numeral_3_eq_3)
  next
    case (Suc k)
    have "(map (\<lambda>lut. parsed_lut lut 0 IO_init) (take k ?luts) @ drop k ?init)[k := parsed_lut (?luts ! k) 0 IO_init] =
        map (\<lambda>lut. parsed_lut lut 0 IO_init) (take (Suc k) ?luts) @ drop (Suc k) ?init"
      using Suc.prems len by (intro nth_equalityI) (auto simp: nth_append nth_list_update min_def less_Suc_eq)
    moreover have "length (lut2Connections (l1 cfg)) = 3" using assms(1) by (simp add: wf_TriggerIO_def)
    ultimately show ?case
      using Suc level1_lut_parsed [OF assms, of k] by (auto simp: step_for_snoc)
  qed
  from this [of 7] len show ?thesis
    by (cases "l1 cfg") (simp add: level1_steps_def parsed_level1_def del: upt_rec_numeral)
qed

definition parsed_level2 :: "Level2 \<Rightarrow> Level2" where
  "parsed_level2 l =
     l\<lparr>l2_luts := map (\<lambda>lut. parsed_lut lut (strobedOutputs lut) (plain_io (strobeGG lut))) (l2_luts l)\<rparr>"

definition level2_small :: "Level2 \<Rightarrow> bool" where
  "level2_small l \<longleftrightarrow> list_all small (lutConnections l) \<and> small (strobeConnections l)"

lemma level2_lut_parsed:
  assumes "wf_TriggerIO cfg" "grouped lws cfg" "level2_small (l2 cfg)" "u < 3" "length (lutConnections l ! u) = 3"
  shows "level2_lut_steps (lws ! 2) u l =
    (l\<lparr>l2_luts := (l2_luts l)[u := (let lut = l2_luts (l2 cfg) ! u in parsed_lut lut (strobedOutputs lut) (plain_io (strobeGG lut)))],
       lutConnections := (lutConnections l)[u := lutConnections (l2 cfg) ! u],
       strobeConnections := (strobeConnections l)[u := strobeConnections (l2 cfg) ! u]\<rparr>, True)"
proof -
  let ?lut = "l2_luts (l2 cfg) ! u" and ?cs = "lutConnections (l2 cfg) ! u" and ?s = "strobeConnections (l2 cfg) ! u"
  let ?io = "block_regs (generate_IO (strobeGG ?lut) 0 StrobeGGIOOffset)"
  let ?rs = "[(0x20, ucast (strobedOutputs ?lut))] @ con_regs 3 ?cs @ ?io @ [(0x86, ucast ?s)]"
  have im: "(lws ! 2) (word_of_nat u) = Some (regs_map (lut_regs (lut_rows ?lut) @ ?rs) Map.empty)"
    by (rule grouped_unit [OF assms(2)]) (use assms(4) images_lookup12(2) [OF assms(1,4)] in simp_all)
  have wf: "wf_LUT ?lut" "length ?cs = 3" "length (strobeConnections (l2 cfg)) = 3" "length (lutConnections (l2 cfg)) = 3"
    using assms(1,4) by (auto simp: wf_TriggerIO_def list_all_length)
  have small: "small ?cs" "?s < 0x10000"
    using assms(3,4) wf(3,4) by (auto simp: level2_small_def small_def list_all_length)
  have io: "parse_io (regs_map ?rs Map.empty) 0x32 = plain_io (strobeGG ?lut)"
    "regs_map ?rs Map.empty 0x20 = Some (ucast (strobedOutputs ?lut))"
    by (simp_all add: parse_unit)
  have lut: "lut_at (lws ! 2) u = Some (parsed_lut ?lut (strobedOutputs ?lut) (plain_io (strobeGG ?lut)))"
    using lut_at_image [where ws = "lws ! 2" and u = u and rs = ?rs, OF wf(1) im] io
    by (simp add: generate_IO_regs ucast_up_ucast_id is_up)
  have con: "connect_at (lws ! 2) u i = Some (?cs ! i)" if "i < 3" for i
  proof -
    have "?cs ! i < 0x10000" using small(1) wf(2) that by (simp add: small_def list_all_length)
    moreover have "i = 0 \<or> i = 1 \<or> i = 2" using that by linarith
    ultimately show ?thesis by (elim disjE) (simp_all add: connect_at_def at2_def im generate_IO_regs ucast_small)
  qed
  have "connect_at (lws ! 2) u 3 = Some ?s"
    using small(2) by (simp add: connect_at_def at2_def im generate_IO_regs ucast_small)
  moreover have "dynamic_input_steps (lws ! 2) u (lutConnections l ! u) = (?cs, True)"
    using con wf(2) assms(5) by (rule dynamic_input_steps_ok)
  ultimately show ?thesis
    using lut by (simp add: level2_lut_steps_def then_step_def in_member_def Let_def)
qed

lemma list_update_all3:
  assumes "length xs = 3" "length ys = 3"
  shows "xs[0 := f (ys ! 0), Suc 0 := f (ys ! Suc 0), 2 := f (ys ! 2)] = map f ys"
  using assms by (auto intro!: nth_equalityI simp: nth_list_update less_Suc_eq numeral_3_eq_3 numeral_2_eq_2)

lemmas list_update_copy3 = list_update_all3 [where f = "\<lambda>x. x", simplified]

lemma level2_parsed:
  assumes "wf_TriggerIO cfg" "grouped lws cfg" "level2_small (l2 cfg)"
  shows "level2_steps (lws ! 2) Level2_init = (parsed_level2 (l2 cfg), True)"
proof -
  let ?p = "\<lambda>lut. parsed_lut lut (strobedOutputs lut) (plain_io (strobeGG lut))"
  let ?luts = "l2_luts (l2 cfg)" and ?cs = "lutConnections (l2 cfg)" and ?ss = "strobeConnections (l2 cfg)"
  have len: "length ?luts = 3" "length ?cs = 3" "length ?ss = 3" using assms(1) by (simp_all add: wf_TriggerIO_def)
  let ?upd = "\<lambda>u l. l\<lparr>l2_luts := (l2_luts l)[u := ?p (?luts ! u)], lutConnections := (lutConnections l)[u := ?cs ! u],
       strobeConnections := (strobeConnections l)[u := ?ss ! u]\<rparr>"
  define W where "W = lws ! 2"
  have step: "level2_lut_steps W u l = (?upd u l, True)"
    if "u < 3" "length (lutConnections l ! u) = 3" for u l
    using level2_lut_parsed [OF assms that] by (simp add: Let_def W_def)
  have "[0..<3] = [0, 1, 2 :: nat]" by code_simp
  then have "level2_steps W Level2_init = (?upd 2 (?upd 1 (?upd 0 Level2_init)), True)"
    by (simp add: level2_steps_def Level2_init_def step_for_def then_step_def step numeral_2_eq_2)
  then show ?thesis
    using len unfolding W_def
    by (cases "l2 cfg") (simp add: parsed_level2_def Level2_init_def list_update_all3 [where f = ?p] list_update_copy3)
qed

end
