(* ===== verification/Trigger_IO_Script.thy ===== *)
theory Trigger_IO_Script
  imports Trigger_IO_Deserialize Mvlc_Commands
begin

text \<open>
  The concrete formats of a serialized trigger I/O configuration: the VMEScript text
  of \<open>mvlc_trigger_io_serialize_vmescript.cc\<close> with its parser, and the stack command
  builder of \<open>mvlc_trigger_io_serialize_mvlcscript.cc\<close>. The output stream of a
  generator is the text written so far; the comments of the VMEScript and the lines of
  its introduction are kept because the parser reads them.
\<close>

section \<open>Lines\<close>

abbreviation (input) newline :: char where "newline \<equiv> CHR 0x0A"

text \<open>The lines \<open>std::getline\<close> returns until the stream ends.\<close>

function getlines :: "string \<Rightarrow> string list" where
  "getlines s =
     (if s = [] then []
      else takeWhile (\<lambda>c. c \<noteq> newline) s # getlines (drop 1 (dropWhile (\<lambda>c. c \<noteq> newline) s)))"
  by pat_completeness auto
termination
proof (relation "measure length")
  fix s :: string
  assume "s \<noteq> []"
  then show "(drop 1 (dropWhile (\<lambda>c. c \<noteq> newline) s), s) \<in> measure length"
    by (cases s) (auto simp: less_Suc_eq_le le_diff_conv intro: le_SucI [OF length_dropWhile_le])
qed simp

declare getlines.simps [simp del]

definition unlines :: "string list \<Rightarrow> string" where
  "unlines ls = concat (map (\<lambda>l. l @ [newline]) ls)"

definition startswith :: "string \<Rightarrow> string \<Rightarrow> bool" where
  "startswith str pre \<longleftrightarrow> take (length pre) str = pre"

section \<open>VMEScript: generator\<close>

definition MetaBlockBegin :: string where "MetaBlockBegin = ''meta_block_begin''"
definition MetaBlockEnd :: string where "MetaBlockEnd = ''meta_block_end''"
definition MetaTagMVLCTriggerIO :: string where "MetaTagMVLCTriggerIO = ''mvlc_trigger_io''"
definition MVLCStackBegin :: string where "MVLCStackBegin = ''mvlc_stack_begin''"
definition MVLCStackEnd :: string where "MVLCStackEnd = ''mvlc_stack_end''"

text \<open>The presentations \<open>{:04x}\<close>, \<open>{:04b}\<close> and \<open>{:4}\<close>.\<close>

definition fmt_bin :: "nat \<Rightarrow> nat \<Rightarrow> string" where
  "fmt_bin width n =
     (let ds = map digit_char (digits_of 2 n) in replicate (width - length ds) (CHR ''0'') @ ds)"

definition fmt_right :: "nat \<Rightarrow> nat \<Rightarrow> string" where
  "fmt_right width n = replicate (width - length (fmt_dec n)) (CHR '' '') @ fmt_dec n"

definition format_register_write :: "RegisterWrite \<Rightarrow> string" where
  "format_register_write w =
     ''  0x'' @ fmt_hex_plain 4 (unat (rw_address w)) @ '' '' @
     (if rw_options w AND Opt_HexValue \<noteq> 0 then ''0x'' @ fmt_hex_plain 4 (unat (rw_value w))
      else if rw_options w AND Opt_BinValue \<noteq> 0 then ''0b'' @ fmt_bin 4 (unat (rw_value w))
      else ''  '' @ fmt_right 4 (unat (rw_value w))) @
     (if rw_comment w \<noteq> [] then ''    # '' @ rw_comment w else [])"

definition vmescript_comment :: "string \<Rightarrow> string" where
  "vmescript_comment blockComment =
     (if blockComment \<noteq> [] then [newline] @ ''# '' @ blockComment @ [newline] else [])"

fun vmescript_basic :: "BasicPart \<Rightarrow> string" where
  "vmescript_basic (BasicWrite w) = format_register_write w @ [newline]"
| "vmescript_basic (BasicComment comment) = ''  # '' @ comment @ [newline]"

definition vmescript_block :: "UnitBlock \<Rightarrow> string" where
  "vmescript_block ub =
     [newline] @ ''# '' @ ub_comment ub @ [newline] @ MVLCStackBegin @ [newline] @
     concat (map vmescript_basic (ub_parts ub)) @ MVLCStackEnd @ [newline]"

fun vmescript_part :: "ScriptPart \<Rightarrow> string" where
  "vmescript_part (PartWrite w) = format_register_write w @ [newline]"
| "vmescript_part (PartComment c) = vmescript_comment c"
| "vmescript_part (PartBlock ub) = vmescript_block ub"

definition hash_line :: string where
  "hash_line = replicate 62 (CHR ''#'')"

definition vmescript_intro :: "string list" where
  "vmescript_intro =
     [hash_line,
      ''# MVLC Trigger I/O  setup via internal VME interface         #'',
      hash_line,
      [],
      ''# Note: This file was generated by mvme. Editing existing'',
      ''# values is allowed and these changes will be used by mvme'',
      ''# when next parsing the script. Changes to the basic'',
      ''# structure, like adding new write or read commands, are not'',
      ''# allowed. These changes will be lost the next time the file'',
      ''# is modified by mvme.'',
      [],
      ''# The initialization commands for each Trigger I/O unit are'',
      ''# wrapped in mvlc_stack_begin/end blocks. This is to ensure'',
      ''# the commands are executed atomically without being'',
      ''# interleaved by other commands also touching the Trigger I/O'',
      ''# system, e.g. the routine for readout of the builtin DSO.'',
      [],
      ''# Check for minimum required mvme version'',
      ''mvme_require_version 1.9.1'',
      [],
      ''# Internal MVLC VME interface address'',
      ''setbase 0x'' @ fmt_hex_plain 8 0xFFFF0000]"

definition vmescript_meta :: "string \<Rightarrow> string list" where
  "vmescript_meta yaml =
     [[], hash_line, ''# MVLC Trigger I/O specific meta information                 #'', hash_line,
      MetaBlockBegin @ '' '' @ MetaTagMVLCTriggerIO, yaml, MetaBlockEnd]"

definition generate_trigger_io_vmescript :: "yaml_lib \<Rightarrow> TriggerIO \<Rightarrow> string result" where
  "generate_trigger_io_vmescript lib cfg =
     result_bind (generate_trigger_io_parts cfg) (\<lambda>parts.
     result_map (\<lambda>yaml. unlines vmescript_intro @ concat (map vmescript_part parts) @ unlines (vmescript_meta yaml))
       (generate_meta_info_yaml lib cfg))"

section \<open>VMEScript: parser\<close>

text \<open>\<open>parse_binary<u16>\<close>: from the last character to the first.\<close>

fun parse_binary_loop :: "string \<Rightarrow> nat \<Rightarrow> u16 \<Rightarrow> u16 result" where
  "parse_binary_loop [] shift r = Inr r"
| "parse_binary_loop (c # cs) shift r =
     (if c = CHR ''0'' \<or> c = CHR ''1''
      then if 15 < shift then Inl OutOfRange
           else parse_binary_loop cs (Suc shift) (r OR push_bit shift (if c = CHR ''1'' then 1 else 0))
      else if c = CHR 0x27 then parse_binary_loop cs shift r
      else Inl InvalidArgument)"

definition parse_binary :: "string \<Rightarrow> u16 result" where
  "parse_binary input = parse_binary_loop (rev input) 0 0"

text \<open>\<open>std::strtoull\<close> with base 0: zero without digits, the largest value on overflow.\<close>

definition strtoull :: "string \<Rightarrow> u64" where
  "strtoull s =
     (case stoul_pos s of
        Inr (v, unread) \<Rightarrow> word_of_nat v
      | Inl e \<Rightarrow> (if e = OutOfRange then - 1 else 0))"

text \<open>
  The value is assigned to the 16-bit variable before it is compared with the largest
  16-bit value, so that the comparison never succeeds.
\<close>

definition parse_numeric :: "string \<Rightarrow> u16 result" where
  "parse_numeric str =
     result_bind (if startswith str ''0b'' \<or> startswith str ''0B'' then parse_binary (drop 2 str)
                  else Inr (ucast (strtoull str)))
       (\<lambda>v. if 0xFFFF < v then Inl RuntimeError else Inr v)"

definition rethrow_parse :: "u16 result \<Rightarrow> u16 result" where
  "rethrow_parse r = (case r of Inl _ \<Rightarrow> Inl RuntimeError | Inr v \<Rightarrow> Inr v)"

definition parse_script_line :: "string \<Rightarrow> WriteCommand list result" where
  "parse_script_line line =
     (case tokens line of
        addressStr # valueStr # _ \<Rightarrow>
          result_bind (rethrow_parse (parse_numeric addressStr)) (\<lambda>address.
          result_map (\<lambda>v. [\<lparr>wc_address = ucast address, wc_value = ucast v\<rparr>]) (rethrow_parse (parse_numeric valueStr)))
      | _ \<Rightarrow> Inr [])"

text \<open>The flag tells whether the line is inside of the meta block.\<close>

fun parse_script_lines :: "string list \<Rightarrow> bool \<Rightarrow> WriteCommand list \<Rightarrow> string \<Rightarrow> (WriteCommand list \<times> string) result" where
  "parse_script_lines [] inMeta writes metaYaml = Inr (writes, metaYaml)"
| "parse_script_lines (line # ls) True writes metaYaml =
     (if startswith line MetaBlockEnd then parse_script_lines ls False writes metaYaml
      else parse_script_lines ls True writes (metaYaml @ line @ [newline]))"
| "parse_script_lines (line # ls) False writes metaYaml =
     (if line = [] \<or> hd line = CHR ''#'' then parse_script_lines ls False writes metaYaml
      else if startswith line (MetaBlockBegin @ '' '' @ MetaTagMVLCTriggerIO)
      then parse_script_lines ls True writes metaYaml
      else result_bind (parse_script_line line) (\<lambda>ws. parse_script_lines ls False (writes @ ws) metaYaml))"

definition parse_trigger_io_vmescript :: "yaml_lib \<Rightarrow> string \<Rightarrow> TriggerIO result" where
  "parse_trigger_io_vmescript lib txt =
     result_bind (parse_script_lines (getlines txt) False [] []) (\<lambda>(writes, metaYaml).
       deserialize_flat_writes lib writes metaYaml)"

section \<open>Stack command builder\<close>

abbreviation (input) SelfVMEAddress :: u32 where "SelfVMEAddress \<equiv> 0xFFFF0000"

text \<open>\<open>getLastCommand\<close> returns a reference whose comment is assigned.\<close>

definition set_last_comment :: "string \<Rightarrow> StackCommandBuilder \<Rightarrow> StackCommandBuilder" where
  "set_last_comment comment b =
     (case getLastCommand b of
        None \<Rightarrow> b
      | Some cmd \<Rightarrow>
          let g = last (m_groups b)
          in b\<lparr>m_groups := butlast (m_groups b) @
               [g\<lparr>g_commands := butlast (g_commands g) @ [cmd\<lparr>sc_comment := comment\<rparr>]\<rparr>]\<rparr>)"

definition builder_write :: "RegisterWrite \<Rightarrow> StackCommandBuilder \<Rightarrow> StackCommandBuilder" where
  "builder_write w b =
     set_last_comment (rw_comment w)
       (addVMEWrite b (SelfVMEAddress + ucast (rw_address w)) (ucast (rw_value w)) 0x0D D16)"

fun builder_basic :: "BasicPart \<Rightarrow> StackCommandBuilder \<Rightarrow> StackCommandBuilder" where
  "builder_basic (BasicWrite w) b = builder_write w b"
| "builder_basic (BasicComment c) b = b"

fun builder_part :: "ScriptPart \<Rightarrow> StackCommandBuilder \<Rightarrow> StackCommandBuilder" where
  "builder_part (PartWrite w) b = builder_write w b"
| "builder_part (PartComment c) b = b"
| "builder_part (PartBlock ub) b = fold builder_basic (ub_parts ub) (beginGroup b (ub_comment ub) Map.empty)"

definition generate_trigger_io_command_builder :: "yaml_lib \<Rightarrow> TriggerIO \<Rightarrow> StackCommandBuilder result" where
  "generate_trigger_io_command_builder lib cfg =
     result_bind (generate_trigger_io_parts cfg) (\<lambda>parts.
     result_map (setYamlMeta (fold builder_part parts (setName StackCommandBuilder_init ''init_trigger_io'')) ''trigger_io_meta'')
       (generate_meta_info_yaml lib cfg))"

definition parse_trigger_io_command_builder :: "yaml_lib \<Rightarrow> StackCommandBuilder \<Rightarrow> TriggerIO result" where
  "parse_trigger_io_command_builder lib b =
     deserialize_flat_writes lib
       (map (\<lambda>cmd. \<lparr>wc_address = sc_address cmd, wc_value = sc_value cmd\<rparr>)
         (filter (\<lambda>cmd. sc_type cmd = VMEWrite) (getCommands b)))
       (getYamlMeta b ''trigger_io_meta'')"

section \<open>The writes of a builder\<close>

lemma getCommands_set_last_comment:
  "getCommands (set_last_comment c (addCommand b cmd)) = getCommands b @ [cmd\<lparr>sc_comment := c\<rparr>]"
proof (cases "m_groups b" rule: rev_cases)
  case Nil
  then show ?thesis
    by (simp add: set_last_comment_def getLastCommand_def m_groups_addCommand getCommands_concat Let_def)
next
  case (snoc gs g)
  then show ?thesis
    by (simp add: set_last_comment_def getLastCommand_def m_groups_addCommand getCommands_concat Let_def)
qed

definition command_write :: "StackCommand \<Rightarrow> WriteCommand" where
  "command_write cmd = \<lparr>wc_address = sc_address cmd, wc_value = sc_value cmd\<rparr>"

end
