(* ===== verification/Trigger_IO_Properties.thy ===== *)
theory Trigger_IO_Properties
  imports Trigger_IO_Restore Trigger_IO_Script
begin

text \<open>
  The properties of the trigger I/O serialization: when a configuration can be
  serialized, what a configuration becomes when its VMEScript text is parsed, and what
  is left of it after the way through a stack command builder.
\<close>

section \<open>Serializable configurations\<close>

definition con_valid :: "TriggerIO \<Rightarrow> UnitAddress list \<Rightarrow> u32 \<Rightarrow> bool" where
  "con_valid cfg choices v \<longleftrightarrow> unat v < length choices \<and> \<not> isl (lookup_name cfg (choices ! unat v))"

text \<open>
  Every written connection value selects an entry of its list of choices, and the
  source selected there has a name.
\<close>

definition connections_valid :: "TriggerIO \<Rightarrow> bool" where
  "connections_valid cfg \<longleftrightarrow>
     (\<forall>i < 3. con_valid cfg (LUT2DynamicInputChoices ! i) (lut2Connections (l1 cfg) ! i)) \<and>
     (\<forall>u < 3. (\<forall>i < 3. con_valid cfg (lutChoices (Level2_DynamicInputChoices ! u) ! i) (lutConnections (l2 cfg) ! u ! i)) \<and>
        con_valid cfg (strobeChoices (Level2_DynamicInputChoices ! u)) (strobeConnections (l2 cfg) ! u)) \<and>
     (\<forall>u < 33. \<forall>i < written_inputs u. i < length (connections (l3 cfg) ! u) \<and>
        con_valid cfg (DynamicInputChoiceLists ! u ! i) (connections (l3 cfg) ! u ! i))"

lemma isl_result_bind [simp]: "isl (result_bind m f) \<longleftrightarrow> isl m \<or> isl (f (projr m))"
  by (cases m) simp_all

lemma isl_result_map [simp]: "isl (result_map f m) \<longleftrightarrow> isl m"
  by (cases m) simp_all

lemma isl_result_mapM [simp]: "isl (result_mapM f xs) \<longleftrightarrow> (\<exists>x\<in>set xs. isl (f x))"
  by (induction xs) simp_all

lemma isl_connection_name: "isl (connection_name cfg choices v) \<longleftrightarrow> \<not> con_valid cfg choices v"
  by (simp add: connection_name_def con_valid_def index_ub_def)

lemma isl_connection_part: "isl (connection_part cfg choices off v) \<longleftrightarrow> \<not> con_valid cfg choices v"
  by (simp add: connection_part_def isl_connection_name)

lemma isl_write_lut: "wf_LUT lut \<Longrightarrow> \<not> isl (write_lut lut)"
  using make_lut_ram_ok [of lut] by (auto simp: write_lut_def wf_LUT_def)

lemma isl_dynamic_inputs:
  "isl (dynamic_inputs cfg choices cons) \<longleftrightarrow> \<not> (\<forall>i < 3. con_valid cfg (choices ! i) (cons ! i))"
  by (auto simp: dynamic_inputs_def isl_connection_part)

lemma isl_l3_block:
  "isl (l3_block cfg u n ps) \<longleftrightarrow> \<not> (\<forall>i < n. i < length (connections (l3 cfg) ! u) \<and>
     con_valid cfg (DynamicInputChoiceLists ! u ! i) (connections (l3 cfg) ! u ! i))"
  by (auto simp: l3_block_def index_ub_def isl_connection_part)

lemma bex_enumerate: "(\<exists>x\<in>set (enumerate off xs). P x) \<longleftrightarrow> (\<exists>i < length xs. P (off + i, xs ! i))"
proof -
  have "set (enumerate off xs) = (\<lambda>i. (off + i, xs ! i)) ` {..<length xs}"
    by (force simp: enumerate_eq_zip set_zip)
  then show ?thesis by auto
qed

lemma bex_upt: "(\<exists>x\<in>{0..<n}. P x) \<longleftrightarrow> (\<exists>x < n. P x)" for n :: nat
  by auto

lemma all_less_add: "(\<forall>u < m + n. P u) \<longleftrightarrow> (\<forall>u < m. P u) \<and> (\<forall>j < n. P (m + j))" for m n :: nat
  by (metis add_diff_inverse_nat nat_add_left_cancel_less not_less trans_less_add1)

lemma all_units:
  "(\<forall>u < 33. P u (written_inputs u)) \<longleftrightarrow>
   (\<forall>j < 4. P j 1) \<and> (\<forall>j < 4. P (4 + j) 1) \<and> (\<forall>j < 8. P (8 + j) 2) \<and> (\<forall>j < 14. P (16 + j) 1) \<and> (\<forall>j < 3. P (30 + j) 1)"
proof -
  have "(\<forall>u < 4 + 4 + 8 + 14 + 3. P u (written_inputs u)) \<longleftrightarrow>
   (\<forall>j < 4. P j (written_inputs j)) \<and> (\<forall>j < 4. P (4 + j) (written_inputs (4 + j))) \<and>
   (\<forall>j < 8. P (4 + 4 + j) (written_inputs (4 + 4 + j))) \<and>
   (\<forall>j < 14. P (4 + 4 + 8 + j) (written_inputs (4 + 4 + 8 + j))) \<and>
   (\<forall>j < 3. P (4 + 4 + 8 + 14 + j) (written_inputs (4 + 4 + 8 + 14 + j)))"
    unfolding all_less_add by blast
  then show ?thesis by (simp add: written_inputs_def cong: conj_cong)
qed

lemma generation_succeeds:
  assumes "wf_TriggerIO cfg"
  shows "\<not> isl (generate_trigger_io_parts cfg) \<longleftrightarrow> connections_valid cfg"
proof -
  have len: "length (l1_luts (l1 cfg)) = 7" "length (l2_luts (l2 cfg)) = 3" "length (stackStart (l3 cfg)) = 4"
    "length (masterTriggers (l3 cfg)) = 4" "length (counters (l3 cfg)) = 8" "length (ioECL (l3 cfg)) = 3"
    using assms by (simp_all add: wf_TriggerIO_def)
  have wf: "i < 7 \<Longrightarrow> \<not> isl (write_lut (l1_luts (l1 cfg) ! i))" "i < 3 \<Longrightarrow> \<not> isl (write_lut (l2_luts (l2 cfg) ! i))" for i
    using assms by (auto simp: wf_TriggerIO_def list_all_length isl_write_lut)
  have 1: "(\<exists>x\<in>set (enumerate 0 (l1_luts (l1 cfg))). isl (l1_lut_part cfg x)) \<longleftrightarrow>
      \<not> (\<forall>i < 3. con_valid cfg (LUT2DynamicInputChoices ! i) (lut2Connections (l1 cfg) ! i))"
    using wf(1) by (auto simp: bex_enumerate len l1_lut_part_def isl_dynamic_inputs)
  have 2: "(\<exists>x\<in>set (enumerate 0 (l2_luts (l2 cfg))). isl (l2_lut_part cfg x)) \<longleftrightarrow>
      \<not> (\<forall>u < 3. (\<forall>i < 3. con_valid cfg (lutChoices (Level2_DynamicInputChoices ! u) ! i) (lutConnections (l2 cfg) ! u ! i)) \<and>
        con_valid cfg (strobeChoices (Level2_DynamicInputChoices ! u)) (strobeConnections (l2 cfg) ! u))"
    using wf(2) by (auto simp: bex_enumerate len l2_lut_part_def isl_dynamic_inputs isl_connection_name Let_def)
  have 3: "isl (level3_units cfg) \<or> isl (level3_outputs cfg) \<longleftrightarrow>
      \<not> (\<forall>u < 33. \<forall>i < written_inputs u. i < length (connections (l3 cfg) ! u) \<and>
        con_valid cfg (DynamicInputChoiceLists ! u ! i) (connections (l3 cfg) ! u ! i))"
    unfolding all_units [where P = "\<lambda>u n. \<forall>i < n. i < length (connections (l3 cfg) ! u) \<and>
        con_valid cfg (DynamicInputChoiceLists ! u ! i) (connections (l3 cfg) ! u ! i)"]
    by (simp add: level3_units_def level3_outputs_def bex_enumerate len isl_l3_block bex_upt add.commute
        del: upt_rec_numeral)
  show ?thesis
    using 1 2 3 by (auto simp: generate_trigger_io_parts_def connections_valid_def)
qed
section \<open>The registers of a configuration\<close>

lemma choices_small:
  "i < 3 \<Longrightarrow> length (LUT2DynamicInputChoices ! i) < 100"
  "u < 3 \<Longrightarrow> i < 3 \<Longrightarrow> length (lutChoices (Level2_DynamicInputChoices ! u) ! i) < 100"
  "u < 3 \<Longrightarrow> length (strobeChoices (Level2_DynamicInputChoices ! u)) < 100"
  "u < 33 \<Longrightarrow> i < written_inputs u \<Longrightarrow> length (DynamicInputChoiceLists ! u ! i) < 100"
proof -
  have "\<forall>i < 3. length (LUT2DynamicInputChoices ! i) < 100"
    "\<forall>u < 3. \<forall>i < 3. length (lutChoices (Level2_DynamicInputChoices ! u) ! i) < 100"
    "\<forall>u < 3. length (strobeChoices (Level2_DynamicInputChoices ! u)) < 100"
    "\<forall>u < 33. \<forall>i < written_inputs u. length (DynamicInputChoiceLists ! u ! i) < 100" by code_simp+
  then show "i < 3 \<Longrightarrow> length (LUT2DynamicInputChoices ! i) < 100"
    "u < 3 \<Longrightarrow> i < 3 \<Longrightarrow> length (lutChoices (Level2_DynamicInputChoices ! u) ! i) < 100"
    "u < 3 \<Longrightarrow> length (strobeChoices (Level2_DynamicInputChoices ! u)) < 100"
    "u < 33 \<Longrightarrow> i < written_inputs u \<Longrightarrow> length (DynamicInputChoiceLists ! u ! i) < 100" by blast+
qed

lemma con_valid_small: "con_valid cfg choices v \<Longrightarrow> length choices < 100 \<Longrightarrow> v < 0x10000"
  by (simp add: con_valid_def word_less_nat_alt)

lemma valid_small:
  assumes "wf_TriggerIO cfg" "connections_valid cfg"
  shows "small (lut2Connections (l1 cfg))" "level2_small (l2 cfg)" "inputs_ok (l3 cfg)"
proof -
  note v = assms(2) [unfolded connections_valid_def]
  have len: "length (lut2Connections (l1 cfg)) = 3" "length (lutConnections (l2 cfg)) = 3" "length (strobeConnections (l2 cfg)) = 3"
    "\<And>u. u < 3 \<Longrightarrow> length (lutConnections (l2 cfg) ! u) = 3"
    using assms(1) by (auto simp: wf_TriggerIO_def list_all_length)
  show "small (lut2Connections (l1 cfg))"
    using v choices_small(1) by (auto simp: small_def list_all_length len intro!: con_valid_small)
  show "level2_small (l2 cfg)"
    using v choices_small(2,3) by (auto simp: level2_small_def small_def list_all_length len intro!: con_valid_small)
  have "written_inputs u \<le> length (connections (l3 cfg) ! u)" if "u < 33" for u
  proof (rule ccontr)
    assume "\<not> ?thesis"
    then show False using v that by (auto simp: not_le)
  qed
  moreover have "connections (l3 cfg) ! u ! i < 0x10000" if "u < 33" "i < written_inputs u" for u i
    by (rule con_valid_small [of cfg "DynamicInputChoiceLists ! u ! i"]) (use v that choices_small(4) in blast)+
  ultimately show "inputs_ok (l3 cfg)"
    by (auto simp: inputs_ok_def small_def list_all_length)
qed

definition parsed_config :: "TriggerIO \<Rightarrow> TriggerIO" where
  "parsed_config cfg =
     \<lparr>l0 = parsed_level0 (l0 cfg), l1 = parsed_level1 (l1 cfg), l2 = parsed_level2 (l2 cfg),
      l3 = parsed_level3 (ioNIM (l0 cfg)) (l3 cfg)\<rparr>"

lemma grouped_parsed:
  assumes "wf_TriggerIO cfg" "connections_valid cfg" "grouped lws cfg"
  shows "trigger_io_from_writes lws = parsed_config cfg"
proof -
  have "length (ioNIM (l0 cfg)) = 14" "ioNIM (parsed_level0 (l0 cfg)) = ioNIM (l0 cfg)"
    using assms(1) by (simp_all add: wf_TriggerIO_def parsed_level0_def)
  then show ?thesis
    using level0_parsed [OF assms(1,3)] level1_parsed [OF assms(1,3)] level2_parsed [OF assms(1,3)]
      level3_parsed [OF assms(1,3)] valid_small [OF assms(1,2)]
    by (simp add: trigger_io_from_writes_def TriggerIO_init_def then_step_def in_member_def copy_nim_def parsed_config_def)
qed

lemma registers_restored:
  assumes "wf_TriggerIO cfg" "generate_trigger_io_parts cfg = Inr parts"
  shows "\<exists>lws. level_writes_from_flat_writes (map write_command (concat (map script_writes parts))) = Inr lws \<and>
    trigger_io_from_writes lws = parsed_config cfg"
proof -
  have valid: "connections_valid cfg" using generation_succeeds [OF assms(1)] assms(2) by simp
  obtain lws where lws: "level_writes_from_flat_writes (map write_command (concat (map image_writes (images cfg)))) = Inr lws"
    "grouped lws cfg"
    using level_writes_images [OF images_ok [OF assms(1)] images_distinct [OF assms(1)]] unfolding grouped_def by blast
  then show ?thesis
    using grouped_parsed [OF assms(1) valid lws(2)] parts_images [OF assms(2)] by auto
qed

section \<open>Names and soft activation\<close>

text \<open>
  What the code relies on of the YAML library: the key written for a number is found
  under that number, and scalars are converted back.
\<close>

definition yaml_ok :: "yaml_lib \<Rightarrow> bool" where
  "yaml_ok lib \<longleftrightarrow> (\<forall>n. yaml_int_key lib (fmt_dec n) = Some n) \<and> (\<forall>s. yaml_as_string lib (YScalar s) = Inr s) \<and>
     yaml_as_bool lib (YScalar ''true'') = Inr True \<and> yaml_as_bool lib (YScalar ''false'') = Inr False"

lemma result_mapM_Inr: "(\<And>x. x \<in> set xs \<Longrightarrow> f x = Inr (g x)) \<Longrightarrow> result_mapM f xs = Inr (map g xs)"
  by (induction xs) simp_all

lemma unit_name_map_ok:
  assumes "\<And>i d. (i, d) \<in> set ds \<Longrightarrow> i < length names \<and> d \<noteq> UnitNotAvailable"
  shows "unit_name_map names ds = Inr (map (\<lambda>(i, d). (i, names ! i)) ds)"
proof -
  have "result_mapM (\<lambda>(i, d). result_map (\<lambda>name. (i, d, name)) (at_result names i)) ds =
      Inr (map (\<lambda>(i, d). (i, d, names ! i)) ds)"
    using assms by (intro result_mapM_Inr) (auto simp: at_result_def)
  moreover have "filter (\<lambda>(i, d, name). d \<noteq> UnitNotAvailable) (map (\<lambda>(i, d). (i, d, names ! i)) ds) =
      map (\<lambda>(i, d). (i, d, names ! i)) ds"
    by (auto intro!: filter_True dest: assms)
  ultimately show ?thesis by (simp add: unit_name_map_def comp_def case_prod_beta)
qed

lemma yaml_get_int_map:
  assumes "yaml_ok lib"
  shows "yaml_get_int lib (YMap (map (\<lambda>(i, x). (fmt_dec i, f x)) m)) i = Inr (map_option f (map_of m i))"
  using assms by (induction m) (auto simp: yaml_ok_def)

lemma new_name_map:
  assumes "yaml_ok lib"
  shows "new_name lib (name_map_yaml m) i name = Inr (case map_of m i of Some n \<Rightarrow> n | None \<Rightarrow> name)"
  unfolding new_name_def name_map_yaml_def yaml_get_int_map [OF assms] if_defined_def
  using assms by (auto simp: yaml_ok_def split: option.splits)

lemma map_of_names: "map_of (map (\<lambda>(i, d). (i, f i)) ds) i = (if i \<in> fst ` set ds then Some (f i) else None)"
  by (induction ds) auto

lemma enumerate_fst: "fst ` set (enumerate off xs) = {off..<off + length xs}"
  by (simp add: enumerate_eq_zip set_map [symmetric] del: set_map)

definition names_sized :: "TriggerIO \<Rightarrow> bool" where
  "names_sized cfg \<longleftrightarrow> length (l0_unitNames (l0 cfg)) = 39 \<and> length (l3_unitNames (l3 cfg)) = 34"

text \<open>The document: the names of level 0, of the lookup tables and of the units of level 3 that are not NIM outputs.\<close>

definition names0 :: "TriggerIO \<Rightarrow> NameMap" where
  "names0 cfg = map (\<lambda>(i, d). (i, l0_unitNames (l0 cfg) ! i)) (enumerate 0 Level0_DefaultUnitNames)"

definition names3 :: "TriggerIO \<Rightarrow> NameMap" where
  "names3 cfg = map (\<lambda>(i, d). (i, l3_unitNames (l3 cfg) ! i))
     (filter (\<lambda>(i, d). \<not> is_nim_unit i) (enumerate 0 Level3_DefaultUnitNames))"

definition lut_entries :: "LUT list \<Rightarrow> (nat \<times> NameMap) list" where
  "lut_entries luts = map (\<lambda>(i, lut). (i, enumerate 0 (outputNames lut))) (enumerate 0 luts)"

definition meta_document :: "TriggerIO \<Rightarrow> yaml" where
  "meta_document cfg = YMap
     [(''names'', YMap [(''level0'', name_map_yaml (names0 cfg)),
        (''level1'', lut_maps_yaml (lut_entries (l1_luts (l1 cfg)))),
        (''level2'', lut_maps_yaml (lut_entries (l2_luts (l2 cfg)))), (''level3'', name_map_yaml (names3 cfg))]),
      (''settings'', meta_settings cfg)]"

lemma default_names:
  "length Level0_DefaultUnitNames = 39" "length Level3_DefaultUnitNames = 34"
  "d \<in> set Level0_DefaultUnitNames \<Longrightarrow> d \<noteq> UnitNotAvailable" "d \<in> set Level3_DefaultUnitNames \<Longrightarrow> d \<noteq> UnitNotAvailable"
proof -
  show "length Level0_DefaultUnitNames = 39" "length Level3_DefaultUnitNames = 34" by code_simp+
  have "list_all (\<lambda>d. d \<noteq> UnitNotAvailable) (Level0_DefaultUnitNames @ Level3_DefaultUnitNames)" by code_simp
  then show "d \<in> set Level0_DefaultUnitNames \<Longrightarrow> d \<noteq> UnitNotAvailable"
    "d \<in> set Level3_DefaultUnitNames \<Longrightarrow> d \<noteq> UnitNotAvailable" by (auto simp: list_all_iff)
qed

lemma in_set_enumerate: "(i, d) \<in> set (enumerate 0 ds) \<Longrightarrow> i < length ds \<and> d \<in> set ds"
  by (auto simp: in_set_enumerate_eq)

lemma enumerate_empty [simp]: "enumerate off xs = [] \<longleftrightarrow> xs = []"
  by (cases xs) simp_all

lemma lut_name_maps_entries:
  assumes "list_all wf_LUT luts"
  shows "lut_name_maps luts = lut_entries luts"
  using assms unfolding lut_name_maps_def lut_entries_def
  by (intro filter_True) (auto simp: list_all_iff wf_LUT_def dest!: in_set_enumerate)

lemma meta_info_document:
  assumes "wf_TriggerIO cfg" "names_sized cfg"
  shows "meta_info cfg = Inr (meta_document cfg)"
proof -
  have luts: "lut_name_maps (l1_luts (l1 cfg)) = lut_entries (l1_luts (l1 cfg))"
    "lut_name_maps (l2_luts (l2 cfg)) = lut_entries (l2_luts (l2 cfg))"
    using assms(1) by (simp_all add: wf_TriggerIO_def lut_name_maps_entries)
  have ne: "lut_entries (l1_luts (l1 cfg)) \<noteq> []" "lut_entries (l2_luts (l2 cfg)) \<noteq> []"
    using assms(1) by (auto simp: wf_TriggerIO_def lut_entries_def)
  have "unit_name_map (l0_unitNames (l0 cfg)) (enumerate 0 Level0_DefaultUnitNames) = Inr (names0 cfg)"
    unfolding names0_def using assms(2) default_names
    by (intro unit_name_map_ok) (auto dest!: in_set_enumerate simp: names_sized_def)
  moreover have "unit_name_map (l3_unitNames (l3 cfg)) (filter (\<lambda>(i, d). \<not> is_nim_unit i) (enumerate 0 Level3_DefaultUnitNames)) =
      Inr (names3 cfg)"
    unfolding names3_def using assms(2) default_names
    by (intro unit_name_map_ok) (auto dest!: in_set_enumerate simp: names_sized_def)
  moreover have "names0 cfg \<noteq> []" "names3 cfg \<noteq> []"
  proof -
    show "names0 cfg \<noteq> []" by (simp add: names0_def Level0_DefaultUnitNames_def)
    have "filter (\<lambda>(i, d). \<not> is_nim_unit i) (enumerate 0 Level3_DefaultUnitNames) \<noteq> []" by code_simp
    then show "names3 cfg \<noteq> []" by (simp add: names3_def)
  qed
  ultimately show ?thesis
    using luts ne by (simp add: meta_info_def meta_names_def meta_document_def map_entry_def)
qed

definition shared_names :: "string list \<Rightarrow> nat \<Rightarrow> string list \<Rightarrow> string list" where
  "shared_names nim k names = map (\<lambda>(i, name). if is_nim_unit i \<and> i < k then nim ! i else name) (enumerate 0 names)"

lemma shared_names_nth: "i < length names \<Longrightarrow>
    shared_names nim k names ! i = (if is_nim_unit i \<and> i < k then nim ! i else names ! i)"
  by (simp add: shared_names_def nth_enumerate_eq)

lemma length_shared_names [simp]: "length (shared_names nim k names) = length names"
  by (simp add: shared_names_def)

lemma level0_names_applied:
  assumes "yaml_ok lib" "length names = 39" "length (l0_unitNames (l0 c)) = 39" "length (l3_unitNames (l3 c)) = 34"
    and m: "\<And>i. i < 39 \<Longrightarrow> map_of m i = Some (names ! i)"
  shows "result_foldM (level0_name lib (name_map_yaml m)) [0..<39] c =
    Inr (c\<lparr>l0 := (l0 c)\<lparr>l0_unitNames := names\<rparr>, l3 := (l3 c)\<lparr>l3_unitNames := shared_names names 39 (l3_unitNames (l3 c))\<rparr>\<rparr>)"
proof -
  let ?c = "\<lambda>k. c\<lparr>l0 := (l0 c)\<lparr>l0_unitNames := take k names @ drop k (l0_unitNames (l0 c))\<rparr>,
      l3 := (l3 c)\<lparr>l3_unitNames := shared_names names k (l3_unitNames (l3 c))\<rparr>\<rparr>"
  have "k \<le> 39 \<Longrightarrow> result_foldM (level0_name lib (name_map_yaml m)) [0..<k] c = Inr (?c k)" for k
  proof (induction k)
    case 0
    have "shared_names names 0 (l3_unitNames (l3 c)) = l3_unitNames (l3 c)"
      by (rule nth_equalityI) (simp_all add: shared_names_nth)
    then show ?case by simp
  next
    case (Suc k)
    let ?old = "l3_unitNames (l3 c)"
    have k: "k < 39" using Suc.prems by simp
    have a: "(take k names @ drop k (l0_unitNames (l0 c)))[k := names ! k] = take (Suc k) names @ drop (Suc k) (l0_unitNames (l0 c))"
      using k assms(2,3) by (intro nth_equalityI) (auto simp: nth_append nth_list_update min_def less_Suc_eq)
    have b: "is_nim_unit k \<Longrightarrow> (shared_names names k ?old)[k := names ! k] = shared_names names (Suc k) ?old"
      using assms(4) by (intro nth_equalityI) (auto simp: shared_names_nth nth_list_update less_Suc_eq is_nim_unit_def)
    have d: "\<not> is_nim_unit k \<Longrightarrow> shared_names names k ?old = shared_names names (Suc k) ?old"
      by (intro nth_equalityI) (auto simp: shared_names_nth less_Suc_eq)
    have "is_nim_unit k \<Longrightarrow> k < 34" by (simp add: is_nim_unit_def)
    then have "level0_name lib (name_map_yaml m) k (?c k) = Inr (?c (Suc k))"
      using k assms(4) a b d by (cases "is_nim_unit k") (simp_all add: level0_name_def new_name_map [OF assms(1)] m Let_def)
    then show ?case using Suc by simp
  qed
  from this [of 39] show ?thesis using assms(2,3) by simp
qed

lemma if_defined_Some [simp]: "if_defined (Inr (Some y)) body s = body y"
  by (simp add: if_defined_def)

lemma map_of_enumerate_nth: "i < length xs \<Longrightarrow> map_of (enumerate 0 xs) i = Some (xs ! i)"
  by (induction xs rule: rev_induct) (auto simp: enumerate_append_eq map_add_Some_iff nth_append less_Suc_eq dest!: map_of_SomeD in_set_enumerate split: option.splits)

lemma lut_names_applied:
  assumes "yaml_ok lib" "length names = length (outputNames lut)"
  shows "lut_names lib (name_map_yaml (enumerate 0 names)) lut = Inr (lut\<lparr>outputNames := names\<rparr>)"
proof -
  have "result_mapM (\<lambda>(i, name). new_name lib (name_map_yaml (enumerate 0 names)) i name) (enumerate 0 (outputNames lut)) =
      Inr (map (\<lambda>(i, name). names ! i) (enumerate 0 (outputNames lut)))"
    using assms(2) by (intro result_mapM_Inr)
      (auto simp: new_name_map [OF assms(1)] map_of_enumerate_nth dest!: in_set_enumerate)
  moreover have "map (\<lambda>(i, name). names ! i) (enumerate 0 (outputNames lut)) = names"
    using assms(2) by (intro nth_equalityI) (simp_all add: nth_enumerate_eq)
  ultimately show ?thesis by (simp add: lut_names_def)
qed

lemma luts_names_applied:
  assumes "yaml_ok lib" "list_all wf_LUT luts" "length luts' = length luts" "list_all wf_LUT luts'"
  shows "luts_names lib (lut_maps_yaml (lut_entries luts)) luts' =
    Inr (map (\<lambda>(lut, lut'). lut'\<lparr>outputNames := outputNames lut\<rparr>) (zip luts luts'))"
proof -
  have ent: "map_of (lut_entries luts) i = Some (enumerate 0 (outputNames (luts ! i)))" if "i < length luts" for i
  proof -
    have "map_of (lut_entries luts) i = map_option (\<lambda>lut. enumerate 0 (outputNames lut)) (map_of (enumerate 0 luts) i)"
      by (simp add: lut_entries_def map_of_map)
    then show ?thesis using that by (simp add: map_of_enumerate_nth)
  qed
  have "luts_names lib (lut_maps_yaml (lut_entries luts)) luts' =
      Inr (map (\<lambda>(i, lut'). lut'\<lparr>outputNames := outputNames (luts ! i)\<rparr>) (enumerate 0 luts'))"
    unfolding luts_names_def
  proof (rule result_mapM_Inr)
    fix x assume x: "x \<in> set (enumerate 0 luts')"
    obtain i lut' where x': "x = (i, lut')" by (cases x)
    then have i: "i < length luts" "lut' \<in> set luts'" using x assms(3) by (auto dest!: in_set_enumerate)
    then have len: "length (outputNames (luts ! i)) = length (outputNames lut')"
      using assms(2,4) by (simp add: list_all_iff wf_LUT_def)
    have "yaml_get_int lib (lut_maps_yaml (lut_entries luts)) i = Inr (Some (name_map_yaml (enumerate 0 (outputNames (luts ! i)))))"
      unfolding lut_maps_yaml_def yaml_get_int_map [OF assms(1)] using ent i by simp
    then show "(case x of (i, lut) \<Rightarrow> if_defined (yaml_get_int lib (lut_maps_yaml (lut_entries luts)) i)
        (\<lambda>yNames. lut_names lib yNames lut) lut) = Inr (case x of (i, lut') \<Rightarrow> lut'\<lparr>outputNames := outputNames (luts ! i)\<rparr>)"
      using lut_names_applied [OF assms(1) len] by (simp add: x')
  qed
  also have "map (\<lambda>(i, lut'). lut'\<lparr>outputNames := outputNames (luts ! i)\<rparr>) (enumerate 0 luts') =
      map (\<lambda>(lut, lut'). lut'\<lparr>outputNames := outputNames lut\<rparr>) (zip luts luts')"
    using assms(3) by (intro nth_equalityI) (simp_all add: nth_enumerate_eq)
  finally show ?thesis .
qed

lemma level3_names_applied:
  assumes "yaml_ok lib" "length old = 34"
  shows "level3_names lib (name_map_yaml (names3 cfg)) old =
    Inr (map (\<lambda>(i, name). if is_nim_unit i then name else l3_unitNames (l3 cfg) ! i) (enumerate 0 old))"
  unfolding level3_names_def
proof (rule result_mapM_Inr)
  fix x assume "x \<in> set (enumerate 0 old)"
  moreover obtain i name where x: "x = (i, name)" by (cases x)
  ultimately have i: "i < 34" using assms(2) in_set_enumerate by force
  have "i \<in> fst ` set (filter (\<lambda>(i, d). \<not> is_nim_unit i) (enumerate 0 Level3_DefaultUnitNames))" if "\<not> is_nim_unit i"
    using that i default_names(2) by (force simp: in_set_enumerate_eq image_iff)
  then have "\<not> is_nim_unit i \<Longrightarrow> map_of (names3 cfg) i = Some (l3_unitNames (l3 cfg) ! i)"
    unfolding names3_def map_of_names by simp
  then show "(case x of (i, name) \<Rightarrow> if is_nim_unit i then Inr name else new_name lib (name_map_yaml (names3 cfg)) i name) =
      Inr (case x of (i, name) \<Rightarrow> if is_nim_unit i then name else l3_unitNames (l3 cfg) ! i)"
    by (simp add: x new_name_map [OF assms(1)])
qed

lemma soft_activate_applied:
  assumes "yaml_ok lib" "j < length bs"
  shows "soft_activate lib (YMap (map soft_activate_yaml (enumerate off bs))) (off + j) old = bs ! j"
proof -
  have "map_of (enumerate off bs) (off + j) = Some (bs ! j)"
    using map_of_zip_nth [of "[off..<off + length bs]" bs j] assms(2) by (simp add: enumerate_eq_zip)
  then have "yaml_get_int lib (YMap (map (\<lambda>(i, b). (fmt_dec i, YMap [(''soft_activate'', bool_yaml b)])) (enumerate off bs))) (off + j) =
      Inr (Some (YMap [(''soft_activate'', bool_yaml (bs ! j))]))"
    unfolding yaml_get_int_map [OF assms(1)] by (simp only: option.map)
  then have "yaml_get_int lib (YMap (map soft_activate_yaml (enumerate off bs))) (off + j) =
      Inr (Some (YMap [(''soft_activate'', bool_yaml (bs ! j))]))"
    by (simp only: soft_activate_yaml_def)
  then show ?thesis using assms(1) unfolding soft_activate_def by (simp only:) (simp add: bool_yaml_def yaml_ok_def)
qed

lemma soft_activate_units:
  assumes "yaml_ok lib" "length us = length xs"
    and upd: "\<And>j b. j < length xs \<Longrightarrow> b = get (xs ! j) \<Longrightarrow> upd (us ! j) b = xs ! j"
  shows "map (\<lambda>(i, un). upd un (soft_activate lib (YMap (map soft_activate_yaml (enumerate off (map get xs)))) i (old un)))
      (enumerate off us) = xs"
  using assms(2)
  by (intro nth_equalityI) (simp_all add: nth_enumerate_eq soft_activate_applied [OF assms(1)] upd)

definition default_lut_names :: "LUT \<Rightarrow> LUT" where
  "default_lut_names lut = lut\<lparr>defaultOutputNames := replicate 3 []\<rparr>"

definition restored_gg :: "IO \<Rightarrow> IO" where
  "restored_gg gg = (if io_width gg = 0 then (plain_io gg)\<lparr>io_width := 8\<rparr> else plain_io gg)"

text \<open>
  What a configuration becomes: gate generators lose direction and activation (also
  the ECL outputs), the lookup tables their default names, those of level 1 also the
  strobe settings; the NIM outputs and their names are those of level 0; of the
  connections of level 3 only the written ones are kept.
\<close>

definition restored :: "TriggerIO \<Rightarrow> TriggerIO" where
  "restored cfg =
     \<lparr>l0 = (l0 cfg)\<lparr>triggerResources := map plain_resource (triggerResources (l0 cfg)),
             ioIRQ := map plain_io (ioIRQ (l0 cfg))\<rparr>,
      l1 = (l1 cfg)\<lparr>l1_luts := map (\<lambda>lut. default_lut_names (lut\<lparr>strobedOutputs := 0, strobeGG := restored_gg IO_init\<rparr>))
             (l1_luts (l1 cfg))\<rparr>,
      l2 = (l2 cfg)\<lparr>l2_luts := map (\<lambda>lut. default_lut_names (lut\<lparr>strobeGG := restored_gg (strobeGG lut)\<rparr>))
             (l2_luts (l2 cfg))\<rparr>,
      l3 = (l3 cfg)\<lparr>l3_ioNIM := ioNIM (l0 cfg), ioECL := map plain_io (ioECL (l3 cfg)),
             l3_unitNames := shared_names (l0_unitNames (l0 cfg)) 39 (l3_unitNames (l3 cfg)),
             connections := map (\<lambda>u. take (written_inputs u) (connections (l3 cfg) ! u)) [0..<33]\<rparr>\<rparr>"

lemma parsed_lut_renamed:
  "wf_LUT lut \<Longrightarrow> (parsed_lut lut s gg)\<lparr>outputNames := outputNames lut\<rparr> =
   default_lut_names (lut\<lparr>strobedOutputs := s, strobeGG := (if io_width gg = 0 then gg\<lparr>io_width := 8\<rparr> else gg)\<rparr>)"
  by (cases lut) (simp add: parsed_lut_def default_lut_names_def LUT_init_def)

lemma parsed_luts_renamed:
  assumes "list_all wf_LUT luts"
  shows "map (\<lambda>(lut, lut'). lut'\<lparr>outputNames := outputNames lut\<rparr>) (zip luts (map (\<lambda>lut. parsed_lut lut (s lut) (gg lut)) luts)) =
    map (\<lambda>lut. default_lut_names (lut\<lparr>strobedOutputs := s lut,
       strobeGG := (if io_width (gg lut) = 0 then (gg lut)\<lparr>io_width := 8\<rparr> else gg lut)\<rparr>)) luts"
  using assms by (intro nth_equalityI) (auto simp: parsed_lut_renamed list_all_length)

lemma wf_parsed_lut [simp]: "wf_LUT lut \<Longrightarrow> wf_LUT (parsed_lut lut s gg)"
  by (simp add: wf_LUT_def parsed_lut_def LUT_init_def)

lemma names_applied:
  assumes "wf_TriggerIO cfg" "names_sized cfg" "yaml_ok lib"
  shows "apply_names lib (YMap [(''level0'', name_map_yaml (names0 cfg)),
        (''level1'', lut_maps_yaml (lut_entries (l1_luts (l1 cfg)))),
        (''level2'', lut_maps_yaml (lut_entries (l2_luts (l2 cfg)))), (''level3'', name_map_yaml (names3 cfg))])
      (parsed_config cfg) =
    Inr (restored cfg
      \<lparr>l0 := (l0 (restored cfg))\<lparr>timers := map (\<lambda>t. t\<lparr>tm_softActivate := False\<rparr>) (timers (l0 cfg))\<rparr>,
       l3 := (l3 (restored cfg))\<lparr>counters := map (\<lambda>c. c\<lparr>ct_softActivate := False\<rparr>) (counters (l3 cfg))\<rparr>\<rparr>)"
proof -
  let ?n = "l0_unitNames (l0 cfg)"
  have luts: "list_all wf_LUT (l1_luts (l1 cfg))" "list_all wf_LUT (l2_luts (l2 cfg))"
    using assms(1) by (simp_all add: wf_TriggerIO_def)
  have 0: "map_of (names0 cfg) i = Some (?n ! i)" if "i < 39" for i
    unfolding names0_def map_of_names enumerate_fst using that default_names(1) by simp
  note n0 = level0_names_applied [OF assms(3) _ _ _ 0, where c = "parsed_config cfg"]
  have len: "length ?n = 39" "length Level0_DefaultUnitNames = 39" "length Level3_DefaultUnitNames = 34"
    "length (l3_unitNames (l3 cfg)) = 34" using assms(2) default_names by (simp_all add: names_sized_def)
  have l1: "luts_names lib (lut_maps_yaml (lut_entries (l1_luts (l1 cfg)))) (l1_luts (parsed_level1 (l1 cfg))) =
      Inr (l1_luts (l1 (restored cfg)))"
    using luts_names_applied [OF assms(3) luts(1), of "l1_luts (parsed_level1 (l1 cfg))"] parsed_luts_renamed [OF luts(1)] luts(1)
    by (simp add: parsed_level1_def restored_def restored_gg_def list_all_iff IO_init_def plain_io_def)
  have l2: "luts_names lib (lut_maps_yaml (lut_entries (l2_luts (l2 cfg)))) (l2_luts (parsed_level2 (l2 cfg))) =
      Inr (l2_luts (l2 (restored cfg)))"
    using luts_names_applied [OF assms(3) luts(2), of "l2_luts (parsed_level2 (l2 cfg))"] parsed_luts_renamed [OF luts(2)] luts(2)
    by (simp add: parsed_level2_def restored_def restored_gg_def list_all_iff plain_io_def)
  have "map (\<lambda>(i, name). if is_nim_unit i then name else l3_unitNames (l3 cfg) ! i)
      (enumerate 0 (shared_names ?n 39 Level3_DefaultUnitNames)) = shared_names ?n 39 (l3_unitNames (l3 cfg))"
    using len by (intro nth_equalityI) (auto simp: nth_enumerate_eq shared_names_nth)
  then have l3: "level3_names lib (name_map_yaml (names3 cfg)) (shared_names ?n 39 Level3_DefaultUnitNames) =
      Inr (l3_unitNames (l3 (restored cfg)))"
    using level3_names_applied [OF assms(3), of "shared_names ?n 39 Level3_DefaultUnitNames" cfg] len by (simp add: restored_def)
  show ?thesis
    unfolding apply_names_def using n0 l1 l2 l3 len
    by (cases cfg) (simp add: parsed_config_def parsed_level0_def parsed_level3_def parsed_level1_def parsed_level2_def restored_def
        del: upt_rec_numeral)
qed

lemma settings_applied:
  assumes "yaml_ok lib"
  shows "apply_settings lib (meta_settings cfg) (restored cfg
      \<lparr>l0 := (l0 (restored cfg))\<lparr>timers := map (\<lambda>t. t\<lparr>tm_softActivate := False\<rparr>) (timers (l0 cfg))\<rparr>,
       l3 := (l3 (restored cfg))\<lparr>counters := map (\<lambda>c. c\<lparr>ct_softActivate := False\<rparr>) (counters (l3 cfg))\<rparr>\<rparr>) =
    Inr (restored cfg)"
proof -
  let ?y = "\<lambda>off get xs. YMap (map soft_activate_yaml (enumerate off (map get xs)))"
  have "map (\<lambda>(i, un). un\<lparr>tm_softActivate := soft_activate lib (?y 0 tm_softActivate (timers (l0 cfg))) i (tm_softActivate un)\<rparr>)
      (enumerate 0 (map (\<lambda>t. t\<lparr>tm_softActivate := False\<rparr>) (timers (l0 cfg)))) = timers (l0 cfg)"
    by (rule soft_activate_units [OF assms, where upd = "\<lambda>un b. un\<lparr>tm_softActivate := b\<rparr>"]) simp_all
  moreover have "map (\<lambda>(i, un). un\<lparr>ct_softActivate := soft_activate lib (?y 8 ct_softActivate (counters (l3 cfg))) i (ct_softActivate un)\<rparr>)
      (enumerate 8 (map (\<lambda>c. c\<lparr>ct_softActivate := False\<rparr>) (counters (l3 cfg)))) = counters (l3 cfg)"
    by (rule soft_activate_units [OF assms, where upd = "\<lambda>un b. un\<lparr>ct_softActivate := b\<rparr>"]) simp_all
  ultimately show ?thesis
    by (cases cfg) (simp add: apply_settings_def meta_settings_def restored_def del: map_map upt_rec_numeral)
qed

lemma meta_applied:
  assumes "wf_TriggerIO cfg" "names_sized cfg" "yaml_ok lib" "yaml_load lib txt = Inr (meta_document cfg)"
  shows "apply_meta_info_yaml lib (parsed_config cfg) txt = Inr (restored cfg)"
  unfolding apply_meta_info_yaml_def assms(4)
  using names_applied [OF assms(1-3)] settings_applied [OF assms(3), of cfg] by (simp add: meta_document_def)

end
