(* ===== verification/Trigger_IO_Script_Text.thy ===== *)
theory Trigger_IO_Script_Text
  imports Trigger_IO_Script Trigger_IO_Roundtrip
begin

text \<open>
  Parsing the VMEScript text of a list of script parts gives the register writes of
  the parts. Other lines of the text are read as writes to address zero, which the
  grouping of the writes ignores.
\<close>

section \<open>Lines of a text\<close>

lemma getlines_Nil [simp]: "getlines [] = []"
  by (simp add: getlines.simps)

lemma getlines_line: "newline \<notin> set l \<Longrightarrow> getlines (l @ newline # s) = l # getlines s"
proof -
  assume l: "newline \<notin> set l"
  have "takeWhile (\<lambda>c. c \<noteq> newline) (l @ newline # s) = l" "dropWhile (\<lambda>c. c \<noteq> newline) (l @ newline # s) = newline # s"
    using l by (induction l) auto
  then show ?thesis by (subst getlines.simps) simp
qed

lemma unlines_simps [simp]: "unlines [] = []" "unlines (l # ls) = l @ newline # unlines ls" "unlines (ls @ ms) = unlines ls @ unlines ms"
  by (simp_all add: unlines_def)

lemma getlines_unlines: "list_all (\<lambda>l. newline \<notin> set l) ls \<Longrightarrow> getlines (unlines ls @ s) = ls @ getlines s"
  by (induction ls) (simp_all add: getlines_line)

lemma ends_with_newline: "\<exists>ls. s @ [newline] = unlines ls \<and> list_all (\<lambda>l. newline \<notin> set l) ls"
proof (induction "length s" arbitrary: s rule: less_induct)
  case less
  show ?case
  proof (cases "newline \<in> set s")
    case False
    then show ?thesis by (intro exI [of _ "[s]"]) simp
  next
    case True
    then obtain l t where s: "s = l @ newline # t" "newline \<notin> set l" by (meson split_list_first)
    then obtain ls where "t @ [newline] = unlines ls" "list_all (\<lambda>l. newline \<notin> set l) ls" using less [of t] by auto
    then show ?thesis using s by (intro exI [of _ "l # ls"]) simp
  qed
qed

lemma getlines_append: "getlines (s @ newline # t) = getlines (s @ [newline]) @ getlines t"
  and unlines_getlines: "unlines (getlines (s @ [newline])) = s @ [newline]"
proof -
  obtain ls where ls: "s @ [newline] = unlines ls" "list_all (\<lambda>l. newline \<notin> set l) ls" using ends_with_newline by blast
  have "s @ newline # t = (s @ [newline]) @ t" by simp
  then have "s @ newline # t = unlines ls @ t" by (simp only: ls(1))
  then show "getlines (s @ newline # t) = getlines (s @ [newline]) @ getlines t"
    using getlines_unlines [OF ls(2), of t] getlines_unlines [OF ls(2), of "[]"] by (simp only: ls(1) append_Nil2 getlines_Nil)
  show "unlines (getlines (s @ [newline])) = s @ [newline]"
    using getlines_unlines [OF ls(2), of "[]"] by (simp only: ls(1) append_Nil2 getlines_Nil)
qed

section \<open>Numbers of a text\<close>

lemma parse_numeric_plain:
  assumes "\<not> startswith str ''0b''" "\<not> startswith str ''0B''" "stoul_pos str = Inr (unat v, k)"
  shows "parse_numeric str = Inr v"
proof -
  have "unat v < 2 ^ 16" using unsigned_less [of v, where 'a = nat] by simp
  then have "ucast (word_of_nat (unat v) :: u64) = v" "\<not> 0xFFFF < v"
    by (simp_all only: word_unat_eq_iff word_less_nat_alt) (simp_all add: unsigned_ucast_eq unat_of_nat take_bit_nat_eq_self take_bit_word_eq_self)
  then show ?thesis using assms by (simp add: parse_numeric_def strtoull_def)
qed

lemma parse_numeric_hex: "parse_numeric (''0x'' @ fmt_hex_plain 4 (unat v)) = Inr v"
proof (rule parse_numeric_plain)
  have "unat v < 2 ^ 64" using unsigned_less [of v, where 'a = nat] by simp
  then show "stoul_pos (''0x'' @ fmt_hex_plain 4 (unat v)) = Inr (unat v, 0)"
    using stoul_pos_fmt_hex [of "unat v" 6] by (simp add: fmt_hex_def)
qed (simp_all add: startswith_def)

lemma parse_numeric_dec: "parse_numeric (fmt_dec (unat v)) = Inr v"
proof (rule parse_numeric_plain)
  have "unat v < 2 ^ 64" using unsigned_less [of v, where 'a = nat] by simp
  then show "stoul_pos (fmt_dec (unat v)) = Inr (unat v, 0)" by (rule stoul_pos_fmt_dec)
  have b: "\<not> is_digit 10 (CHR ''b'')" "\<not> is_digit 10 (CHR ''B'')" by code_simp+
  have ds: "\<forall>c\<in>set (fmt_dec (unat v)). is_digit 10 c" using printed_digits [of 10 "unat v"] by (simp add: fmt_dec_def)
  with b have nb: "CHR ''b'' \<notin> set (fmt_dec (unat v))" "CHR ''B'' \<notin> set (fmt_dec (unat v))" by blast+
  have sw: "startswith str p \<Longrightarrow> set p \<subseteq> set str" for str p
    unfolding startswith_def by (metis set_take_subset)
  show "\<not> startswith (fmt_dec (unat v)) ''0b''" "\<not> startswith (fmt_dec (unat v)) ''0B''"
    using nb sw [of "fmt_dec (unat v)" "''0b''"] sw [of "fmt_dec (unat v)" "''0B''"] by auto
qed

lemma parse_numeric_bin: "unat v < 8 \<Longrightarrow> parse_numeric (''0b'' @ fmt_bin 4 (unat v)) = Inr v"
proof -
  assume "unat v < 8"
  then have "unat v \<in> set [0, 1, 2, 3, 4, 5, 6, 7]" by auto
  moreover have "list_all (\<lambda>n. parse_numeric (''0b'' @ fmt_bin 4 n) = Inr (word_of_nat n)) [0, 1, 2, 3, 4, 5, 6, 7]"
    by code_simp
  ultimately have "parse_numeric (''0b'' @ fmt_bin 4 (unat v)) = Inr (word_of_nat (unat v))"
    unfolding list_all_iff by blast
  then show ?thesis by simp
qed

section \<open>Words of a line\<close>

lemma tokens_blanks: "tokens (replicate n (CHR '' '') @ s) = tokens s"
  by (induction n) (simp_all add: tokens_blank)

lemma tokens_first: "is_word t \<Longrightarrow> s = [] \<or> hd s = CHR '' '' \<Longrightarrow> \<exists>rest. tokens (t @ s) = t # rest"
  by (cases s) (auto simp: tokens_single tokens_word)

lemma is_word_hex: "is_word (''0x'' @ fmt_hex_plain 4 n)"
  using is_word_fmt(2) [of 6 n] by (simp add: fmt_hex_def)

lemma is_word_bin: "is_word (''0b'' @ fmt_bin 4 n)"
proof -
  have zero: "\<not> isspace (CHR ''0'')" "\<not> isspace (CHR ''b'')" by code_simp+
  have "\<forall>c\<in>set (map digit_char (digits_of 2 n)). is_digit 2 c" by (rule printed_digits) simp_all
  then have "\<forall>c\<in>set (map digit_char (digits_of 2 n)). \<not> isspace c" using is_digit_not_space by blast
  then show ?thesis using zero by (auto simp: is_word_def fmt_bin_def Let_def)
qed

section \<open>Reading a line\<close>

definition basic_line :: "BasicPart \<Rightarrow> string" where
  "basic_line p = (case p of BasicWrite w \<Rightarrow> format_register_write w | BasicComment c \<Rightarrow> ''  # '' @ c)"

text \<open>
  A write whose comment is a single line and whose value is printed in a format that is
  read back; a comment that is read as a write to address zero.
\<close>

definition write_ok :: "RegisterWrite \<Rightarrow> bool" where
  "write_ok w \<longleftrightarrow> newline \<notin> set (rw_comment w) \<and>
     (rw_options w = 0 \<or> rw_options w = Opt_HexValue \<or> rw_options w = Opt_BinValue \<and> unat (rw_value w) < 8)"

definition no_write :: "WriteCommand list result \<Rightarrow> bool" where
  "no_write r = (case r of Inl _ \<Rightarrow> False | Inr ws \<Rightarrow> list_all (\<lambda>w. wc_address w = 0) ws)"

fun basic_ok :: "BasicPart \<Rightarrow> bool" where
  "basic_ok (BasicWrite w) = write_ok w"
| "basic_ok (BasicComment c) = (newline \<notin> set c \<and> no_write (parse_script_line (''  # '' @ c)))"

fun part_ok :: "ScriptPart \<Rightarrow> bool" where
  "part_ok (PartWrite w) = write_ok w"
| "part_ok (PartComment c) = (newline \<notin> set c)"
| "part_ok (PartBlock ub) = (newline \<notin> set (ub_comment ub) \<and> list_all basic_ok (ub_parts ub))"

lemma format_tokens:
  assumes "write_ok w"
  shows "\<exists>v rest. tokens (format_register_write w) = (''0x'' @ fmt_hex_plain 4 (unat (rw_address w))) # v # rest \<and>
    parse_numeric v = Inr (rw_value w)"
proof -
  define s where "s = (if rw_comment w \<noteq> [] then ''    # '' @ rw_comment w else [])"
  have s: "s = [] \<or> hd s = CHR '' ''" by (simp add: s_def)
  obtain n v where v: "format_register_write w =
      CHR '' '' # CHR '' '' # (''0x'' @ fmt_hex_plain 4 (unat (rw_address w))) @ CHR '' '' # replicate n (CHR '' '') @ v @ s"
    "is_word v" "parse_numeric v = Inr (rw_value w)"
  proof -
    consider "rw_options w = 0" | "rw_options w = Opt_HexValue" | "rw_options w = Opt_BinValue" "unat (rw_value w) < 8"
      using assms by (auto simp: write_ok_def)
    then show thesis
    proof cases
      case 1
      then show ?thesis
        using that [of "2 + (4 - length (fmt_dec (unat (rw_value w))))" "fmt_dec (unat (rw_value w))"]
        by (simp add: format_register_write_def s_def fmt_right_def parse_numeric_dec)
    next
      case 2
      then show ?thesis using that [of 0 "''0x'' @ fmt_hex_plain 4 (unat (rw_value w))"] is_word_hex parse_numeric_hex
        by (simp add: format_register_write_def s_def)
    next
      case 3
      then show ?thesis using that [of 0 "''0b'' @ fmt_bin 4 (unat (rw_value w))"] is_word_bin parse_numeric_bin
        by (simp add: format_register_write_def s_def)
    qed
  qed
  obtain rest where "tokens (v @ s) = v # rest" using tokens_first [OF v(2) s] by blast
  then show ?thesis using v(3) unfolding v(1) tokens_blank tokens_word [OF is_word_hex] tokens_blanks by blast
qed

lemma parse_format:
  "write_ok w \<Longrightarrow> parse_script_line (format_register_write w) = Inr [write_command (rw_address w, rw_value w)]"
  using format_tokens [of w] parse_numeric_hex [of "rw_address w"]
  by (auto simp: parse_script_line_def rethrow_parse_def write_command_def)

lemma newline_word: "is_word t \<Longrightarrow> newline \<notin> set t"
  by (auto simp: is_word_def isspace_def)

lemma newline_fmt [simp]: "newline \<notin> set (fmt_dec n)" "newline \<notin> set (fmt_hex_plain 4 n)" "newline \<notin> set (fmt_bin 4 n)"
  using newline_word [of "fmt_dec n"] newline_word [OF is_word_hex, of n] newline_word [OF is_word_bin, of n] by simp_all

lemma newline_format: "write_ok w \<Longrightarrow> newline \<notin> set (format_register_write w)"
  by (auto simp: write_ok_def format_register_write_def fmt_right_def simp del: newline_fmt dest: newline_fmt [THEN notE])

text \<open>The writes of a line outside of the meta block; the writes that count are those with another address than zero.\<close>

definition line_reads :: "string \<Rightarrow> WriteCommand list \<Rightarrow> bool" where
  "line_reads l ws \<longleftrightarrow> newline \<notin> set l \<and>
     (l = [] \<and> ws = [] \<or> l \<noteq> [] \<and> hd l = CHR ''#'' \<and> ws = [] \<or>
      l \<noteq> [] \<and> hd l \<noteq> CHR ''#'' \<and> \<not> startswith l (MetaBlockBegin @ '' '' @ MetaTagMVLCTriggerIO) \<and> parse_script_line l = Inr ws)"

definition real_writes :: "WriteCommand list \<Rightarrow> WriteCommand list" where
  "real_writes ws = filter (\<lambda>w. wc_address w \<noteq> 0) ws"

lemma real_writes_simps [simp]: "real_writes [] = []" "real_writes (xs @ ys) = real_writes xs @ real_writes ys"
  by (simp_all add: real_writes_def)

text \<open>A list of lines that gives the writes.\<close>

definition lines_read :: "string list \<Rightarrow> WriteCommand list \<Rightarrow> bool" where
  "lines_read ls ws \<longleftrightarrow> list_all (\<lambda>l. newline \<notin> set l) ls \<and>
     (\<exists>ws'. real_writes ws' = real_writes ws \<and>
       (\<forall>rest acc y. parse_script_lines (ls @ rest) False acc y = parse_script_lines rest False (acc @ ws') y))"

lemma lines_read_Nil: "lines_read [] []"
  by (auto simp: lines_read_def intro: exI [of _ "[]"])

lemma lines_read_append: "lines_read ls ws \<Longrightarrow> lines_read ms vs \<Longrightarrow> lines_read (ls @ ms) (ws @ vs)"
proof -
  assume l: "lines_read ls ws" and m: "lines_read ms vs"
  obtain ws' where ws': "real_writes ws' = real_writes ws"
    "\<And>rest acc y. parse_script_lines (ls @ rest) False acc y = parse_script_lines rest False (acc @ ws') y"
    using l unfolding lines_read_def by blast
  obtain vs' where "real_writes vs' = real_writes vs"
    "\<And>rest acc y. parse_script_lines (ms @ rest) False acc y = parse_script_lines rest False (acc @ vs') y"
    using m unfolding lines_read_def by blast
  then have "real_writes (ws' @ vs') = real_writes (ws @ vs)"
    "\<And>rest acc y. parse_script_lines ((ls @ ms) @ rest) False acc y = parse_script_lines rest False (acc @ (ws' @ vs')) y"
    using ws' by simp_all
  then show ?thesis using l m unfolding lines_read_def list_all_append by blast
qed

lemma lines_read_line: "line_reads l ws \<Longrightarrow> lines_read [l] ws"
  by (auto simp: lines_read_def line_reads_def intro!: exI [of _ ws])

lemma lines_read_ignored: "line_reads l ws \<Longrightarrow> list_all (\<lambda>w. wc_address w = 0) ws \<Longrightarrow> lines_read [l] []"
  using lines_read_line [of l ws] by (simp add: lines_read_def real_writes_def list_all_iff)

lemma lines_read_concat: "list_all2 (\<lambda>ls x. lines_read ls (f x)) lss xs \<Longrightarrow> lines_read (concat lss) (concat (map f xs))"
  by (induction lss xs rule: list_all2_induct) (simp_all add: lines_read_Nil lines_read_append)

end
