(* ===== verification/Spec2Isabelle.thy ===== *)
theory Spec2Isabelle
  imports Mvlc_Prelude Mvlc_Frames Mvlc_Buffers Mvlc_Command_Codec Mvlc_Command_Text
    Readout_Parser_Safety Readout_Roundtrip Mvlc_Data_Filter Event_Builder2_Properties
    Trigger_IO_Properties Trigger_IO_Script_Text
begin

text \<open>
  A verification library for the core of mesytec-mvlc.
\<close>

section \<open>From the readout parser to the event builder\<close>

text \<open>The callbacks of the parser are connected to the event builder; the answers to recording are collected.\<close>

definition feed_builder :: "callback \<Rightarrow> EventBuilder2 \<times> bool list \<Rightarrow> (EventBuilder2 \<times> bool list) result" where
  "feed_builder e st = (case st of (s, oks) \<Rightarrow> case e of
     EventData crate ev mds \<Rightarrow> result_map (\<lambda>(s, ok). (s, oks @ [ok])) (recordModuleData ev mds s)
   | SystemEvent crate words \<Rightarrow> Inr (handleSystemEvent words s, oks))"

lemma recordModuleData_accepts:
  assumes "reach cfg s" "0 \<le> ix" "nat ix < length (eventConfigs cfg)" "list_all size_consistency_check mds"
    and "length mds = length (moduleConfigs (eventConfigs cfg ! nat ix))"
  shows "\<exists>s'. recordModuleData ix mds s = Inr (s', True) \<and> reach cfg s'"
proof -
  have ok: "builder_ok s" "eb_cfg s = cfg" using reach_ok [OF assms(1)] by simp_all
  have "module_count_ok s ix mds" using assms(5) ok(2) by (simp add: module_count_ok_def)
  then obtain s' b where s': "recordModuleData ix mds s = Inr (s', b)" using recordModuleData_ok [OF ok(1)] by blast
  have c: "checkConsistency s ix mds" using assms event_index_ok_iff [OF ok(1)] ok(2) by (simp add: checkConsistency_def)
  have "b"
    using s' c assms(4,5) ok(2) record_event_ok [OF builder_ok_event [OF ok(1)], of "nat ix" mds] assms(3)
    by (auto simp: recordModuleData_def Let_def split: if_splits)
  moreover have "eb_recordModuleData ix mds s = Inr (s', True)"
    using eb_record_index [OF ok(1), of ix mds] assms(2,3) ok(2) s' by simp
  then have "reach cfg s'" using reach.recorded [OF assms(1)] by blast
  ultimately show ?thesis using s' by simp
qed

lemma event_ok_accepted:
  assumes "Readout_Parser_Safety.event_ok S (EventData crate ev mds)"
  shows "0 \<le> ev" "nat ev < length S" "list_all size_consistency_check mds" "length mds = length (S ! nat ev)"
proof -
  show "0 \<le> ev" "nat ev < length S" using assms by (simp_all add: Readout_Parser_Safety.event_ok_def)
  have "list_all2 module_data_ok (S ! nat ev) mds \<or> mds = replicate (length (S ! nat ev)) ModuleData_init"
    using assms by (simp add: Readout_Parser_Safety.event_ok_def)
  then show "list_all size_consistency_check mds" "length mds = length (S ! nat ev)"
    by (auto simp: list_all2_conv_all_nth list_all_length module_data_ok_def size_consistency_check_def ModuleData_init_def)
qed

lemma feed_builder_accepts:
  assumes "list_all (Readout_Parser_Safety.event_ok S) es" "map (\<lambda>ec. length (moduleConfigs ec)) (eventConfigs cfg) = map length S"
    and "reach cfg s" "list_all (\<lambda>ok. ok) oks"
  shows "\<exists>s' oks'. result_foldM feed_builder es (s, oks) = Inr (s', oks') \<and> reach cfg s' \<and> list_all (\<lambda>ok. ok) oks'"
  using assms(1,3,4)
proof (induction es arbitrary: s oks)
  case (Cons e es)
  have len: "length (eventConfigs cfg) = length S" using assms(2) by (metis length_map)
  have "\<exists>s' oks'. feed_builder e (s, oks) = Inr (s', oks') \<and> reach cfg s' \<and> list_all (\<lambda>ok. ok) oks'"
  proof (cases e)
    case (EventData crate ev mds)
    have e: "0 \<le> ev" "nat ev < length S" "list_all size_consistency_check mds" "length mds = length (S ! nat ev)"
      using event_ok_accepted [of S crate ev mds] Cons.prems(1) EventData by simp_all
    have "length (moduleConfigs (eventConfigs cfg ! nat ev)) = length (S ! nat ev)"
      using arg_cong [OF assms(2), of "\<lambda>xs. xs ! nat ev"] e(2) len by simp
    then obtain s' where "recordModuleData ev mds s = Inr (s', True)" "reach cfg s'"
      using recordModuleData_accepts [OF Cons.prems(2) e(1) _ e(3)] e(2,4) len by auto
    then show ?thesis using Cons.prems(3) by (simp add: feed_builder_def EventData)
  next
    case (SystemEvent crate words)
    then show ?thesis using reach.system_event [OF Cons.prems(2)] Cons.prems(3) by (simp add: feed_builder_def)
  qed
  then show ?case using Cons.IH Cons.prems(1) by force
qed simp



end
